(* ===== verification/Prelude.thy ===== *)
theory Prelude
  imports Main "HOL-Library.Word"
begin

text \<open>
  The vocabulary every component theory shares: the machine integers of the target
  (x86-64, so \<open>usize\<close> is 64 bits wide), Rust's \<open>Result\<close>, the outcome of a computation that
  may panic, checked arithmetic, and the read-modify-write operations of
  \<open>core::sync::atomic\<close> that the kernel uses.

  The kernel is built with the \<open>dev\<close> profile by default (\<open>src/Makefile\<close>), so arithmetic
  overflow and failed \<open>debug_assert!\<close>s panic; both are modelled as panics here.
\<close>

unbundle bit_operations_syntax

section \<open>Automation of the development\<close>

named_theorems run_simps \<open>rewriting of computations that may panic\<close>
named_theorems addr_simps \<open>definitions and conversions of the address types\<close>
named_theorems entry_simps \<open>reading and writing packed retype entries\<close>
named_theorems table_simps \<open>effect of the retype operations on the table\<close>

section \<open>Machine integers, results and panics\<close>

type_synonym u8 = "8 word"
type_synonym u16 = "16 word"
type_synonym u32 = "32 word"
type_synonym u64 = "64 word"
type_synonym usize = "64 word"
type_synonym isize = "64 word"

datatype ('a, 'e) result = Ok 'a | Err 'e

text \<open>
  The ways the kernel stops: a failed \<open>assert!\<close>, an \<open>unwrap\<close> of \<open>None\<close> or of \<open>Err\<close>, an
  arithmetic overflow, an index out of bounds, an explicit \<open>panic!\<close>, a \<open>todo!\<close>, a loop
  that never ends (spinning on a lock that nobody releases), and a read of memory that does
  not hold an object of the expected type.
\<close>

datatype panic =
  AssertFailed | UnwrapNone | UnwrapErr | ArithOverflow | IndexOutOfBounds
  | ExplicitPanic | NotImplemented | Diverges | BadDeref

datatype 'a run = Return 'a | Panic panic

primrec bindR :: "'a run \<Rightarrow> ('a \<Rightarrow> 'b run) \<Rightarrow> 'b run" where
  "bindR (Return x) f = f x"
| "bindR (Panic p) f = Panic p"

lemma bindR_Return [simp]: "bindR m Return = m"
  by (cases m) simp_all

lemma bindR_assoc [run_simps]: "bindR (bindR m f) g = bindR m (\<lambda>x. bindR (f x) g)"
  by (cases m) simp_all

lemma bindR_eq_Return [run_simps]:
  "bindR m f = Return y \<longleftrightarrow> (\<exists>x. m = Return x \<and> f x = Return y)"
  by (cases m) simp_all

lemma bindR_split:
  "P (bindR m f) \<longleftrightarrow> (\<forall>x. m = Return x \<longrightarrow> P (f x)) \<and> (\<forall>p. m = Panic p \<longrightarrow> P (Panic p))"
  by (cases m) simp_all

lemma bindR_cong [fundef_cong]:
  "m = m' \<Longrightarrow> (\<And>x. m' = Return x \<Longrightarrow> f x = g x) \<Longrightarrow> bindR m f = bindR m' g"
  by (cases m') simp_all

lemma bindR_E:
  assumes "bindR m f = Return y"
  obtains x where "m = Return x" and "f x = Return y"
  using assms by (auto simp: bindR_eq_Return)

primrec returns :: "'a run \<Rightarrow> bool" where
  "returns (Return x) = True"
| "returns (Panic p) = False"

lemma returns_iff: "returns m \<longleftrightarrow> (\<exists>x. m = Return x)"
  by (cases m) simp_all

definition assert :: "bool \<Rightarrow> unit run" where
  "assert b = (if b then Return () else Panic AssertFailed)"

lemma assert_simps [simp]:
  "assert True = Return ()" "assert False = Panic AssertFailed"
  "assert b = Return u \<longleftrightarrow> b"
  by (simp_all add: assert_def)

primrec unwrap :: "'a option \<Rightarrow> 'a run" where
  "unwrap None = Panic UnwrapNone"
| "unwrap (Some x) = Return x"

primrec unwrap_ok :: "('a, 'e) result \<Rightarrow> 'a run" where
  "unwrap_ok (Ok x) = Return x"
| "unwrap_ok (Err e) = Panic UnwrapErr"

lemma unwrap_eq_Return [simp]: "unwrap m = Return x \<longleftrightarrow> m = Some x"
  by (cases m) simp_all

lemma unwrap_ok_eq_Return [simp]: "unwrap_ok m = Return x \<longleftrightarrow> m = Ok x"
  by (cases m) simp_all

primrec map_err :: "('e \<Rightarrow> 'f) \<Rightarrow> ('a, 'e) result \<Rightarrow> ('a, 'f) result" where
  "map_err f (Ok x) = Ok x"
| "map_err f (Err e) = Err (f e)"

section \<open>Checked arithmetic\<close>

lemma unat_lt: "unat (a :: 'a::len word) < 2 ^ LENGTH('a)"
  by (rule unsigned_less)

lemma word_eq_unatI: "unat a = unat b \<Longrightarrow> a = (b :: 'a::len word)"
  by (simp add: word_unat_eq_iff)

definition add_chk :: "'a::len word \<Rightarrow> 'a word \<Rightarrow> 'a word run" where
  "add_chk a b = (if unat a + unat b < 2 ^ LENGTH('a) then Return (a + b) else Panic ArithOverflow)"

definition sub_chk :: "'a::len word \<Rightarrow> 'a word \<Rightarrow> 'a word run" where
  "sub_chk a b = (if b \<le> a then Return (a - b) else Panic ArithOverflow)"

definition mul_chk :: "'a::len word \<Rightarrow> 'a word \<Rightarrow> 'a word run" where
  "mul_chk a b = (if unat a * unat b < 2 ^ LENGTH('a) then Return (a * b) else Panic ArithOverflow)"

lemma add_chk_eq_Return:
  fixes a b c :: "'a::len word"
  shows "add_chk a b = Return c \<longleftrightarrow> unat c = unat a + unat b"
proof
  assume "add_chk a b = Return c"
  then show "unat c = unat a + unat b"
    by (auto simp: add_chk_def unat_word_ariths split: if_splits)
next
  assume c: "unat c = unat a + unat b"
  then have "unat a + unat b < 2 ^ LENGTH('a)"
    by (metis unat_lt)
  then have "unat (a + b) = unat c"
    by (simp add: c unat_word_ariths)
  then show "add_chk a b = Return c"
    using \<open>unat a + unat b < 2 ^ LENGTH('a)\<close> by (simp add: add_chk_def word_unat_eq_iff)
qed

lemma sub_chk_eq_Return: "sub_chk a b = Return c \<longleftrightarrow> b \<le> a \<and> c = a - b"
  by (auto simp: sub_chk_def)

lemma unat_sub_le: "b \<le> a \<Longrightarrow> unat (a - b) = unat a - unat (b :: 'a::len word)"
  by (rule unat_sub)

lemma mul_chk_eq_Return:
  fixes a b c :: "'a::len word"
  shows "mul_chk a b = Return c \<longleftrightarrow> unat c = unat a * unat b"
proof
  assume "mul_chk a b = Return c"
  then show "unat c = unat a * unat b"
    by (auto simp: mul_chk_def unat_word_ariths split: if_splits)
next
  assume c: "unat c = unat a * unat b"
  then have lt: "unat a * unat b < 2 ^ LENGTH('a)"
    by (metis unat_lt)
  then have "unat (a * b) = unat c"
    by (simp add: c unat_word_ariths)
  then show "mul_chk a b = Return c"
    using lt by (simp add: mul_chk_def word_unat_eq_iff)
qed

lemma unat_drop_bit: "unat (drop_bit n (x :: 'a::len word)) = unat x div 2 ^ n"
proof -
  have "take_bit LENGTH('a) (unat x) = unat x"
    using unat_lt [of x] by (simp add: take_bit_nat_eq_self)
  then show ?thesis
    by (subst unsigned_drop_bit_eq) (simp add: drop_bit_eq_div)
qed

lemma sint_of_unat:
  "sint (a :: 64 word) = (if unat a < 2 ^ 63 then int (unat a) else int (unat a) - 2 ^ 64)"
proof -
  obtain k where k: "unat a = k" by simp
  then have "uint a = int k" by (simp add: uint_nat)
  then have 1: "sint a = (int k + 2 ^ 63) mod 2 ^ 64 - 2 ^ 63"
    by (simp add: sint_uint signed_take_bit_eq_take_bit_shift take_bit_eq_mod)
  have "k < 2 ^ 64"
    using unat_lt [of a] by (simp add: k)
  then have "(int k + 2 ^ 63) mod 2 ^ 64 = (if k < 2 ^ 63 then int k + 2 ^ 63 else int k - 2 ^ 63)"
    using mod_pos_pos_trivial [of "int k + 2 ^ 63" "2 ^ 64"]
      mod_pos_pos_trivial [of "int k - 2 ^ 63" "2 ^ 64"]
      mod_add_self2 [of "int k - 2 ^ 63" "2 ^ 64"]
    by (auto simp: not_less add.commute)
  then show ?thesis
    unfolding 1 k by simp
qed

section \<open>Atomic read-modify-write operations\<close>

text \<open>
  \<open>fetch_update\<close> applies a function to the stored value until no other thread interferes;
  its effect is one atomic step. The function may decline (\<open>None\<close>), which leaves the value
  as it is and reports it as the error. \<open>compare_exchange\<close> stores \<open>new\<close> when the value is
  \<open>expected\<close> and reports the old value either way.
\<close>

definition fetch_update :: "('v \<Rightarrow> 'v option run) \<Rightarrow> 'v \<Rightarrow> (('v, 'v) result \<times> 'v) run" where
  "fetch_update f v = bindR (f v) (\<lambda>r. case r of
     None \<Rightarrow> Return (Err v, v) | Some v' \<Rightarrow> Return (Ok v, v'))"

definition compare_exchange :: "'v \<Rightarrow> 'v \<Rightarrow> 'v \<Rightarrow> ('v, 'v) result \<times> 'v" where
  "compare_exchange expected new v = (if v = expected then (Ok v, new) else (Err v, v))"

section \<open>Lists\<close>

definition get_at :: "'a list \<Rightarrow> usize \<Rightarrow> 'a option" where
  "get_at xs i = (if unat i < length xs then Some (xs ! unat i) else None)"

lemma get_at_eq_Some: "get_at xs i = Some x \<longleftrightarrow> unat i < length xs \<and> x = xs ! unat i"
  by (auto simp: get_at_def)

lemma sum_list_update_less:
  fixes xs :: "nat list"
  assumes "i < length xs" and "y < xs ! i"
  shows "sum_list (xs[i := y]) < sum_list xs"
  using assms
proof (induction xs arbitrary: i)
  case (Cons x xs)
  then show ?case by (cases i) auto
qed simp

end
