(* ===== verification/Paging.thy ===== *)
theory Paging
  imports Prelude
begin

text \<open>
  The address types of \<open>arch/x86_64/paging\<close>: physical and virtual addresses
  (\<open>physical_address.rs\<close>, \<open>virtual_address.rs\<close>), frames and pages (\<open>frames.rs\<close>,
  \<open>pages.rs\<close>) and the level and offset types of \<open>page_table.rs\<close>. The lemmas show which
  raw values each constructor accepts, that the conversions between a physical address and
  its image in the direct map are inverse to each other, and that the four page table
  indices determine a page.

  \<open>PMO\<close>, the offset of the direct map (\<open>main.rs\<close>), is a lazily initialised static; the
  definitions that read it take its value as an argument.
\<close>

unbundle bit_operations_syntax

section \<open>Definitions\<close>

definition PAGE_SIZE :: usize where "PAGE_SIZE = 4096"
definition FRAME_SIZE :: u64 where "FRAME_SIZE = 4096"

subsection \<open>Page table levels and offsets\<close>

datatype PageTableOffset = PageTableOffset (offset_u16: u16)
datatype PageTableLevel = PageTableLevel (level: u8)
datatype PageTableOffsetError = OffsetOutOfBounds
datatype InvalidLevel = InvalidLevel

definition PageTableLevel_try_new :: "u8 \<Rightarrow> (PageTableLevel, InvalidLevel) result" where
  "PageTableLevel_try_new l = (if l < 1 \<or> l > 4 then Err InvalidLevel else Ok (PageTableLevel l))"

definition PageTableLevel_new :: "u8 \<Rightarrow> PageTableLevel run" where
  "PageTableLevel_new l = (case PageTableLevel_try_new l of
     Ok lv \<Rightarrow> Return lv | Err _ \<Rightarrow> Panic ExplicitPanic)"

definition PageTableLevel_top :: PageTableLevel where
  "PageTableLevel_top = PageTableLevel 4"

definition is_bottom :: "PageTableLevel \<Rightarrow> bool" where
  "is_bottom l \<longleftrightarrow> level l = 1"

definition lower :: "PageTableLevel \<Rightarrow> PageTableLevel option run" where
  "lower l = bindR (sub_chk (level l) 1) (\<lambda>k.
     case PageTableLevel_try_new k of Ok l' \<Rightarrow> Return (Some l') | Err _ \<Rightarrow> Return None)"

definition PageTableOffset_new :: "u16 \<Rightarrow> (PageTableOffset, PageTableOffsetError) result" where
  "PageTableOffset_new off = (if off < 512 then Ok (PageTableOffset off) else Err OffsetOutOfBounds)"

definition PageTableOffset_try_from :: "usize \<Rightarrow> (PageTableOffset, PageTableOffsetError) result" where
  "PageTableOffset_try_from v =
     (if unat v < 2 ^ 16 then PageTableOffset_new (ucast v) else Err OffsetOutOfBounds)"

definition is_lower_half :: "PageTableOffset \<Rightarrow> bool" where
  "is_lower_half off \<longleftrightarrow> offset_u16 off < 256"

definition PageTableOffset_new_truncate :: "u16 \<Rightarrow> PageTableOffset" where
  "PageTableOffset_new_truncate a = PageTableOffset (a mod 512)"

subsection \<open>Virtual addresses\<close>

datatype VirtAddr = VirtAddr (as_usize: usize)
datatype BadVirtAddr = BadVirtAddr

definition VirtAddr_new_truncate :: "usize \<Rightarrow> VirtAddr" where
  "VirtAddr_new_truncate a = VirtAddr (signed_drop_bit 16 (push_bit 16 a))"

definition VirtAddr_try_new :: "usize \<Rightarrow> (VirtAddr, BadVirtAddr) result" where
  "VirtAddr_try_new a =
     (if as_usize (VirtAddr_new_truncate a) = a then Ok (VirtAddr_new_truncate a) else Err BadVirtAddr)"

definition VirtAddr_new :: "usize \<Rightarrow> VirtAddr run" where
  "VirtAddr_new a = (case VirtAddr_try_new a of Ok v \<Rightarrow> Return v | Err _ \<Rightarrow> Panic ExplicitPanic)"

definition p1_index :: "VirtAddr \<Rightarrow> PageTableOffset" where
  "p1_index v = PageTableOffset_new_truncate (ucast (drop_bit 12 (as_usize v)))"

definition p2_index :: "VirtAddr \<Rightarrow> PageTableOffset" where
  "p2_index v = PageTableOffset_new_truncate (ucast (drop_bit 9 (drop_bit 12 (as_usize v))))"

definition p3_index :: "VirtAddr \<Rightarrow> PageTableOffset" where
  "p3_index v =
     PageTableOffset_new_truncate (ucast (drop_bit 9 (drop_bit 9 (drop_bit 12 (as_usize v)))))"

definition p4_index :: "VirtAddr \<Rightarrow> PageTableOffset" where
  "p4_index v = PageTableOffset_new_truncate
     (ucast (drop_bit 9 (drop_bit 9 (drop_bit 9 (drop_bit 12 (as_usize v))))))"

definition page_table_index :: "VirtAddr \<Rightarrow> PageTableLevel \<Rightarrow> PageTableOffset run" where
  "page_table_index v l =
     bindR (sub_chk (level l) 1) (\<lambda>k.
     bindR (mul_chk k 9) (\<lambda>sh.
     Return (PageTableOffset_new_truncate (ucast (drop_bit (unat sh) (drop_bit 12 (as_usize v)))))))"

subsection \<open>Physical addresses\<close>

datatype PhysAddr = PhysAddr (as_u64: u64)
datatype BadAddress = BadAddress

definition PhysAddr_new_truncate :: "u64 \<Rightarrow> PhysAddr" where
  "PhysAddr_new_truncate a = PhysAddr (a mod (push_bit 52 1))"

definition PhysAddr_try_new :: "u64 \<Rightarrow> (PhysAddr, BadAddress) result" where
  "PhysAddr_try_new a =
     (if as_u64 (PhysAddr_new_truncate a) = a then Ok (PhysAddr a) else Err BadAddress)"

definition PhysAddr_new :: "u64 \<Rightarrow> PhysAddr run" where
  "PhysAddr_new a = (case PhysAddr_try_new a of Ok p \<Rightarrow> Return p | Err _ \<Rightarrow> Panic ExplicitPanic)"

text \<open>The initialiser of \<open>PMO\<close> on the offset the bootloader reports.\<close>

definition PMO_init :: "u64 \<Rightarrow> VirtAddr run" where
  "PMO_init pmo = bindR (assert (pmo \<ge> 0xFFFF800000000000)) (\<lambda>_. VirtAddr_new pmo)"

definition to_virtual :: "VirtAddr \<Rightarrow> PhysAddr \<Rightarrow> VirtAddr run" where
  "to_virtual pmo p = bindR (add_chk (as_usize pmo) (as_u64 p)) VirtAddr_new"

definition from_virtual :: "VirtAddr \<Rightarrow> VirtAddr \<Rightarrow> PhysAddr run" where
  "from_virtual pmo v = bindR (sub_chk (as_usize v) (as_usize pmo)) PhysAddr_new"

subsection \<open>Frames and pages\<close>

datatype RawFrame = RawFrame (frame_base: PhysAddr)
datatype UnalignedAddress = UnalignedAddress

definition RawFrame_try_from_start_address :: "PhysAddr \<Rightarrow> (RawFrame, UnalignedAddress) result" where
  "RawFrame_try_from_start_address b =
     (if as_u64 b mod FRAME_SIZE \<noteq> 0 then Err UnalignedAddress else Ok (RawFrame b))"

definition RawFrame_from_start_address :: "PhysAddr \<Rightarrow> RawFrame run" where
  "RawFrame_from_start_address b = unwrap_ok (RawFrame_try_from_start_address b)"

definition RawFrame_within_frame :: "PhysAddr \<Rightarrow> RawFrame run" where
  "RawFrame_within_frame a = bindR (PhysAddr_new (as_u64 a mod FRAME_SIZE)) (\<lambda>b. Return (RawFrame b))"

definition RawFrame_addr :: "RawFrame \<Rightarrow> PhysAddr" where
  "RawFrame_addr f = frame_base f"

datatype Page = Page (page_base: VirtAddr)
datatype Unaligned = Unaligned

definition Page_try_from_start_address :: "VirtAddr \<Rightarrow> (Page, Unaligned) result" where
  "Page_try_from_start_address a =
     (if as_usize a mod PAGE_SIZE \<noteq> 0 then Err Unaligned else Ok (Page a))"

definition Page_from_start_address :: "VirtAddr \<Rightarrow> Page run" where
  "Page_from_start_address a = unwrap_ok (Page_try_from_start_address a)"

definition Page_containing_address :: "VirtAddr \<Rightarrow> Page run" where
  "Page_containing_address a =
     bindR (mul_chk (as_usize a div PAGE_SIZE) PAGE_SIZE) (\<lambda>b.
     bindR (VirtAddr_new b) Page_from_start_address)"

lemmas paging_defs [addr_simps] =
  PAGE_SIZE_def FRAME_SIZE_def RawFrame_addr_def
  RawFrame_try_from_start_address_def RawFrame_from_start_address_def
  Page_try_from_start_address_def Page_from_start_address_def

section \<open>Which raw values are addresses\<close>

text \<open>
  The canonical addresses of a 48-bit virtual address space: bits 47 to 63 are equal, that is
  the address is below \<open>2^47\<close> or in the topmost \<open>2^47\<close> bytes.
\<close>

definition canonical :: "usize \<Rightarrow> bool" where
  "canonical a \<longleftrightarrow> unat a < 2 ^ 47 \<or> 2 ^ 64 - 2 ^ 47 \<le> unat a"

lemma sign_extend_eq_signed_take_bit:
  "signed_drop_bit 16 (push_bit 16 a) = (signed_take_bit 47 a :: 64 word)"
proof (rule bit_word_eqI)
  fix n assume "n < LENGTH(64)"
  then show "bit (signed_drop_bit 16 (push_bit 16 a)) n = bit (signed_take_bit 47 a) n"
    by (cases "n = 47") (auto simp: bit_simps not_le min_def)
qed

lemma sint_signed_take_bit_47: "sint (signed_take_bit 47 a :: 64 word) = signed_take_bit 47 (sint a)"
  by (rule bit_eqI) (simp add: bit_simps min_def)

lemma signed_take_bit_self_iff:
  "signed_take_bit 47 a = (a :: 64 word) \<longleftrightarrow> - (2 ^ 47) \<le> sint a \<and> sint a < 2 ^ 47"
proof -
  have "signed_take_bit 47 a = a \<longleftrightarrow> sint (signed_take_bit 47 a) = sint a"
    by (auto intro: signed_word_eqI)
  also have "\<dots> \<longleftrightarrow> signed_take_bit 47 (sint a) = sint a"
    by (simp only: sint_signed_take_bit_47)
  finally show ?thesis
    by (simp only: signed_take_bit_int_eq_self_iff)
qed

lemma VirtAddr_truncate_self_iff: "as_usize (VirtAddr_new_truncate a) = a \<longleftrightarrow> canonical a"
proof -
  have "as_usize (VirtAddr_new_truncate a) = a \<longleftrightarrow> - (2 ^ 47) \<le> sint a \<and> sint a < 2 ^ 47"
    by (simp add: VirtAddr_new_truncate_def sign_extend_eq_signed_take_bit signed_take_bit_self_iff)
  also have "\<dots> \<longleftrightarrow> canonical a"
  proof -
    obtain k where k: "unat a = k" by simp
    have "k < 2 ^ 64"
      using unat_lt [of a] by (simp add: k)
    then show ?thesis
      unfolding canonical_def sint_of_unat k by auto
  qed
  finally show ?thesis .
qed

lemma VirtAddr_try_new_eq [addr_simps]:
  "VirtAddr_try_new a = (if canonical a then Ok (VirtAddr a) else Err BadVirtAddr)"
  unfolding VirtAddr_try_new_def
  using VirtAddr_truncate_self_iff [of a] by (auto intro: VirtAddr.expand)

lemma VirtAddr_new_eq [addr_simps]:
  "VirtAddr_new a = (if canonical a then Return (VirtAddr a) else Panic ExplicitPanic)"
  by (simp add: VirtAddr_new_def VirtAddr_try_new_eq)

lemma PhysAddr_try_new_eq [addr_simps]:
  "PhysAddr_try_new a = (if unat a < 2 ^ 52 then Ok (PhysAddr a) else Err BadAddress)"
proof -
  have "a mod (push_bit 52 1) = a \<longleftrightarrow> unat (a mod 0x10000000000000) = unat a"
    by (simp add: word_unat_eq_iff)
  also have "\<dots> \<longleftrightarrow> unat a < 2 ^ 52"
    by (auto simp: unat_mod mod_eq_self_iff_div_eq_0)
  finally show ?thesis
    by (simp add: PhysAddr_try_new_def PhysAddr_new_truncate_def)
qed

lemma PhysAddr_new_eq [addr_simps]:
  "PhysAddr_new a = (if unat a < 2 ^ 52 then Return (PhysAddr a) else Panic ExplicitPanic)"
  by (simp add: PhysAddr_new_def PhysAddr_try_new_eq)

lemma PMO_init_eq:
  "PMO_init a = (if 0xFFFF800000000000 \<le> a then Return (VirtAddr a) else Panic AssertFailed)"
  by (auto simp: PMO_init_def VirtAddr_new_eq canonical_def word_le_nat_alt)

section \<open>The direct map\<close>

definition pmo_ok :: "VirtAddr \<Rightarrow> bool" where
  "pmo_ok pmo \<longleftrightarrow> 0xFFFF800000000000 \<le> as_usize pmo"

lemma to_virtual_eq:
  assumes "pmo_ok pmo"
  shows "to_virtual pmo p =
    (if unat (as_usize pmo) + unat (as_u64 p) < 2 ^ 64
     then Return (VirtAddr (as_usize pmo + as_u64 p)) else Panic ArithOverflow)"
proof (cases "unat (as_usize pmo) + unat (as_u64 p) < 2 ^ 64")
  case True
  then have "unat (as_usize pmo + as_u64 p) = unat (as_usize pmo) + unat (as_u64 p)"
    by (simp add: unat_word_ariths)
  with assms have "canonical (as_usize pmo + as_u64 p)"
    by (simp add: canonical_def pmo_ok_def word_le_nat_alt)
  with True show ?thesis
    by (simp add: to_virtual_def add_chk_def VirtAddr_new_eq)
qed (simp add: to_virtual_def add_chk_def)

lemma to_virtual_Return:
  assumes "to_virtual pmo p = Return v"
  shows "v = VirtAddr (as_usize pmo + as_u64 p)"
    and "unat (as_usize v) = unat (as_usize pmo) + unat (as_u64 p)"
    and "canonical (as_usize v)"
  using assms
  by (auto simp: to_virtual_def add_chk_def VirtAddr_new_eq unat_word_ariths split: if_splits)

lemma from_virtual_to_virtual:
  assumes "to_virtual pmo p = Return v" and "unat (as_u64 p) < 2 ^ 52"
  shows "from_virtual pmo v = Return p"
  using to_virtual_Return [OF assms(1)] assms(2)
  by (simp add: from_virtual_def sub_chk_def PhysAddr_new_eq word_le_nat_alt)

section \<open>Page table indices\<close>

lemma unat_index [addr_simps]:
  "unat (offset_u16 (PageTableOffset_new_truncate (ucast (x :: usize)))) = unat x mod 512"
proof -
  have "unat (ucast x :: u16) = unat x mod 2 ^ 16"
    by (simp add: unsigned_ucast_eq take_bit_eq_mod)
  then show ?thesis
    by (simp add: PageTableOffset_new_truncate_def unat_mod mod_mod_cancel)
qed

lemma p_index_values:
  "unat (offset_u16 (p1_index v)) = unat (as_usize v) div 2 ^ 12 mod 512"
  "unat (offset_u16 (p2_index v)) = unat (as_usize v) div 2 ^ 21 mod 512"
  "unat (offset_u16 (p3_index v)) = unat (as_usize v) div 2 ^ 30 mod 512"
  "unat (offset_u16 (p4_index v)) = unat (as_usize v) div 2 ^ 39 mod 512"
  by (simp_all add: p1_index_def p2_index_def p3_index_def p4_index_def unat_index
      unat_drop_bit div_mult2_eq [symmetric])

lemma page_table_index_eq [addr_simps]:
  "page_table_index v (PageTableLevel 1) = Return (p1_index v)"
  "page_table_index v (PageTableLevel 2) = Return (p2_index v)"
  "page_table_index v (PageTableLevel 3) = Return (p3_index v)"
  "page_table_index v (PageTableLevel 4) = Return (p4_index v)"
  by (simp_all add: page_table_index_def sub_chk_def mul_chk_def
      p1_index_def p2_index_def p3_index_def p4_index_def)

lemma lower_eq [addr_simps]:
  "lower (PageTableLevel 4) = Return (Some (PageTableLevel 3))"
  "lower (PageTableLevel 3) = Return (Some (PageTableLevel 2))"
  "lower (PageTableLevel 2) = Return (Some (PageTableLevel 1))"
  "lower (PageTableLevel 1) = Return None"
  by (simp_all add: lower_def sub_chk_def PageTableLevel_try_new_def)

section \<open>Pages and frames\<close>

definition page_ok :: "Page \<Rightarrow> bool" where
  "page_ok p \<longleftrightarrow> canonical (as_usize (page_base p)) \<and> as_usize (page_base p) mod PAGE_SIZE = 0"

definition frame_ok :: "RawFrame \<Rightarrow> bool" where
  "frame_ok f \<longleftrightarrow> unat (as_u64 (frame_base f)) < 2 ^ 52 \<and> as_u64 (frame_base f) mod FRAME_SIZE = 0"

lemma word_mod_4096_iff: "(a :: 64 word) mod 4096 = 0 \<longleftrightarrow> unat a mod 4096 = 0"
  by (simp add: word_unat_eq_iff unat_mod)

lemma Page_containing_address_eq:
  assumes "canonical (as_usize v)"
  shows "\<exists>p. Page_containing_address v = Return p \<and> page_ok p
    \<and> unat (as_usize (page_base p)) = unat (as_usize v) div 4096 * 4096"
proof -
  let ?a = "as_usize v" and ?b = "as_usize v div 4096 * 4096"
  have k: "unat ?a < 2 ^ 64"
    using unat_lt [of ?a] by simp
  have le: "unat ?a div 4096 * 4096 \<le> unat ?a"
    by simp
  then have b: "unat ?b = unat ?a div 4096 * 4096"
    using k by (simp add: unat_word_ariths unat_div)
  have chk: "mul_chk (?a div 4096) 4096 = Return ?b"
    using le k by (simp add: mul_chk_def unat_div)
  have "canonical ?b"
  proof (cases "unat ?a < 2 ^ 47")
    case True
    then show ?thesis unfolding canonical_def b by (intro disjI1 le_less_trans [OF le])
  next
    case False
    with assms have "(2 ^ 64 - 2 ^ 47) div 4096 \<le> unat ?a div 4096"
      unfolding canonical_def by (intro div_le_mono) simp
    then show ?thesis unfolding canonical_def b by simp
  qed
  moreover have "?b mod 4096 = 0"
    unfolding word_mod_4096_iff b by simp
  ultimately show ?thesis
    using chk b
    by (intro exI [of _ "Page (VirtAddr ?b)"])
       (simp add: Page_containing_address_def PAGE_SIZE_def VirtAddr_new_eq
         Page_from_start_address_def Page_try_from_start_address_def page_ok_def)
qed

lemma page_digits:
  fixes m n :: nat
  assumes "m mod 4096 = 0" and "n mod 4096 = 0"
    and "m div 2 ^ 12 mod 512 = n div 2 ^ 12 mod 512" and "m div 2 ^ 21 mod 512 = n div 2 ^ 21 mod 512"
    and "m div 2 ^ 30 mod 512 = n div 2 ^ 30 mod 512" and "m div 2 ^ 39 mod 512 = n div 2 ^ 39 mod 512"
  shows "m mod 2 ^ 48 = n mod 2 ^ 48"
proof -
  have split: "k mod 2 ^ (i + 9) = k mod 2 ^ i + 2 ^ i * (k div 2 ^ i mod 512)" for k i :: nat
    by (simp add: power_add mod_mult2_eq)
  have step: "m mod 2 ^ (i + 9) = n mod 2 ^ (i + 9)"
    if "m mod 2 ^ i = n mod 2 ^ i" and "m div 2 ^ i mod 512 = n div 2 ^ i mod 512" for i
    unfolding split that ..
  have "m mod 2 ^ 12 = n mod 2 ^ 12"
    using assms(1,2) by simp
  then have "m mod 2 ^ 21 = n mod 2 ^ 21"
    using step [of 12] assms(3) by simp
  then have "m mod 2 ^ 30 = n mod 2 ^ 30"
    using step [of 21] assms(4) by simp
  then have "m mod 2 ^ 39 = n mod 2 ^ 39"
    using step [of 30] assms(5) by simp
  then show ?thesis
    using step [of 39] assms(6) by simp
qed

lemma canonical_mod:
  assumes "canonical a"
  shows "unat a mod 2 ^ 48 = (if unat a < 2 ^ 47 then unat a else unat a - (2 ^ 64 - 2 ^ 48))"
proof (cases "unat a < 2 ^ 47")
  case False
  define q where "q = unat a - (2 ^ 64 - 2 ^ 48)"
  have "unat a < 2 ^ 64"
    using unat_lt [of a] by simp
  with False assms have q: "q < 2 ^ 48" and a: "unat a = q + 65535 * 2 ^ 48"
    unfolding canonical_def q_def by simp_all
  have "unat a mod 2 ^ 48 = q"
    unfolding a mod_mult_self1 using q by (rule mod_less)
  with False show ?thesis by (simp add: q_def)
qed simp

lemma canonical_mod_inj:
  assumes "canonical a" and "canonical b" and "unat a mod 2 ^ 48 = unat b mod 2 ^ 48"
  shows "a = b"
proof (rule word_eq_unatI)
  show "unat a = unat b"
    using canonical_mod [OF assms(1)] canonical_mod [OF assms(2)] assms(3)
    by (cases "unat a < 2 ^ 47"; cases "unat b < 2 ^ 47")
       (use assms(1,2) in \<open>auto simp: canonical_def\<close>)
qed

lemma to_virtual_from_virtual:
  assumes "from_virtual pmo v = Return p" and "canonical (as_usize v)"
  shows "to_virtual pmo p = Return v" and "unat (as_u64 p) < 2 ^ 52"
proof -
  from assms(1) have p: "p = PhysAddr (as_usize v - as_usize pmo)" and le: "as_usize pmo \<le> as_usize v"
    and lt: "unat (as_usize v - as_usize pmo) < 2 ^ 52"
    by (auto simp: from_virtual_def sub_chk_def PhysAddr_new_eq split: if_splits)
  have "unat (as_usize pmo) + unat (as_u64 p) = unat (as_usize v)"
    using le by (simp add: p unat_sub_le word_le_nat_alt)
  then have "add_chk (as_usize pmo) (as_u64 p) = Return (as_usize v)"
    using unat_lt [of "as_usize v"] by (simp add: add_chk_def p)
  then show "to_virtual pmo p = Return v"
    using assms(2) by (simp add: to_virtual_def VirtAddr_new_eq)
  show "unat (as_u64 p) < 2 ^ 52"
    using lt by (simp add: p)
qed

lemma is_lower_half_p4:
  assumes "canonical (as_usize v)"
  shows "is_lower_half (p4_index v) \<longleftrightarrow> unat (as_usize v) < 2 ^ 47"
proof -
  obtain k where k: "unat (as_usize v) = k" by simp
  have "k < 2 ^ 64"
    using unat_lt [of "as_usize v"] by (simp add: k)
  have lh: "is_lower_half (p4_index v) \<longleftrightarrow> k div 2 ^ 39 mod 512 < 256"
    by (simp only: is_lower_half_def word_less_nat_alt p_index_values k) simp
  show ?thesis
  proof (cases "k < 2 ^ 47")
    case True
    then have "k div 2 ^ 39 < 256"
      by (simp add: div_less_iff_less_mult)
    with True show ?thesis
      unfolding lh k by (simp add: le_less_trans [OF mod_less_eq_dividend])
  next
    case False
    then have "2 ^ 64 - 2 ^ 47 \<le> k"
      using assms by (simp add: canonical_def k)
    then have "(2 ^ 64 - 2 ^ 47) div 2 ^ 39 \<le> k div 2 ^ 39"
      by (rule div_le_mono)
    moreover have "k div 2 ^ 39 < 2 ^ 25"
      using \<open>k < 2 ^ 64\<close> by (simp add: div_less_iff_less_mult)
    moreover obtain q where q: "k div 2 ^ 39 = q" by simp
    ultimately have bounds: "33554176 \<le> q" "q < 33554432" by simp_all
    define r where "r = q - 65535 * 512"
    have r: "q = r + 65535 * 512" "256 \<le> r" "r < 512"
      using bounds by (simp_all add: r_def)
    have "q mod 512 = r"
      unfolding r(1) mod_mult_self1 using r(3) by simp
    with r(2) False show ?thesis
      unfolding lh k q by simp
  qed
qed

lemma page_indices_inj:
  assumes "page_ok p" and "page_ok q"
    and "p1_index (page_base p) = p1_index (page_base q)" and "p2_index (page_base p) = p2_index (page_base q)"
    and "p3_index (page_base p) = p3_index (page_base q)" and "p4_index (page_base p) = p4_index (page_base q)"
  shows "p = q"
proof -
  have "unat (as_usize (page_base p)) mod 2 ^ 48 = unat (as_usize (page_base q)) mod 2 ^ 48"
    by (rule page_digits)
       (use assms in \<open>simp_all only: page_ok_def PAGE_SIZE_def word_mod_4096_iff p_index_values [symmetric]\<close>)
  then have "as_usize (page_base p) = as_usize (page_base q)"
    using assms(1,2) by (intro canonical_mod_inj) (simp_all add: page_ok_def)
  then show ?thesis
    by (simp add: VirtAddr.expand Page.expand)
qed

section \<open>Properties\<close>

text \<open>
  \<open>VirtAddr::try_new\<close> accepts exactly the canonical addresses, and it keeps their value.
\<close>

lemma virt_addr_accepts_canonical:
  "VirtAddr_try_new a = Ok v \<longleftrightarrow> canonical a \<and> v = VirtAddr a"
  by (auto simp: VirtAddr_try_new_eq)

text \<open>
  The four page table indices of its start address determine a page: distinct pages never
  share a leaf entry of a page table.
\<close>

lemma page_indices_determine_page:
  assumes "page_ok p" and "page_ok q"
    and "p1_index (page_base p) = p1_index (page_base q)" and "p2_index (page_base p) = p2_index (page_base q)"
    and "p3_index (page_base p) = p3_index (page_base q)" and "p4_index (page_base p) = p4_index (page_base q)"
  shows "p = q"
  by (rule page_indices_inj [OF assms])

text \<open>
  The conversions between a physical address and its address in the direct map are inverse
  to each other, in both directions.
\<close>

lemma direct_map_roundtrip:
  assumes "unat (as_u64 p) < 2 ^ 52" and "canonical (as_usize v)"
  shows "to_virtual pmo p = Return v \<longleftrightarrow> from_virtual pmo v = Return p"
  using assms from_virtual_to_virtual to_virtual_from_virtual(1) by blast

text \<open>
  \<open>Page::containing_address\<close> never panics on an address and gives the aligned page that
  contains it.
\<close>

lemma containing_page_contains:
  assumes "canonical (as_usize v)"
  shows "\<exists>p. Page_containing_address v = Return p \<and> page_ok p
    \<and> unat (as_usize (page_base p)) \<le> unat (as_usize v)
    \<and> unat (as_usize v) < unat (as_usize (page_base p)) + unat PAGE_SIZE"
proof -
  have "n div 4096 * 4096 \<le> n" and "n < n div 4096 * 4096 + 4096" for n :: nat
    using div_mult_mod_eq [of n 4096] mod_less_divisor [of 4096 n] by linarith+
  with Page_containing_address_eq [OF assms] show ?thesis
    by (fastforce simp: PAGE_SIZE_def)
qed

text \<open>
  \<open>RawFrame::within_frame\<close> keeps the offset of the address within its frame instead of the
  start of the frame: for every address from the second frame on, the address does not lie in the
  frame it returns.
\<close>

lemma within_frame_returns_the_offset:
  "RawFrame_within_frame a = Return (RawFrame (PhysAddr (as_u64 a mod 4096)))
   \<and> (4096 \<le> as_u64 a \<longrightarrow> as_u64 a mod 4096 + FRAME_SIZE \<le> as_u64 a)"
proof -
  obtain k where k: "unat (as_u64 a) = k" by simp
  have "k mod 4096 < 4096"
    by simp
  then have u: "unat (as_u64 a mod 4096) = k mod 4096"
    "unat (as_u64 a mod 4096 + 4096) = k mod 4096 + 4096"
    by (simp_all add: unat_word_ariths unat_mod k)
  have "k mod 4096 + 4096 \<le> k" if "4096 \<le> k"
    using that div_mult_mod_eq [of k 4096] div_greater_zero_iff [of k 4096] by linarith
  moreover have "k mod 4096 < 2 ^ 52"
    by (rule less_trans [OF \<open>k mod 4096 < 4096\<close>]) simp
  ultimately show ?thesis
    by (simp add: RawFrame_within_frame_def FRAME_SIZE_def PhysAddr_new_eq word_le_nat_alt u k)
qed

end
