(* ===== verification/Cells.thy ===== *)
theory Cells
  imports Prelude
begin

text \<open>
  The cells of the \<open>sync\<close> crate as seen by one thread of execution: \<open>AtomicOnceCell\<close>,
  \<open>AtomicLazyCell\<close>, \<open>AtomicCell\<close> and \<open>AtomicRefCell\<close> (\<open>sync/src/cell\<close>). Each cell is a
  record of the fields of the Rust struct, and each method is a function on it. The kernel is
  not preemptive and runs on one core (\<open>core_local.rs\<close>), so these are the semantics the
  kernel's statics and capability slots have.

  A cell read that the code declares safe by an invariant (reading the uninitialised part
  of a once cell) is \<open>BadDeref\<close> where that invariant fails.
\<close>

section \<open>AtomicOnceCell\<close>

record 'a AtomicOnceCell =
  once_value :: "'a option"
  once_init :: u8

datatype OnceError = Initializing | AlreadyInit

definition OnceCell_new :: "'a AtomicOnceCell" where
  "OnceCell_new = \<lparr>once_value = None, once_init = 0\<rparr>"

definition OnceCell_set_with ::
    "(unit \<Rightarrow> 'a run) \<Rightarrow> 'a AtomicOnceCell \<Rightarrow> ((unit, OnceError) result \<times> 'a AtomicOnceCell) run" where
  "OnceCell_set_with fn c = (case compare_exchange 0 1 (once_init c) of
     (Ok _, i) \<Rightarrow> bindR (fn ()) (\<lambda>v.
        let c = c\<lparr>once_init := i, once_value := Some v\<rparr> in Return (Ok (), c\<lparr>once_init := 2\<rparr>))
   | (Err e, i) \<Rightarrow>
       if e = 1 then Return (Err Initializing, c)
       else if e = 2 then Return (Err AlreadyInit, c)
       else Panic ExplicitPanic)"

definition OnceCell_set ::
    "'a \<Rightarrow> 'a AtomicOnceCell \<Rightarrow> ((unit, OnceError) result \<times> 'a AtomicOnceCell) run" where
  "OnceCell_set v c = OnceCell_set_with (\<lambda>_. Return v) c"

definition OnceCell_get_unchecked :: "'a AtomicOnceCell \<Rightarrow> 'a run" where
  "OnceCell_get_unchecked c = (case once_value c of Some v \<Rightarrow> Return v | None \<Rightarrow> Panic BadDeref)"

definition OnceCell_get :: "'a AtomicOnceCell \<Rightarrow> 'a option run" where
  "OnceCell_get c =
     (if once_init c = 2 then bindR (OnceCell_get_unchecked c) (\<lambda>v. Return (Some v)) else Return None)"

text \<open>An exclusive reference to the value is the value; what is written through it is the caller's update of the cell.\<close>

definition OnceCell_get_mut_unchecked :: "'a AtomicOnceCell \<Rightarrow> 'a run" where
  "OnceCell_get_mut_unchecked c = (case once_value c of Some v \<Rightarrow> Return v | None \<Rightarrow> Panic BadDeref)"

definition OnceCell_get_mut :: "'a AtomicOnceCell \<Rightarrow> 'a option run" where
  "OnceCell_get_mut c =
     (if once_init c = 2 then bindR (OnceCell_get_mut_unchecked c) (\<lambda>v. Return (Some v)) else Return None)"

text \<open>
  A cell at rest is either fresh or holds a value and is marked initialised; state 1 occurs
  only while the initialiser runs.
\<close>

definition once_ok :: "'a AtomicOnceCell \<Rightarrow> bool" where
  "once_ok c \<longleftrightarrow> (once_init c = 0 \<and> once_value c = None) \<or> (once_init c = 2 \<and> once_value c \<noteq> None)"

lemma once_ok_new [simp]: "once_ok OnceCell_new"
  by (simp add: once_ok_def OnceCell_new_def)

lemma OnceCell_get_eq: "once_ok c \<Longrightarrow> OnceCell_get c = Return (once_value c)"
  by (auto simp: once_ok_def OnceCell_get_def OnceCell_get_unchecked_def)

lemma OnceCell_set_with_eq:
  assumes "once_ok c"
  shows "OnceCell_set_with fn c = (case once_value c of
     None \<Rightarrow> bindR (fn ()) (\<lambda>v. Return (Ok (), \<lparr>once_value = Some v, once_init = 2\<rparr>))
   | Some _ \<Rightarrow> Return (Err AlreadyInit, c))"
  using assms
  by (cases c) (auto simp: once_ok_def OnceCell_set_with_def compare_exchange_def)

lemma OnceCell_set_eq:
  assumes "once_ok c"
  shows "OnceCell_set v c = Return (case once_value c of
     None \<Rightarrow> (Ok (), \<lparr>once_value = Some v, once_init = 2\<rparr>) | Some _ \<Rightarrow> (Err AlreadyInit, c))"
  by (auto simp: OnceCell_set_def OnceCell_set_with_eq [OF assms] split: option.splits)

section \<open>AtomicLazyCell\<close>

record 'a AtomicLazyCell =
  lazy_inner :: "'a AtomicOnceCell"
  lazy_fun :: "(unit \<Rightarrow> 'a run) option"

definition LazyCell_new :: "(unit \<Rightarrow> 'a run) \<Rightarrow> 'a AtomicLazyCell" where
  "LazyCell_new f = \<lparr>lazy_inner = OnceCell_new, lazy_fun = Some f\<rparr>"

text \<open>
  \<open>get\<close> tries to initialise the inner cell with the stored closure (which it takes out of its
  \<open>Cell\<close>) and then spins until the inner cell holds a value. Seen from one thread the loop
  ends at once or never.
\<close>

definition LazyCell_get :: "'a AtomicLazyCell \<Rightarrow> ('a \<times> 'a AtomicLazyCell) run" where
  "LazyCell_get c =
     bindR (OnceCell_set_with (\<lambda>_. case lazy_fun c of
         Some f \<Rightarrow> f () | None \<Rightarrow> Panic ExplicitPanic) (lazy_inner c)) (\<lambda>(r, inner).
     let c = c\<lparr>lazy_inner := inner,
               lazy_fun := (case r of Ok _ \<Rightarrow> None | Err _ \<Rightarrow> lazy_fun c)\<rparr> in
     bindR (OnceCell_get inner) (\<lambda>v. case v of
       Some x \<Rightarrow> Return (x, c)
     | None \<Rightarrow> Panic Diverges))"

definition LazyCell_get_mut :: "'a AtomicLazyCell \<Rightarrow> ('a \<times> 'a AtomicLazyCell) run" where
  "LazyCell_get_mut c =
     bindR (OnceCell_set_with (\<lambda>_. case lazy_fun c of
         Some f \<Rightarrow> f () | None \<Rightarrow> Panic ExplicitPanic) (lazy_inner c)) (\<lambda>(r, inner).
     let c = c\<lparr>lazy_inner := inner,
               lazy_fun := (case r of Ok _ \<Rightarrow> None | Err _ \<Rightarrow> lazy_fun c)\<rparr> in
     bindR (OnceCell_get_mut inner) (\<lambda>v. case v of
       Some x \<Rightarrow> Return (x, c)
     | None \<Rightarrow> Panic ExplicitPanic))"

lemma LazyCell_get_mut_eq:
  assumes "once_ok (lazy_inner c)"
  shows "LazyCell_get_mut c = LazyCell_get c"
proof -
  have "OnceCell_get_mut x = OnceCell_get x" for x :: "'a AtomicOnceCell"
    by (simp add: OnceCell_get_mut_def OnceCell_get_def OnceCell_get_mut_unchecked_def OnceCell_get_unchecked_def)
  then show ?thesis
    using assms unfolding LazyCell_get_mut_def LazyCell_get_def
    by (cases "lazy_fun c"; cases "once_value (lazy_inner c)")
       (auto simp: OnceCell_set_with_eq OnceCell_get_def OnceCell_get_unchecked_def once_ok_def run_simps)
qed

section \<open>AtomicCell\<close>

record 'a AtomicCell =
  cell_value :: 'a
  locked :: bool

definition AtomicCell_new :: "'a \<Rightarrow> 'a AtomicCell" where
  "AtomicCell_new v = \<lparr>cell_value = v, locked = False\<rparr>"

text \<open>The spin loop of \<open>lock\<close> never ends on a cell that is locked and that nobody unlocks.\<close>

definition AtomicCell_lock :: "'a AtomicCell \<Rightarrow> 'a AtomicCell run" where
  "AtomicCell_lock c = (if locked c then Panic Diverges else Return (c\<lparr>locked := True\<rparr>))"

definition AtomicCell_unlock :: "'a AtomicCell \<Rightarrow> 'a AtomicCell" where
  "AtomicCell_unlock c = c\<lparr>locked := False\<rparr>"

text \<open>
  The closure gets exclusive access to the value; it may have effects outside the cell, so
  it is a computation that returns its result and the value it leaves.
\<close>

definition AtomicCell_spin_lock ::
    "('a \<Rightarrow> ('u \<times> 'a) run) \<Rightarrow> 'a AtomicCell \<Rightarrow> ('u \<times> 'a AtomicCell) run" where
  "AtomicCell_spin_lock fn c =
     bindR (AtomicCell_lock c) (\<lambda>c.
     bindR (fn (cell_value c)) (\<lambda>(out, v).
     Return (out, AtomicCell_unlock (c\<lparr>cell_value := v\<rparr>))))"

definition AtomicCell_set :: "'a \<Rightarrow> 'a AtomicCell \<Rightarrow> (unit \<times> 'a AtomicCell) run" where
  "AtomicCell_set v c = AtomicCell_spin_lock (\<lambda>_. Return ((), v)) c"

definition AtomicCell_replace :: "'a \<Rightarrow> 'a AtomicCell \<Rightarrow> ('a \<times> 'a AtomicCell) run" where
  "AtomicCell_replace v c = AtomicCell_spin_lock (\<lambda>old. Return (old, v)) c"

definition AtomicCell_get :: "'a AtomicCell \<Rightarrow> ('a \<times> 'a AtomicCell) run" where
  "AtomicCell_get c = AtomicCell_spin_lock (\<lambda>v. Return (v, v)) c"

text \<open>
  \<open>get_cloned\<close> runs the value's \<open>clone\<close> under the lock. Cloning may touch other state (it
  increments reference counts), which \<open>clone_op\<close> threads through.
\<close>

definition AtomicCell_get_cloned ::
    "('a \<Rightarrow> 's \<Rightarrow> ('a \<times> 's) run) \<Rightarrow> 'a AtomicCell \<Rightarrow> 's \<Rightarrow> ('a \<times> 'a AtomicCell \<times> 's) run" where
  "AtomicCell_get_cloned clone_op c s =
     bindR (AtomicCell_spin_lock (\<lambda>v. bindR (clone_op v s) (\<lambda>(w, s'). Return ((w, s'), v))) c)
       (\<lambda>((w, s'), c'). Return (w, c', s'))"

lemma spin_lock_eq:
  assumes "\<not> locked c"
  shows "AtomicCell_spin_lock fn c =
    bindR (fn (cell_value c)) (\<lambda>(out, v). Return (out, \<lparr>cell_value = v, locked = False\<rparr>))"
  using assms
  by (cases c) (simp add: AtomicCell_spin_lock_def AtomicCell_lock_def AtomicCell_unlock_def)

lemma AtomicCell_set_eq: "\<not> locked c \<Longrightarrow> AtomicCell_set v c = Return ((), AtomicCell_new v)"
  by (simp add: AtomicCell_set_def spin_lock_eq AtomicCell_new_def)

lemma AtomicCell_replace_eq:
  "\<not> locked c \<Longrightarrow> AtomicCell_replace v c = Return (cell_value c, AtomicCell_new v)"
  by (simp add: AtomicCell_replace_def spin_lock_eq AtomicCell_new_def)

lemma AtomicCell_get_eq: "\<not> locked c \<Longrightarrow> AtomicCell_get c = Return (cell_value c, c)"
  by (cases c) (simp add: AtomicCell_get_def spin_lock_eq)

lemma AtomicCell_get_cloned_eq:
  assumes "\<not> locked c"
  shows "AtomicCell_get_cloned clone_op c s =
    bindR (clone_op (cell_value c) s) (\<lambda>(w, s'). Return (w, c, s'))"
proof (cases "clone_op (cell_value c) s")
  case (Return r)
  with assms show ?thesis
    by (cases c; cases r) (simp add: AtomicCell_get_cloned_def spin_lock_eq)
next
  case (Panic p)
  with assms show ?thesis
    by (simp add: AtomicCell_get_cloned_def spin_lock_eq)
qed

section \<open>AtomicRefCell\<close>

record 'a AtomicRefCell =
  ref_data :: 'a
  ref_state :: u8

datatype BorrowError = AlreadyBorrowed

definition FREE :: u8 where "FREE = 0"
definition BORROWED :: u8 where "BORROWED = 1"

definition AtomicRefCell_new :: "'a \<Rightarrow> 'a AtomicRefCell" where
  "AtomicRefCell_new v = \<lparr>ref_data = v, ref_state = FREE\<rparr>"

definition try_borrow :: "u8 \<Rightarrow> (unit, BorrowError) result \<times> u8" where
  "try_borrow st = (case compare_exchange FREE BORROWED st of
     (Ok _, st') \<Rightarrow> (Ok (), st') | (Err _, st') \<Rightarrow> (Err AlreadyBorrowed, st'))"

definition drop_borrow :: "u8 \<Rightarrow> u8 run" where
  "drop_borrow st = bindR (assert (st = BORROWED)) (\<lambda>_. Return FREE)"

text \<open>
  Both \<open>borrow\<close> and \<open>borrow_mut\<close> take the single exclusive borrow. Dropping the guard writes
  back what was done to the value through it and releases the borrow.
\<close>

definition RefCell_borrow :: "'a AtomicRefCell \<Rightarrow> ('a, BorrowError) result \<times> 'a AtomicRefCell" where
  "RefCell_borrow c = (case try_borrow (ref_state c) of
     (Ok _, st) \<Rightarrow> (Ok (ref_data c), c\<lparr>ref_state := st\<rparr>)
   | (Err e, st) \<Rightarrow> (Err e, c\<lparr>ref_state := st\<rparr>))"

definition RefCell_borrow_mut :: "'a AtomicRefCell \<Rightarrow> ('a, BorrowError) result \<times> 'a AtomicRefCell" where
  "RefCell_borrow_mut c = (case try_borrow (ref_state c) of
     (Ok _, st) \<Rightarrow> (Ok (ref_data c), c\<lparr>ref_state := st\<rparr>)
   | (Err e, st) \<Rightarrow> (Err e, c\<lparr>ref_state := st\<rparr>))"

definition RefCell_drop_guard :: "'a \<Rightarrow> 'a AtomicRefCell \<Rightarrow> 'a AtomicRefCell run" where
  "RefCell_drop_guard v c =
     bindR (drop_borrow (ref_state c)) (\<lambda>st. Return (c\<lparr>ref_data := v, ref_state := st\<rparr>))"

lemmas refcell_defs = AtomicRefCell_new_def try_borrow_def drop_borrow_def RefCell_borrow_def
  RefCell_borrow_mut_def RefCell_drop_guard_def compare_exchange_def FREE_def BORROWED_def

end
