(* ===== verification/Retype_Entry.thy ===== *)
theory Retype_Entry
  imports Prelude Paging Cells
begin

text \<open>
  The entries of the retype table (\<open>kernel/src/retyping.rs\<close>): one 16-bit word per physical
  frame that packs the frame's type (\<open>State\<close>, two bits) and its reference count (14 bits), and
  the atomic operations on it.

  \<open>state_of\<close> and \<open>count_of\<close> read an entry, \<open>mk_entry\<close> writes it; the section on packing shows
  that the code's \<open>value_into\<close> and \<open>value_for\<close> agree with them, and every operation is then
  characterised in these terms (the collection \<open>entry_simps\<close>).
\<close>

unbundle bit_operations_syntax

section \<open>Entries\<close>

datatype State = Unavailable | Untyped | User | Kernel

primrec state_u8 :: "State \<Rightarrow> u8" where
  "state_u8 Unavailable = 0"
| "state_u8 Untyped = 1"
| "state_u8 User = 2"
| "state_u8 Kernel = 3"

datatype Invalid = Invalid

definition State_try_from :: "u8 \<Rightarrow> (State, Invalid) result" where
  "State_try_from v =
     (if v = 0 then Ok Unavailable
      else if v = 1 then Ok Untyped
      else if v = 2 then Ok User
      else if v = 3 then Ok Kernel
      else Err Invalid)"

type_synonym RetypeEntry = u16

datatype MaxRefs = MaxRefs
datatype NoRefs = NoRefs

definition STATE_BITS :: u16 where "STATE_BITS = 2"
definition COUNTER_BITS :: u16 where "COUNTER_BITS = 16 - STATE_BITS"
definition MAX_REF_COUNT :: u16 where "MAX_REF_COUNT = push_bit (unat COUNTER_BITS) 1 - 1"

definition value_for :: "State \<Rightarrow> u16 \<Rightarrow> RetypeEntry run" where
  "value_for st counter =
     bindR (assert (counter \<le> MAX_REF_COUNT)) (\<lambda>_.
     add_chk (push_bit (unat COUNTER_BITS) (ucast (state_u8 st))) (counter mod MAX_REF_COUNT))"

definition value_into :: "RetypeEntry \<Rightarrow> (State \<times> u16) run" where
  "value_into v =
     (let counter = v AND (push_bit (unat COUNTER_BITS) 1 - 1)
      in case State_try_from (ucast (drop_bit (unat COUNTER_BITS) v)) of
           Ok st \<Rightarrow> Return (st, counter)
         | Err _ \<Rightarrow> Panic ExplicitPanic)"

definition entry_unavailable :: "RetypeEntry run" where
  "entry_unavailable = value_for Unavailable 0"

definition entry_untyped :: "RetypeEntry run" where
  "entry_untyped = value_for Untyped 0"

definition entry_kernel :: "u16 \<Rightarrow> RetypeEntry run" where
  "entry_kernel ref_count = value_for Kernel ref_count"

definition increment :: "RetypeEntry \<Rightarrow> ((u16, MaxRefs) result \<times> RetypeEntry) run" where
  "increment e =
     bindR (fetch_update (\<lambda>v. bindR (value_into v) (\<lambda>(_, counter).
        if counter = MAX_REF_COUNT then Return None
        else bindR (add_chk v 1) (\<lambda>v'. Return (Some v')))) e)
     (\<lambda>(r, e'). case r of
        Ok old \<Rightarrow> bindR (value_into old) (\<lambda>(_, c). Return (Ok c, e'))
      | Err _ \<Rightarrow> Return (Err MaxRefs, e'))"

definition decrement :: "RetypeEntry \<Rightarrow> ((u16, NoRefs) result \<times> RetypeEntry) run" where
  "decrement e =
     bindR (fetch_update (\<lambda>v. bindR (value_into v) (\<lambda>(_, counter).
        if counter = 0 then Return None
        else bindR (sub_chk v 1) (\<lambda>v'. Return (Some v')))) e)
     (\<lambda>(r, e'). case r of
        Ok old \<Rightarrow> bindR (value_into old) (\<lambda>(_, c). Return (Ok c, e'))
      | Err _ \<Rightarrow> Return (Err NoRefs, e'))"

definition entry_get :: "RetypeEntry \<Rightarrow> (State \<times> u16) run" where
  "entry_get e = value_into e"

definition get_as_and_increment ::
    "State \<Rightarrow> RetypeEntry \<Rightarrow> ((unit, State \<times> u16) result \<times> RetypeEntry) run" where
  "get_as_and_increment wants e =
     bindR (fetch_update (\<lambda>v. bindR (value_into v) (\<lambda>(st, count).
        if wants = st \<and> count < MAX_REF_COUNT
        then bindR (add_chk count 1) (\<lambda>c. bindR (value_for st c) (\<lambda>v'. Return (Some v')))
        else Return None)) e)
     (\<lambda>(r, e'). case r of
        Ok _ \<Rightarrow> Return (Ok (), e')
      | Err v \<Rightarrow> bindR (value_into v) (\<lambda>sc. Return (Err sc, e')))"

definition retype ::
    "State \<Rightarrow> State \<Rightarrow> u16 \<Rightarrow> u16 \<Rightarrow> RetypeEntry \<Rightarrow> ((unit, State \<times> u16) result \<times> RetypeEntry) run" where
  "retype from_state to_state from_counter to_counter e =
     bindR (value_for from_state from_counter) (\<lambda>from.
     bindR (value_for to_state to_counter) (\<lambda>to.
     (case compare_exchange from to e of
        (Ok _, e') \<Rightarrow> Return (Ok (), e')
      | (Err v, e') \<Rightarrow> bindR (value_into v) (\<lambda>sc. Return (Err sc, e')))))"

definition entry_set :: "State \<Rightarrow> u16 \<Rightarrow> RetypeEntry \<Rightarrow> RetypeEntry run" where
  "entry_set st v e = value_for st v"

section \<open>Packing\<close>

text \<open>The two fields of an entry, and the word that holds given fields.\<close>

definition state_code :: "State \<Rightarrow> nat" where
  "state_code st = unat (state_u8 st)"

definition count_of :: "RetypeEntry \<Rightarrow> nat" where
  "count_of e = unat e mod 2 ^ 14"

definition state_of :: "RetypeEntry \<Rightarrow> State" where
  "state_of e = (let k = unat e div 2 ^ 14 in
     if k = 0 then Unavailable else if k = 1 then Untyped else if k = 2 then User else Kernel)"

definition mk_entry :: "State \<Rightarrow> nat \<Rightarrow> RetypeEntry" where
  "mk_entry st n = of_nat (2 ^ 14 * state_code st + n)"

lemma state_code_simps [simp]:
  "state_code Unavailable = 0" "state_code Untyped = 1" "state_code User = 2" "state_code Kernel = 3"
  by (simp_all add: state_code_def)

lemma state_code_less [simp]: "state_code st < 4"
  by (cases st) simp_all

lemma COUNTER_BITS_eq [simp]: "unat COUNTER_BITS = 14"
  by (simp add: COUNTER_BITS_def STATE_BITS_def)

lemma MAX_REF_COUNT_eq: "MAX_REF_COUNT = 16383"
  by (simp add: MAX_REF_COUNT_def)

lemma count_of_less [simp]: "count_of e < 16384"
  by (simp add: count_of_def)

lemma count_of_mod [simp]: "count_of e mod 65536 = count_of e"
  by (rule mod_less, rule less_trans [OF count_of_less]) simp

lemma count_below_max: "count_of e < 16383 \<longleftrightarrow> count_of e \<noteq> 16383"
  using less_Suc_eq [of "count_of e" 16383] by auto

lemma unat_mk_entry: "n < 2 ^ 14 \<Longrightarrow> unat (mk_entry st n) = 2 ^ 14 * state_code st + n"
  unfolding mk_entry_def by (subst unat_of_nat) (cases st; simp)

lemma unat_entry: "unat e = 2 ^ 14 * state_code (state_of e) + count_of e"
proof -
  have "unat e < 2 ^ 16"
    using unat_lt [of e] by simp
  then have "unat e div 2 ^ 14 < 4"
    by (simp add: less_mult_imp_div_less)
  then have "state_code (state_of e) = unat e div 2 ^ 14"
    by (auto simp: state_of_def Let_def)
  then show ?thesis
    by (simp add: count_of_def)
qed

lemma entry_eqI: "state_of e = state_of f \<Longrightarrow> count_of e = count_of f \<Longrightarrow> e = f"
  by (rule word_eq_unatI) (simp add: unat_entry)

lemma state_of_mk_entry [simp]: "n < 2 ^ 14 \<Longrightarrow> state_of (mk_entry st n) = st"
proof -
  assume "n < 2 ^ 14"
  then have "unat (mk_entry st n) div 2 ^ 14 = state_code st"
    by (simp only: unat_mk_entry div_mult_self4) simp
  then show "state_of (mk_entry st n) = st"
    by (cases st) (simp_all add: state_of_def)
qed

lemma count_of_mk_entry [simp]: "n < 2 ^ 14 \<Longrightarrow> count_of (mk_entry st n) = n"
  by (simp add: count_of_def unat_mk_entry)

lemma mk_entry_eq_iff:
  "n < 2 ^ 14 \<Longrightarrow> mk_entry st n = e \<longleftrightarrow> state_of e = st \<and> count_of e = n"
  by (auto intro: entry_eqI)

lemma mk_entry_fields [simp]: "mk_entry (state_of e) (count_of e) = e"
  by (simp add: mk_entry_eq_iff)

lemma value_into_eq [entry_simps]: "value_into e = Return (state_of e, of_nat (count_of e))"
proof -
  have c: "e AND 16383 = of_nat (count_of e)"
  proof (rule word_eq_unatI)
    have "e AND 16383 = take_bit 14 e"
      by (simp add: take_bit_eq_mask mask_eq_exp_minus_1)
    then show "unat (e AND 16383) = unat (of_nat (count_of e) :: u16)"
      by (simp add: count_of_def unsigned_take_bit_eq take_bit_eq_mod unat_of_nat unat_mod)
  qed
  have "unat (drop_bit 14 e) = state_code (state_of e)"
    by (subst unat_drop_bit) (subst unat_entry, simp)
  then have "ucast (drop_bit 14 e) = state_u8 (state_of e)"
    by (intro word_eq_unatI) (cases "state_of e"; simp add: unsigned_ucast_eq take_bit_eq_mod)
  then have "State_try_from (ucast (drop_bit 14 e)) = Ok (state_of e)"
    by (cases "state_of e") (simp_all add: State_try_from_def)
  with c show ?thesis
    by (simp add: value_into_def)
qed

lemma value_for_eq [entry_simps]:
  "value_for st c =
     (if unat c \<le> 16383 then Return (mk_entry st (unat c mod 16383)) else Panic AssertFailed)"
proof (cases "unat c \<le> 16383")
  case True
  let ?s = "push_bit 14 (ucast (state_u8 st)) :: u16" and ?c = "c mod 16383"
  have s: "unat ?s = 2 ^ 14 * state_code st"
    by (cases st) (simp_all)
  have c: "unat ?c = unat c mod 16383"
    by (simp add: unat_mod)
  have "unat c mod 16383 < 16383" by simp
  then have u: "unat (mk_entry st (unat c mod 16383)) = unat ?s + unat ?c"
    by (simp add: s c unat_mk_entry)
  then have "add_chk ?s ?c = Return (mk_entry st (unat c mod 16383))"
    by (simp only: add_chk_eq_Return)
  with True show ?thesis
    by (simp add: value_for_def MAX_REF_COUNT_eq word_le_nat_alt)
qed (simp add: value_for_def MAX_REF_COUNT_eq word_le_nat_alt)

lemma of_nat_count_eq_iff: "k < 2 ^ 16 \<Longrightarrow> (of_nat (count_of e) :: u16) = of_nat k \<longleftrightarrow> count_of e = k"
  by (simp add: word_unat_eq_iff unat_of_nat)

lemma unat_of_nat_count [simp]: "unat (of_nat (count_of e) :: u16) = count_of e"
  by (simp add: unat_of_nat)

lemma entry_plus_1:
  assumes "count_of e < 16383"
  shows "add_chk e 1 = Return (mk_entry (state_of e) (Suc (count_of e)))"
  using assms by (simp add: add_chk_eq_Return unat_mk_entry unat_entry [of e])

lemma entry_minus_1:
  assumes "0 < count_of e"
  shows "sub_chk e 1 = Return (mk_entry (state_of e) (count_of e - 1))"
proof -
  have le: "1 \<le> e"
    using assms unat_entry [of e] by (simp add: word_le_nat_alt)
  have "e - 1 = mk_entry (state_of e) (count_of e - 1)"
  proof (rule word_eq_unatI)
    show "unat (e - 1) = unat (mk_entry (state_of e) (count_of e - 1))"
      using assms unat_sub_le [OF le] less_imp_diff_less [OF count_of_less, of e 1]
      by (simp add: unat_mk_entry unat_entry [of e])
  qed
  with le show ?thesis by (simp add: sub_chk_def)
qed

lemma increment_eq [entry_simps]:
  "increment e = Return (if count_of e = 16383 then (Err MaxRefs, e)
     else (Ok (of_nat (count_of e)), mk_entry (state_of e) (Suc (count_of e))))"
proof (cases "count_of e = 16383")
  case True
  then show ?thesis
    by (simp add: increment_def fetch_update_def value_into_eq MAX_REF_COUNT_eq)
next
  case False
  then have "count_of e < 16383"
    by (simp add: count_below_max)
  with False show ?thesis
    using of_nat_count_eq_iff [of 16383 e]
    by (simp add: increment_def fetch_update_def value_into_eq MAX_REF_COUNT_eq entry_plus_1)
qed

lemma decrement_eq [entry_simps]:
  "decrement e = Return (if count_of e = 0 then (Err NoRefs, e)
     else (Ok (of_nat (count_of e)), mk_entry (state_of e) (count_of e - 1)))"
  using of_nat_count_eq_iff [of 0 e]
  by (simp add: decrement_def fetch_update_def value_into_eq entry_minus_1)

text \<open>
  \<open>get_as_and_increment\<close> writes the new count through \<open>value_for\<close>, which reduces it modulo
  \<open>MAX_REF_COUNT\<close>: the increment from 16382 stores 0.
\<close>

lemma get_as_and_increment_eq [entry_simps]:
  "get_as_and_increment wants e = Return
     (if state_of e = wants \<and> count_of e < 16383
      then (Ok (), mk_entry wants (Suc (count_of e) mod 16383))
      else (Err (state_of e, of_nat (count_of e)), e))"
proof (cases "state_of e = wants \<and> count_of e < 16383")
  case True
  then have "add_chk (of_nat (count_of e)) (1 :: u16) = Return (of_nat (Suc (count_of e)))"
    by (simp add: add_chk_eq_Return unat_of_nat del: of_nat_Suc)
  with True show ?thesis
    by (simp add: get_as_and_increment_def fetch_update_def value_into_eq value_for_eq
        MAX_REF_COUNT_eq word_less_nat_alt unat_of_nat del: of_nat_Suc)
next
  case False
  then show ?thesis
    by (auto simp: get_as_and_increment_def fetch_update_def value_into_eq
        MAX_REF_COUNT_eq word_less_nat_alt)
qed

lemma retype_eq [entry_simps]:
  assumes "unat fc < 16383" and "unat tc < 16383"
  shows "retype from to fc tc e = Return
    (if state_of e = from \<and> count_of e = unat fc then (Ok (), mk_entry to (unat tc))
     else (Err (state_of e, of_nat (count_of e)), e))"
  using assms mk_entry_eq_iff [of "unat fc" "from" e]
  by (auto simp: retype_def value_for_eq compare_exchange_def value_into_eq)

end
