(* ===== verification/Retyping.thy ===== *)
theory Retyping
  imports Prelude Paging Cells Retype_Entry
begin

text \<open>
  The global retype table and the frame operations on it (\<open>kernel/src/retyping.rs\<close>): the
  operations of \<open>RawFrame\<close> that look at or change a frame's type, and the reference-counted
  handles \<open>UserFrame\<close> and \<open>KernelFrame\<close>.

  The static \<open>RETYPE_TABLE\<close> is a once cell that the operations take and return. A reference
  to an entry (\<open>&'static RetypeEntry\<close>) is the index of the entry; \<open>on_entry\<close> runs an atomic
  operation on it. For an initialised table (\<open>rt_ok\<close>) the lemmas \<open>..._eq\<close> give the result of
  every operation on every branch in terms of \<open>entry\<close> and \<open>set_entry\<close>.
\<close>

section \<open>Definitions\<close>

record RetypeTable =
  retype_map :: "RetypeEntry list"

type_synonym retype_global = "RetypeTable AtomicOnceCell"

datatype OutOfBounds = OutOfBounds
datatype RetypeError = InvalidFromState State | RefsExist u16 | RetypeOutOfBounds
datatype AsTypeError = NotExpectedState State | AsTypeMaxRefs | AsTypeOutOfBounds

datatype UserFrame = UserFrame (user_raw: RawFrame)
datatype KernelFrame = KernelFrame (kernel_raw: RawFrame)

definition the_table :: "retype_global \<Rightarrow> RetypeTable run" where
  "the_table g = bindR (OnceCell_get g) unwrap"

definition on_entry ::
    "(RetypeEntry \<Rightarrow> ('r \<times> RetypeEntry) run) \<Rightarrow> nat \<Rightarrow> retype_global \<Rightarrow> ('r \<times> retype_global) run" where
  "on_entry op i g = bindR (the_table g) (\<lambda>t.
     bindR (op (retype_map t ! i)) (\<lambda>(r, e).
     Return (r, g\<lparr>once_value := Some (t\<lparr>retype_map := (retype_map t)[i := e]\<rparr>)\<rparr>)))"

subsection \<open>RawFrame\<close>

definition memory_limit :: "retype_global \<Rightarrow> usize run" where
  "memory_limit g = bindR (the_table g) (\<lambda>t.
     mul_chk (of_nat (length (retype_map t))) FRAME_SIZE)"

definition retype_entry :: "RawFrame \<Rightarrow> retype_global \<Rightarrow> (nat, OutOfBounds) result run" where
  "retype_entry f g =
     (let index = as_u64 (RawFrame_addr f) div FRAME_SIZE in
      bindR (the_table g) (\<lambda>t. case get_at (retype_map t) index of
        Some _ \<Rightarrow> Return (Ok (unat index))
      | None \<Rightarrow> Return (Err OutOfBounds)))"

definition try_as_user ::
    "RawFrame \<Rightarrow> retype_global \<Rightarrow> ((UserFrame, AsTypeError) result \<times> retype_global) run" where
  "try_as_user f g = bindR (retype_entry f g) (\<lambda>r. case r of
     Err _ \<Rightarrow> Return (Err AsTypeOutOfBounds, g)
   | Ok i \<Rightarrow> bindR (on_entry (get_as_and_increment User) i g) (\<lambda>(r, g). case r of
       Ok _ \<Rightarrow> Return (Ok (UserFrame f), g)
     | Err (st, v) \<Rightarrow>
         if st \<noteq> User then Return (Err (NotExpectedState st), g)
         else bindR (assert (v = MAX_REF_COUNT)) (\<lambda>_. Return (Err AsTypeMaxRefs, g))))"

definition as_user_unchecked :: "RawFrame \<Rightarrow> retype_global \<Rightarrow> (UserFrame \<times> retype_global) run" where
  "as_user_unchecked f g = bindR (retype_entry f g) (\<lambda>r. case r of
     Err _ \<Rightarrow> Panic BadDeref
   | Ok i \<Rightarrow> bindR (on_entry increment i g) (\<lambda>(r, g).
       bindR (unwrap_ok r) (\<lambda>_. Return (UserFrame f, g))))"

definition try_as_kernel ::
    "RawFrame \<Rightarrow> retype_global \<Rightarrow> ((KernelFrame, AsTypeError) result \<times> retype_global) run" where
  "try_as_kernel f g = bindR (retype_entry f g) (\<lambda>r. case r of
     Err _ \<Rightarrow> Return (Err AsTypeOutOfBounds, g)
   | Ok i \<Rightarrow> bindR (on_entry (get_as_and_increment Kernel) i g) (\<lambda>(r, g). case r of
       Ok _ \<Rightarrow> Return (Ok (KernelFrame f), g)
     | Err (st, v) \<Rightarrow>
         if st \<noteq> Kernel then Return (Err (NotExpectedState st), g)
         else bindR (assert (v = MAX_REF_COUNT)) (\<lambda>_. Return (Err AsTypeMaxRefs, g))))"

definition try_as_untyped ::
    "RawFrame \<Rightarrow> retype_global \<Rightarrow> ((RawFrame, AsTypeError) result \<times> retype_global) run" where
  "try_as_untyped f g = bindR (retype_entry f g) (\<lambda>r. case r of
     Err _ \<Rightarrow> Return (Err AsTypeOutOfBounds, g)
   | Ok i \<Rightarrow> bindR (on_entry (\<lambda>e. bindR (entry_get e) (\<lambda>sc. Return (sc, e))) i g) (\<lambda>((st, _), g).
       if st \<noteq> Untyped then Return (Err (NotExpectedState st), g)
       else Return (Ok f, g)))"

definition as_kernel_unchecked :: "RawFrame \<Rightarrow> retype_global \<Rightarrow> (KernelFrame \<times> retype_global) run" where
  "as_kernel_unchecked f g = bindR (retype_entry f g) (\<lambda>r. case r of
     Err _ \<Rightarrow> Panic BadDeref
   | Ok i \<Rightarrow> bindR (on_entry increment i g) (\<lambda>(r, g).
       bindR (unwrap_ok r) (\<lambda>_. Return (KernelFrame f, g))))"

definition try_into_user ::
    "RawFrame \<Rightarrow> retype_global \<Rightarrow> ((UserFrame, RetypeError) result \<times> retype_global) run" where
  "try_into_user f g = bindR (retype_entry f g) (\<lambda>r. case r of
     Err _ \<Rightarrow> Return (Err RetypeOutOfBounds, g)
   | Ok i \<Rightarrow> bindR (on_entry (retype Untyped User 0 1) i g) (\<lambda>(r, g). case r of
       Ok _ \<Rightarrow> Return (Ok (UserFrame f), g)
     | Err (st, _) \<Rightarrow> Return (Err (InvalidFromState st), g)))"

definition try_into_kernel ::
    "RawFrame \<Rightarrow> retype_global \<Rightarrow> ((KernelFrame, RetypeError) result \<times> retype_global) run" where
  "try_into_kernel f g = bindR (retype_entry f g) (\<lambda>r. case r of
     Err _ \<Rightarrow> Return (Err RetypeOutOfBounds, g)
   | Ok i \<Rightarrow> bindR (on_entry (retype Untyped Kernel 0 1) i g) (\<lambda>(r, g). case r of
       Ok _ \<Rightarrow> Return (Ok (KernelFrame f), g)
     | Err (st, _) \<Rightarrow> Return (Err (InvalidFromState st), g)))"

definition try_into_untyped_from ::
    "State \<Rightarrow> RawFrame \<Rightarrow> retype_global \<Rightarrow> ((RawFrame, RetypeError) result \<times> retype_global) run" where
  "try_into_untyped_from from f g =
     bindR (assert (from = User \<or> from = Kernel)) (\<lambda>_.
     bindR (retype_entry f g) (\<lambda>r. case r of
       Err _ \<Rightarrow> Return (Err RetypeOutOfBounds, g)
     | Ok i \<Rightarrow> bindR (on_entry (retype from Untyped 0 0) i g) (\<lambda>(r, g). case r of
         Ok _ \<Rightarrow> Return (Ok f, g)
       | Err (st, refs) \<Rightarrow>
           if st = Unavailable then
             bindR (assert (refs = 0)) (\<lambda>_. Return (Err (InvalidFromState Unavailable), g))
           else if st = from then
             bindR (assert (refs \<noteq> 0)) (\<lambda>_. Return (Err (RefsExist refs), g))
           else Return (Err (InvalidFromState st), g))))"

definition try_into_untyped ::
    "RawFrame \<Rightarrow> retype_global \<Rightarrow> ((RawFrame, RetypeError) result \<times> retype_global) run" where
  "try_into_untyped f g =
     bindR (try_into_untyped_from User f g) (\<lambda>(r, g). case r of
       Ok _ \<Rightarrow> Return (Ok f, g)
     | Err _ \<Rightarrow> bindR (try_into_untyped_from Kernel f g) (\<lambda>(r, g). case r of
         Err e \<Rightarrow> Return (Err e, g)
       | Ok _ \<Rightarrow> Return (Ok f, g)))"

subsection \<open>UserFrame and KernelFrame\<close>

text \<open>
  \<open>entry\<close> of a handle is \<open>unwrap_unchecked\<close>: undefined for a frame outside the table.
  The implementations of the trait \<open>Drop\<close> decrement the count once. The inherent methods
  \<open>drop(self)\<close> decrement it and return the previous count; \<open>self\<close> goes out of scope at their end,
  which runs the trait's \<open>drop\<close> as well.
\<close>

definition UserFrame_entry :: "UserFrame \<Rightarrow> retype_global \<Rightarrow> nat run" where
  "UserFrame_entry u g = bindR (retype_entry (user_raw u) g) (\<lambda>r. case r of
     Ok i \<Rightarrow> Return i | Err _ \<Rightarrow> Panic BadDeref)"

definition UserFrame_into_raw :: "UserFrame \<Rightarrow> RawFrame" where
  "UserFrame_into_raw u = user_raw u"

definition UserFrame_try_clone ::
    "UserFrame \<Rightarrow> retype_global \<Rightarrow> (UserFrame option \<times> retype_global) run" where
  "UserFrame_try_clone u g =
     bindR (bindR (retype_entry (user_raw u) g) unwrap_ok) (\<lambda>i.
     bindR (on_entry increment i g) (\<lambda>(r, g). case r of
       Err _ \<Rightarrow> Return (None, g)
     | Ok _ \<Rightarrow> Return (Some (UserFrame (user_raw u)), g)))"

definition UserFrame_Drop :: "UserFrame \<Rightarrow> retype_global \<Rightarrow> retype_global run" where
  "UserFrame_Drop u g = bindR (UserFrame_entry u g) (\<lambda>i.
     bindR (on_entry decrement i g) (\<lambda>(r, g). bindR (unwrap_ok r) (\<lambda>_. Return g)))"

definition UserFrame_drop :: "UserFrame \<Rightarrow> retype_global \<Rightarrow> (u16 \<times> retype_global) run" where
  "UserFrame_drop u g = bindR (UserFrame_entry u g) (\<lambda>i.
     bindR (on_entry decrement i g) (\<lambda>(r, g).
     bindR (unwrap_ok r) (\<lambda>c.
     bindR (UserFrame_Drop u g) (\<lambda>g. Return (c, g)))))"

definition KernelFrame_entry :: "KernelFrame \<Rightarrow> retype_global \<Rightarrow> nat run" where
  "KernelFrame_entry k g = bindR (retype_entry (kernel_raw k) g) (\<lambda>r. case r of
     Ok i \<Rightarrow> Return i | Err _ \<Rightarrow> Panic BadDeref)"

definition KernelFrame_into_raw :: "KernelFrame \<Rightarrow> RawFrame" where
  "KernelFrame_into_raw k = kernel_raw k"

definition KernelFrame_from_raw :: "RawFrame \<Rightarrow> KernelFrame" where
  "KernelFrame_from_raw f = KernelFrame f"

definition KernelFrame_try_clone ::
    "KernelFrame \<Rightarrow> retype_global \<Rightarrow> (KernelFrame option \<times> retype_global) run" where
  "KernelFrame_try_clone k g =
     bindR (bindR (retype_entry (kernel_raw k) g) unwrap_ok) (\<lambda>i.
     bindR (on_entry increment i g) (\<lambda>(r, g). case r of
       Err _ \<Rightarrow> Return (None, g)
     | Ok _ \<Rightarrow> Return (Some (KernelFrame (kernel_raw k)), g)))"

definition KernelFrame_Drop :: "KernelFrame \<Rightarrow> retype_global \<Rightarrow> retype_global run" where
  "KernelFrame_Drop k g = bindR (KernelFrame_entry k g) (\<lambda>i.
     bindR (on_entry decrement i g) (\<lambda>(r, g). bindR (unwrap_ok r) (\<lambda>_. Return g)))"

definition KernelFrame_drop :: "KernelFrame \<Rightarrow> retype_global \<Rightarrow> (u16 \<times> retype_global) run" where
  "KernelFrame_drop k g = bindR (KernelFrame_entry k g) (\<lambda>i.
     bindR (on_entry decrement i g) (\<lambda>(r, g).
     bindR (unwrap_ok r) (\<lambda>c.
     bindR (KernelFrame_Drop k g) (\<lambda>g. Return (c, g)))))"

subsection \<open>Installing the table\<close>

text \<open>The frame of the active top-level page table, from the value of \<open>cr3\<close>.\<close>

definition current_raw :: "u64 \<Rightarrow> RawFrame run" where
  "current_raw cr3 = bindR (PhysAddr_new cr3) RawFrame_from_start_address"

text \<open>
  \<open>init\<close> installs the table, then types the active page table as a kernel frame; the
  \<open>KernelFrame\<close> it gets is a temporary that is dropped at the end of the statement.
\<close>

definition RetypeTable_init ::
    "u64 \<Rightarrow> RetypeTable \<Rightarrow> retype_global \<Rightarrow> ((unit, OnceError) result \<times> retype_global) run" where
  "RetypeTable_init cr3 t g =
     bindR (OnceCell_set t g) (\<lambda>(r, g). case r of
       Err e \<Rightarrow> Return (Err e, g)
     | Ok _ \<Rightarrow>
         bindR (current_raw cr3) (\<lambda>l4_table.
         bindR (try_as_kernel l4_table g) (\<lambda>(r, g).
         bindR (unwrap_ok r) (\<lambda>k.
         bindR (KernelFrame_Drop k g) (\<lambda>g.
         Return (Ok (), g))))))"

section \<open>The table of an initialised kernel\<close>

definition rt_ok :: "retype_global \<Rightarrow> bool" where
  "rt_ok g \<longleftrightarrow> once_init g = 2 \<and> once_value g \<noteq> None"

definition entries :: "retype_global \<Rightarrow> RetypeEntry list" where
  "entries g = (case once_value g of Some t \<Rightarrow> retype_map t | None \<Rightarrow> [])"

definition frame_idx :: "RawFrame \<Rightarrow> nat" where
  "frame_idx f = unat (as_u64 (frame_base f)) div 4096"

definition entry :: "retype_global \<Rightarrow> RawFrame \<Rightarrow> RetypeEntry option" where
  "entry g f = (if frame_idx f < length (entries g) then Some (entries g ! frame_idx f) else None)"

definition set_entry :: "retype_global \<Rightarrow> RawFrame \<Rightarrow> RetypeEntry \<Rightarrow> retype_global" where
  "set_entry g f e = g\<lparr>once_value := Some \<lparr>retype_map = (entries g)[frame_idx f := e]\<rparr>\<rparr>"

lemma entries_set_entry [simp]: "entries (set_entry g f e) = (entries g)[frame_idx f := e]"
  by (simp add: entries_def set_entry_def)

lemma rt_ok_set_entry [simp]: "rt_ok g \<Longrightarrow> rt_ok (set_entry g f e)"
  by (simp add: rt_ok_def set_entry_def)

lemma set_entry_self: "rt_ok g \<Longrightarrow> entry g f = Some e \<Longrightarrow> set_entry g f e = g"
  by (cases g) (auto simp: set_entry_def entry_def entries_def rt_ok_def split: if_splits)

lemma set_entry_twice [simp]: "set_entry (set_entry g f e) f e' = set_entry g f e'"
  by (cases g) (simp add: set_entry_def entries_def)

text \<open>What a client of the table relies on: an entry reads back what was stored, frames with
  different numbers do not interfere, and updates keep the table initialised.\<close>

locale frame_table =
  fixes ok :: "'g \<Rightarrow> bool" and look :: "'g \<Rightarrow> 'f \<Rightarrow> 'e option" and put :: "'g \<Rightarrow> 'f \<Rightarrow> 'e \<Rightarrow> 'g"
    and number :: "'f \<Rightarrow> nat"
  assumes look_put: "look g f \<noteq> None \<Longrightarrow> look (put g f e) f' = (if number f' = number f then Some e else look g f')"
    and look_number: "number f = number f' \<Longrightarrow> look g f = look g f'"
    and put_self: "ok g \<Longrightarrow> look g f = Some e \<Longrightarrow> put g f e = g"
    and put_put: "put (put g f e) f e' = put g f e'"
    and ok_put: "ok g \<Longrightarrow> ok (put g f e)"
begin

lemma look_put_same: "look g f \<noteq> None \<Longrightarrow> look (put g f e) f = Some e"
  by (simp add: look_put)

lemma look_put_other: "look g f \<noteq> None \<Longrightarrow> number f' \<noteq> number f \<Longrightarrow> look (put g f e) f' = look g f'"
  by (simp add: look_put)

lemma look_put_None: "look g f \<noteq> None \<Longrightarrow> look (put g f e) f' = None \<longleftrightarrow> look g f' = None"
  using look_number [of f' f g] by (auto simp: look_put)

lemma put_restore: "ok g \<Longrightarrow> look g f = Some e \<Longrightarrow> put (put g f e') f e = g"
  by (simp add: put_put put_self)

end

interpretation rt: frame_table rt_ok entry set_entry frame_idx
proof unfold_locales
  fix g f e f'
  assume "entry g f \<noteq> None"
  then show "entry (set_entry g f e) f' = (if frame_idx f' = frame_idx f then Some e else entry g f')"
    by (auto simp: entry_def split: if_splits)
next
  fix f f' g
  assume "frame_idx f = frame_idx f'"
  then show "entry g f = entry g f'" by (simp add: entry_def)
next
  fix g f e
  assume "rt_ok g" and "entry g f = Some e"
  then show "set_entry g f e = g" by (rule set_entry_self)
qed simp_all

lemmas entry_set_entry = rt.look_put_same rt.look_put_other

lemma the_table_eq: "rt_ok g \<Longrightarrow> the_table g = Return \<lparr>retype_map = entries g\<rparr>"
  by (auto simp: the_table_def OnceCell_get_def OnceCell_get_unchecked_def rt_ok_def entries_def)

lemma unat_frame_index: "unat (as_u64 (RawFrame_addr f) div FRAME_SIZE) = frame_idx f"
  by (simp add: frame_idx_def RawFrame_addr_def FRAME_SIZE_def unat_div)

lemma retype_entry_eq [table_simps]:
  assumes "rt_ok g"
  shows "retype_entry f g = Return (case entry g f of Some _ \<Rightarrow> Ok (frame_idx f) | None \<Rightarrow> Err OutOfBounds)"
  by (simp add: retype_entry_def the_table_eq [OF assms] get_at_def unat_frame_index entry_def Let_def)

lemma on_entry_eq:
  assumes "rt_ok g" and "entry g f = Some e"
  shows "on_entry op (frame_idx f) g = bindR (op e) (\<lambda>(r, e'). Return (r, set_entry g f e'))"
  using assms
  by (auto simp: on_entry_def the_table_eq entry_def set_entry_def split: if_splits)

lemma memory_limit_eq:
  assumes "rt_ok g" and "length (entries g) < 2 ^ 52"
  shows "memory_limit g = Return (of_nat (4096 * length (entries g)))"
proof -
  have "unat (of_nat (4096 * length (entries g)) :: usize) = 4096 * length (entries g)"
    using assms(2) by (subst unat_of_nat) simp
  moreover have "unat (of_nat (length (entries g)) :: usize) = length (entries g)"
    using assms(2) by (subst unat_of_nat) simp
  ultimately show ?thesis
    by (simp add: memory_limit_def the_table_eq [OF assms(1)] mul_chk_eq_Return FRAME_SIZE_def)
qed

section \<open>The operations, branch by branch\<close>

lemma try_as_user_eq [table_simps]:
  assumes "rt_ok g"
  shows "try_as_user f g = Return (case entry g f of
     None \<Rightarrow> (Err AsTypeOutOfBounds, g)
   | Some e \<Rightarrow>
       if state_of e \<noteq> User then (Err (NotExpectedState (state_of e)), g)
       else if count_of e = 16383 then (Err AsTypeMaxRefs, g)
       else (Ok (UserFrame f), set_entry g f (mk_entry User (Suc (count_of e) mod 16383))))"
  using assms of_nat_count_eq_iff [of 16383]
  by (auto simp: try_as_user_def retype_entry_eq on_entry_eq get_as_and_increment_eq set_entry_self
      MAX_REF_COUNT_eq count_below_max split: option.splits)

lemma try_as_kernel_eq [table_simps]:
  assumes "rt_ok g"
  shows "try_as_kernel f g = Return (case entry g f of
     None \<Rightarrow> (Err AsTypeOutOfBounds, g)
   | Some e \<Rightarrow>
       if state_of e \<noteq> Kernel then (Err (NotExpectedState (state_of e)), g)
       else if count_of e = 16383 then (Err AsTypeMaxRefs, g)
       else (Ok (KernelFrame f), set_entry g f (mk_entry Kernel (Suc (count_of e) mod 16383))))"
  using assms of_nat_count_eq_iff [of 16383]
  by (auto simp: try_as_kernel_def retype_entry_eq on_entry_eq get_as_and_increment_eq set_entry_self
      MAX_REF_COUNT_eq count_below_max split: option.splits)

lemma try_as_untyped_eq [table_simps]:
  assumes "rt_ok g"
  shows "try_as_untyped f g = Return (case entry g f of
     None \<Rightarrow> (Err AsTypeOutOfBounds, g)
   | Some e \<Rightarrow> (if state_of e = Untyped then Ok f else Err (NotExpectedState (state_of e)), g))"
  using assms
  by (auto simp: try_as_untyped_def retype_entry_eq on_entry_eq entry_get_def value_into_eq
      set_entry_self split: option.splits)

lemma try_into_user_eq [table_simps]:
  assumes "rt_ok g"
  shows "try_into_user f g = Return (case entry g f of
     None \<Rightarrow> (Err RetypeOutOfBounds, g)
   | Some e \<Rightarrow>
       if state_of e = Untyped \<and> count_of e = 0 then (Ok (UserFrame f), set_entry g f (mk_entry User 1))
       else (Err (InvalidFromState (state_of e)), g))"
  using assms
  by (auto simp: try_into_user_def retype_entry_eq on_entry_eq retype_eq set_entry_self
      split: option.splits)

lemma try_into_kernel_eq [table_simps]:
  assumes "rt_ok g"
  shows "try_into_kernel f g = Return (case entry g f of
     None \<Rightarrow> (Err RetypeOutOfBounds, g)
   | Some e \<Rightarrow>
       if state_of e = Untyped \<and> count_of e = 0 then (Ok (KernelFrame f), set_entry g f (mk_entry Kernel 1))
       else (Err (InvalidFromState (state_of e)), g))"
  using assms
  by (auto simp: try_into_kernel_def retype_entry_eq on_entry_eq retype_eq set_entry_self
      split: option.splits)

lemma try_into_untyped_from_eq:
  assumes "rt_ok g" and "from = User \<or> from = Kernel"
  shows "try_into_untyped_from from f g = (case entry g f of
     None \<Rightarrow> Return (Err RetypeOutOfBounds, g)
   | Some e \<Rightarrow>
       if state_of e = from then
         if count_of e = 0 then Return (Ok f, set_entry g f (mk_entry Untyped 0))
         else Return (Err (RefsExist (of_nat (count_of e))), g)
       else if state_of e = Unavailable \<and> count_of e \<noteq> 0 then Panic AssertFailed
       else Return (Err (InvalidFromState (state_of e)), g))"
  using assms of_nat_count_eq_iff [of 0]
  by (auto simp: try_into_untyped_from_def retype_entry_eq on_entry_eq retype_eq set_entry_self
      split: option.splits)

lemma try_into_untyped_eq [table_simps]:
  assumes "rt_ok g"
  shows "try_into_untyped f g = (case entry g f of
     None \<Rightarrow> Return (Err RetypeOutOfBounds, g)
   | Some e \<Rightarrow>
       if (state_of e = User \<or> state_of e = Kernel) \<and> count_of e = 0
       then Return (Ok f, set_entry g f (mk_entry Untyped 0))
       else if state_of e = Kernel then Return (Err (RefsExist (of_nat (count_of e))), g)
       else if state_of e = Unavailable \<and> count_of e \<noteq> 0 then Panic AssertFailed
       else Return (Err (InvalidFromState (state_of e)), g))"
  using assms
  by (auto simp: try_into_untyped_def try_into_untyped_from_eq split: option.splits)

lemma as_kernel_unchecked_eq [table_simps]:
  assumes "rt_ok g"
  shows "as_kernel_unchecked f g = (case entry g f of
     None \<Rightarrow> Panic BadDeref
   | Some e \<Rightarrow> if count_of e = 16383 then Panic UnwrapErr
       else Return (KernelFrame f, set_entry g f (mk_entry (state_of e) (Suc (count_of e)))))"
  using assms
  by (auto simp: as_kernel_unchecked_def retype_entry_eq on_entry_eq increment_eq split: option.splits)

lemma as_user_unchecked_eq [table_simps]:
  assumes "rt_ok g"
  shows "as_user_unchecked f g = (case entry g f of
     None \<Rightarrow> Panic BadDeref
   | Some e \<Rightarrow> if count_of e = 16383 then Panic UnwrapErr
       else Return (UserFrame f, set_entry g f (mk_entry (state_of e) (Suc (count_of e)))))"
  using assms
  by (auto simp: as_user_unchecked_def retype_entry_eq on_entry_eq increment_eq split: option.splits)

section \<open>The contract of the handles\<close>

text \<open>
  \<open>UserFrame\<close> and \<open>KernelFrame\<close> share one contract: cloning adds a reference, dropping takes one
  away. The lemmas that follow from it are proved once and hold for both.
\<close>

locale frame_handle =
  fixes raw :: "'h \<Rightarrow> RawFrame"
    and clone :: "'h \<Rightarrow> retype_global \<Rightarrow> ('h option \<times> retype_global) run"
    and drop_one :: "'h \<Rightarrow> retype_global \<Rightarrow> retype_global run"
    and consume :: "'h \<Rightarrow> retype_global \<Rightarrow> (u16 \<times> retype_global) run"
  assumes clone_law: "rt_ok g \<Longrightarrow> entry g (raw h) = Some e \<Longrightarrow>
      clone h g = Return (if count_of e = 16383 then (None, g)
        else (Some h, set_entry g (raw h) (mk_entry (state_of e) (Suc (count_of e)))))"
    and drop_law: "rt_ok g \<Longrightarrow> entry g (raw h) = Some e \<Longrightarrow>
      drop_one h g = (if count_of e = 0 then Panic UnwrapErr
        else Return (set_entry g (raw h) (mk_entry (state_of e) (count_of e - 1))))"
    and consume_law: "rt_ok g \<Longrightarrow> entry g (raw h) = Some e \<Longrightarrow>
      consume h g = bindR (drop_one h g) (\<lambda>g. bindR (drop_one h g) (\<lambda>g. Return (of_nat (count_of e), g)))"
begin

lemma clone_then_drop:
  assumes "rt_ok g" and "entry g (raw h) = Some e" and "count_of e < 16383"
  shows "bindR (clone h g) (\<lambda>(h', g). bindR (unwrap h') (\<lambda>h'. drop_one h' g)) = Return g"
proof -
  let ?g = "set_entry g (raw h) (mk_entry (state_of e) (Suc (count_of e)))"
  have "entry ?g (raw h) = Some (mk_entry (state_of e) (Suc (count_of e)))"
    using assms(2) by (simp add: rt.look_put_same)
  then have "drop_one h ?g = Return g"
    using assms by (simp add: drop_law set_entry_self)
  with assms show ?thesis
    by (simp add: clone_law)
qed

lemma consume_eq:
  assumes "rt_ok g" and "entry g (raw h) = Some e"
  shows "consume h g = (if count_of e < 2 then Panic UnwrapErr
    else Return (of_nat (count_of e), set_entry g (raw h) (mk_entry (state_of e) (count_of e - 2))))"
proof (cases "count_of e = 0")
  case True
  with assms show ?thesis by (simp add: consume_law drop_law)
next
  case False
  let ?e = "mk_entry (state_of e) (count_of e - 1)"
  let ?g = "set_entry g (raw h) ?e"
  have c: "count_of e - 1 < 2 ^ 14" and c': "count_of e - 2 < 2 ^ 14"
    using less_imp_diff_less [OF count_of_less] by simp_all
  have "entry ?g (raw h) = Some ?e"
    using assms(2) by (simp add: rt.look_put_same)
  then have "drop_one h ?g = (if count_of e = 1 then Panic UnwrapErr
      else Return (set_entry g (raw h) (mk_entry (state_of e) (count_of e - 2))))"
    using assms False c by (auto simp: drop_law numeral_2_eq_2)
  with assms False show ?thesis
    by (auto simp: consume_law drop_law)
qed

end

interpretation uf: frame_handle user_raw UserFrame_try_clone UserFrame_Drop UserFrame_drop
proof unfold_locales
  fix g h e
  assume g: "rt_ok g" "entry g (user_raw h) = Some e"
  show "UserFrame_try_clone h g = Return (if count_of e = 16383 then (None, g)
      else (Some h, set_entry g (user_raw h) (mk_entry (state_of e) (Suc (count_of e)))))"
    using g by (simp add: UserFrame_try_clone_def retype_entry_eq on_entry_eq increment_eq set_entry_self)
  show drop: "UserFrame_Drop h g = (if count_of e = 0 then Panic UnwrapErr
      else Return (set_entry g (user_raw h) (mk_entry (state_of e) (count_of e - 1))))"
    using g by (simp add: UserFrame_Drop_def UserFrame_entry_def retype_entry_eq on_entry_eq decrement_eq)
  show "UserFrame_drop h g = bindR (UserFrame_Drop h g) (\<lambda>g. bindR (UserFrame_Drop h g)
      (\<lambda>g. Return (of_nat (count_of e), g)))"
    unfolding drop using g
    by (simp add: UserFrame_drop_def UserFrame_entry_def retype_entry_eq on_entry_eq decrement_eq)
qed

interpretation kf: frame_handle kernel_raw KernelFrame_try_clone KernelFrame_Drop KernelFrame_drop
proof unfold_locales
  fix g h e
  assume g: "rt_ok g" "entry g (kernel_raw h) = Some e"
  show "KernelFrame_try_clone h g = Return (if count_of e = 16383 then (None, g)
      else (Some h, set_entry g (kernel_raw h) (mk_entry (state_of e) (Suc (count_of e)))))"
    using g by (simp add: KernelFrame_try_clone_def retype_entry_eq on_entry_eq increment_eq set_entry_self)
  show drop: "KernelFrame_Drop h g = (if count_of e = 0 then Panic UnwrapErr
      else Return (set_entry g (kernel_raw h) (mk_entry (state_of e) (count_of e - 1))))"
    using g by (simp add: KernelFrame_Drop_def KernelFrame_entry_def retype_entry_eq on_entry_eq decrement_eq)
  show "KernelFrame_drop h g = bindR (KernelFrame_Drop h g) (\<lambda>g. bindR (KernelFrame_Drop h g)
      (\<lambda>g. Return (of_nat (count_of e), g)))"
    unfolding drop using g
    by (simp add: KernelFrame_drop_def KernelFrame_entry_def retype_entry_eq on_entry_eq decrement_eq)
qed

end
