(* ===== verification/Retype_Spec.thy ===== *)
theory Retype_Spec
  imports Prelude Paging Cells Retype_Entry Retyping
begin

text \<open>
  What the retype table promises (\<open>docs/Memory Management.md\<close>): a frame is untyped, user or
  kernel memory; it leaves the untyped state with one reference, is reference counted while it
  is typed, and returns to the untyped state only when no reference is left. \<open>frame_step\<close> is this
  protocol for one frame; the frame operations of \<open>Retyping\<close> refine it.

  The second part follows the handles a program holds. \<open>ledger_step\<close> runs the operations and
  counts the live handles of every frame; the invariant of its reachable states is that the
  table never counts fewer references than there are handles, so the type of a frame cannot
  change while a handle to it is alive.
\<close>

section \<open>The protocol of one frame\<close>

type_synonym frame_state = "State \<times> nat"

definition entry_abs :: "RetypeEntry \<Rightarrow> frame_state" where
  "entry_abs e = (state_of e, count_of e)"

inductive frame_step :: "frame_state \<Rightarrow> frame_state \<Rightarrow> bool" where
  into_user: "frame_step (Untyped, 0) (User, 1)"
| into_kernel: "frame_step (Untyped, 0) (Kernel, 1)"
| acquire: "st = User \<or> st = Kernel \<Longrightarrow> frame_step (st, n) (st, Suc n)"
| release: "st = User \<or> st = Kernel \<Longrightarrow> frame_step (st, Suc n) (st, n)"
| into_untyped: "st = User \<or> st = Kernel \<Longrightarrow> frame_step (st, 0) (Untyped, 0)"

inductive_cases frame_step_fromE: "frame_step (st, n) t"

inductive_simps frame_step_Unavailable: "frame_step (Unavailable, n) t"

definition frame_inv :: "frame_state \<Rightarrow> bool" where
  "frame_inv s \<longleftrightarrow> (fst s = Unavailable \<or> fst s = Untyped \<longrightarrow> snd s = 0)"

lemma frame_step_inv: "frame_step s t \<Longrightarrow> frame_inv t"
  by (induction rule: frame_step.induct) (auto simp: frame_inv_def)

lemma frame_step_retype:
  "frame_step (st, n) (st', n') \<Longrightarrow> st' \<noteq> st \<Longrightarrow>
   n = 0 \<and> (st = Untyped \<and> n' = 1 \<or> st' = Untyped \<and> n' = 0)"
  by (auto elim: frame_step_fromE)

section \<open>The operations refine the protocol\<close>

datatype frame_op =
  AsUser RawFrame | AsKernel RawFrame | AsUntyped RawFrame
  | IntoUser RawFrame | IntoKernel RawFrame | IntoUntyped RawFrame
  | CloneUser UserFrame | CloneKernel KernelFrame | DropUser UserFrame | DropKernel KernelFrame

definition forget :: "('r \<times> retype_global) run \<Rightarrow> retype_global run" where
  "forget m = bindR m (\<lambda>(_, g). Return g)"

primrec exec_op :: "frame_op \<Rightarrow> retype_global \<Rightarrow> retype_global run" where
  "exec_op (AsUser f) g = forget (try_as_user f g)"
| "exec_op (AsKernel f) g = forget (try_as_kernel f g)"
| "exec_op (AsUntyped f) g = forget (try_as_untyped f g)"
| "exec_op (IntoUser f) g = forget (try_into_user f g)"
| "exec_op (IntoKernel f) g = forget (try_into_kernel f g)"
| "exec_op (IntoUntyped f) g = forget (try_into_untyped f g)"
| "exec_op (CloneUser u) g = forget (UserFrame_try_clone u g)"
| "exec_op (CloneKernel k) g = forget (KernelFrame_try_clone k g)"
| "exec_op (DropUser u) g = UserFrame_Drop u g"
| "exec_op (DropKernel k) g = KernelFrame_Drop k g"

text \<open>
  A handle exists only for a frame of its type that is in the table. The count of a frame that
  is looked up must not be 16382: from there \<open>get_as_and_increment\<close> stores 0.
\<close>

definition handle_at :: "State \<Rightarrow> RawFrame \<Rightarrow> retype_global \<Rightarrow> bool" where
  "handle_at st f g \<longleftrightarrow> (case entry g f of Some e \<Rightarrow> state_of e = st | None \<Rightarrow> False)"

definition below_wrap :: "RawFrame \<Rightarrow> retype_global \<Rightarrow> bool" where
  "below_wrap f g \<longleftrightarrow> (case entry g f of Some e \<Rightarrow> count_of e \<noteq> 16382 | None \<Rightarrow> True)"

primrec op_valid :: "frame_op \<Rightarrow> retype_global \<Rightarrow> bool" where
  "op_valid (AsUser f) g = below_wrap f g"
| "op_valid (AsKernel f) g = below_wrap f g"
| "op_valid (AsUntyped f) g = True"
| "op_valid (IntoUser f) g = True"
| "op_valid (IntoKernel f) g = True"
| "op_valid (IntoUntyped f) g = True"
| "op_valid (CloneUser u) g = handle_at User (user_raw u) g"
| "op_valid (CloneKernel k) g = handle_at Kernel (kernel_raw k) g"
| "op_valid (DropUser u) g = handle_at User (user_raw u) g"
| "op_valid (DropKernel k) g = handle_at Kernel (kernel_raw k) g"

definition table_inv :: "retype_global \<Rightarrow> bool" where
  "table_inv g \<longleftrightarrow> rt_ok g \<and> list_all (\<lambda>e. frame_inv (entry_abs e)) (entries g)"

definition table_step :: "retype_global \<Rightarrow> retype_global \<Rightarrow> bool" where
  "table_step g g' \<longleftrightarrow>
     list_all2 (\<lambda>e e'. frame_step\<^sup>=\<^sup>= (entry_abs e) (entry_abs e')) (entries g) (entries g')"

definition step_ok :: "retype_global \<Rightarrow> retype_global \<Rightarrow> bool" where
  "step_ok g g' \<longleftrightarrow> table_inv g' \<and> table_step g g'"

lemma step_ok_refl: "table_inv g \<Longrightarrow> step_ok g g"
  by (simp add: step_ok_def table_step_def list_all2_refl)

lemma entry_abs_mk [simp]: "n < 2 ^ 14 \<Longrightarrow> entry_abs (mk_entry st n) = (st, n)"
  by (simp add: entry_abs_def)

lemma table_inv_entry: "table_inv g \<Longrightarrow> entry g f = Some e \<Longrightarrow> frame_inv (entry_abs e)"
  by (auto simp: table_inv_def entry_def list_all_length split: if_splits)

lemma table_inv_count_0:
  "table_inv g \<Longrightarrow> entry g f = Some e \<Longrightarrow> state_of e = Unavailable \<or> state_of e = Untyped \<Longrightarrow> count_of e = 0"
  using table_inv_entry [of g f e] by (auto simp: frame_inv_def entry_abs_def)

lemma step_ok_set:
  assumes "table_inv g" and "entry g f = Some e" and "frame_step (entry_abs e) (entry_abs e')"
  shows "step_ok g (set_entry g f e')"
  unfolding step_ok_def
proof
  have "list_all (\<lambda>e. frame_inv (entry_abs e)) ((entries g)[frame_idx f := e'])"
    using assms(1,2) frame_step_inv [OF assms(3)]
    by (auto simp: table_inv_def list_all_length nth_list_update entry_def split: if_splits)
  then show "table_inv (set_entry g f e')"
    using assms(1) by (simp add: table_inv_def)
  show "table_step g (set_entry g f e')"
    using assms(2,3)
    by (auto simp: table_step_def list_all2_conv_all_nth nth_list_update entry_def split: if_splits)
qed

lemma wrap_free: "count_of e \<noteq> 16383 \<Longrightarrow> count_of e \<noteq> 16382 \<Longrightarrow> Suc (count_of e) mod 16383 = Suc (count_of e)"
  using count_below_max [of e] by simp

lemma handle_clone_step:
  assumes "frame_handle raw clone dr con" and "table_inv g"
    and "handle_at st (raw h) g" and "st = User \<or> st = Kernel"
    and "forget (clone h g) = Return g'"
  shows "step_ok g g'"
proof -
  from assms(3) obtain e where e: "entry g (raw h) = Some e" and st: "state_of e = st"
    by (auto simp: handle_at_def split: option.splits)
  have g: "rt_ok g" using assms(2) by (simp add: table_inv_def)
  have step: "frame_step (entry_abs e) (entry_abs (mk_entry (state_of e) (Suc (count_of e))))"
    if "count_of e \<noteq> 16383"
    using that assms(4) st count_below_max [of e] by (auto simp: entry_abs_def intro: acquire)
  from assms(5) frame_handle.clone_law [OF assms(1) g e] show ?thesis
    using step_ok_refl [OF assms(2)] step_ok_set [OF assms(2) e step]
    by (auto simp: forget_def split: if_splits)
qed

lemma handle_drop_step:
  assumes "frame_handle raw clone dr con" and "table_inv g"
    and "handle_at st (raw h) g" and "st = User \<or> st = Kernel"
    and "dr h g = Return g'"
  shows "step_ok g g'"
proof -
  from assms(3) obtain e where e: "entry g (raw h) = Some e" and st: "state_of e = st"
    by (auto simp: handle_at_def split: option.splits)
  have g: "rt_ok g" using assms(2) by (simp add: table_inv_def)
  have "count_of e - 1 < 2 ^ 14"
    using less_imp_diff_less [OF count_of_less] by simp
  then have step: "frame_step (entry_abs e) (entry_abs (mk_entry (state_of e) (count_of e - 1)))"
    if "count_of e \<noteq> 0"
    using that assms(4) st release [of st "count_of e - 1"] by (auto simp: entry_abs_def)
  from assms(5) frame_handle.drop_law [OF assms(1) g e] show ?thesis
    using step_ok_set [OF assms(2) e step] by (auto split: if_splits)
qed

lemma exec_op_step:
  assumes inv: "table_inv g" and valid: "op_valid op g" and ret: "exec_op op g = Return g'"
  shows "step_ok g g'"
proof -
  have g: "rt_ok g" using inv by (simp add: table_inv_def)
  note simps = table_simps [OF g] forget_def
  show ?thesis
  proof (cases op)
    case (AsUser f)
    with inv valid ret show ?thesis
      by (auto simp: simps below_wrap_def wrap_free entry_abs_def count_below_max
          intro!: step_ok_refl step_ok_set acquire split: option.splits if_splits)
  next
    case (AsKernel f)
    with inv valid ret show ?thesis
      by (auto simp: simps below_wrap_def wrap_free entry_abs_def count_below_max
          intro!: step_ok_refl step_ok_set acquire split: option.splits if_splits)
  next
    case (AsUntyped f)
    with inv ret show ?thesis
      by (auto simp: simps intro!: step_ok_refl split: option.splits)
  next
    case (IntoUser f)
    with inv ret show ?thesis
      by (auto simp: simps entry_abs_def intro!: step_ok_refl step_ok_set into_user [simplified] split: option.splits if_splits)
  next
    case (IntoKernel f)
    with inv ret show ?thesis
      by (auto simp: simps entry_abs_def intro!: step_ok_refl step_ok_set into_kernel [simplified] split: option.splits if_splits)
  next
    case (IntoUntyped f)
    with inv ret show ?thesis
      by (auto simp: simps entry_abs_def intro!: step_ok_refl step_ok_set into_untyped split: option.splits if_splits)
  next
    case (CloneUser u)
    with valid ret show ?thesis by (auto intro: handle_clone_step [OF uf.frame_handle_axioms inv])
  next
    case (CloneKernel k)
    with valid ret show ?thesis by (auto intro: handle_clone_step [OF kf.frame_handle_axioms inv])
  next
    case (DropUser u)
    with valid ret show ?thesis by (auto intro: handle_drop_step [OF uf.frame_handle_axioms inv])
  next
    case (DropKernel k)
    with valid ret show ?thesis by (auto intro: handle_drop_step [OF kf.frame_handle_axioms inv])
  qed
qed

text \<open>Sequences of operations, each valid where it is run.\<close>

primrec exec_ops :: "frame_op list \<Rightarrow> retype_global \<Rightarrow> retype_global run" where
  "exec_ops [] g = Return g"
| "exec_ops (op # ops) g = bindR (exec_op op g) (exec_ops ops)"

primrec ops_valid :: "frame_op list \<Rightarrow> retype_global \<Rightarrow> bool" where
  "ops_valid [] g = True"
| "ops_valid (op # ops) g = (op_valid op g \<and> (case exec_op op g of Return g' \<Rightarrow> ops_valid ops g' | Panic _ \<Rightarrow> True))"

lemma exec_ops_steps:
  assumes "table_inv g" and "ops_valid ops g" and "exec_ops ops g = Return g'"
  shows "table_inv g' \<and> length (entries g') = length (entries g) \<and>
    (\<forall>i < length (entries g). frame_step\<^sup>*\<^sup>* (entry_abs (entries g ! i)) (entry_abs (entries g' ! i)))"
  using assms
proof (induction ops arbitrary: g)
  case (Cons op ops)
  from Cons.prems obtain h where h: "exec_op op g = Return h" "exec_ops ops h = Return g'"
    by (auto elim: bindR_E)
  with Cons.prems have s: "step_ok g h" and v: "ops_valid ops h"
    by (auto intro: exec_op_step)
  then have IH: "table_inv g' \<and> length (entries g') = length (entries h) \<and>
    (\<forall>i < length (entries h). frame_step\<^sup>*\<^sup>* (entry_abs (entries h ! i)) (entry_abs (entries g' ! i)))"
    using Cons.IH [of h] h(2) by (simp add: step_ok_def)
  from s have len: "length (entries h) = length (entries g)"
    and st: "\<And>i. i < length (entries g) \<Longrightarrow> frame_step\<^sup>=\<^sup>= (entry_abs (entries g ! i)) (entry_abs (entries h ! i))"
    by (auto simp: step_ok_def table_step_def list_all2_conv_all_nth)
  have "frame_step\<^sup>*\<^sup>* (entry_abs (entries g ! i)) (entry_abs (entries g' ! i))"
    if i: "i < length (entries g)" for i
  proof -
    from st [OF i] have "frame_step\<^sup>*\<^sup>* (entry_abs (entries g ! i)) (entry_abs (entries h ! i))"
      by auto
    also from IH len i have "frame_step\<^sup>*\<^sup>* (entry_abs (entries h ! i)) (entry_abs (entries g' ! i))"
      by simp
    finally show ?thesis .
  qed
  with IH len show ?case by simp
qed simp

lemma frame_steps_Unavailable: "frame_step\<^sup>*\<^sup>* (Unavailable, n) s \<Longrightarrow> s = (Unavailable, n)"
  by (induction rule: rtranclp_induct) (auto simp: frame_step_Unavailable)

section \<open>Handles and counts\<close>

text \<open>The table together with the number of live handles of every frame (by frame number).\<close>

type_synonym ledger = "retype_global \<times> (nat \<Rightarrow> nat)"

definition gain :: "RawFrame \<Rightarrow> (nat \<Rightarrow> nat) \<Rightarrow> (nat \<Rightarrow> nat)" where
  "gain f L = L(frame_idx f := Suc (L (frame_idx f)))"

definition lose :: "RawFrame \<Rightarrow> (nat \<Rightarrow> nat) \<Rightarrow> (nat \<Rightarrow> nat)" where
  "lose f L = L(frame_idx f := L (frame_idx f) - 1)"

inductive ledger_step :: "ledger \<Rightarrow> ledger \<Rightarrow> bool" where
  into_user: "try_into_user f g = Return (Ok u, g') \<Longrightarrow> ledger_step (g, L) (g', gain f L)"
| into_kernel: "try_into_kernel f g = Return (Ok k, g') \<Longrightarrow> ledger_step (g, L) (g', gain f L)"
| as_user: "try_as_user f g = Return (Ok u, g') \<Longrightarrow> below_wrap f g \<Longrightarrow> ledger_step (g, L) (g', gain f L)"
| as_kernel: "try_as_kernel f g = Return (Ok k, g') \<Longrightarrow> below_wrap f g \<Longrightarrow> ledger_step (g, L) (g', gain f L)"
| clone_user: "0 < L (frame_idx (user_raw u)) \<Longrightarrow> UserFrame_try_clone u g = Return (Some u', g') \<Longrightarrow>
    ledger_step (g, L) (g', gain (user_raw u) L)"
| clone_kernel: "0 < L (frame_idx (kernel_raw k)) \<Longrightarrow> KernelFrame_try_clone k g = Return (Some k', g') \<Longrightarrow>
    ledger_step (g, L) (g', gain (kernel_raw k) L)"
| drop_user: "0 < L (frame_idx (user_raw u)) \<Longrightarrow> UserFrame_Drop u g = Return g' \<Longrightarrow>
    ledger_step (g, L) (g', lose (user_raw u) L)"
| drop_kernel: "0 < L (frame_idx (kernel_raw k)) \<Longrightarrow> KernelFrame_Drop k g = Return g' \<Longrightarrow>
    ledger_step (g, L) (g', lose (kernel_raw k) L)"
| into_untyped: "try_into_untyped f g = Return (Ok f', g') \<Longrightarrow> ledger_step (g, L) (g', L)"

text \<open>
  Every live handle is counted, and a frame with a live handle is typed. Frames may also be
  counted without a handle: the frames the kernel was loaded into start with one reference.
\<close>

definition counted :: "nat \<Rightarrow> RetypeEntry option \<Rightarrow> bool" where
  "counted n e \<longleftrightarrow> (case e of
     Some e \<Rightarrow> n \<le> count_of e \<and> (0 < n \<longrightarrow> state_of e = User \<or> state_of e = Kernel)
   | None \<Rightarrow> n = 0)"

definition ledger_inv :: "ledger \<Rightarrow> bool" where
  "ledger_inv gL \<longleftrightarrow> (case gL of (g, L) \<Rightarrow> rt_ok g \<and> (\<forall>f. counted (L (frame_idx f)) (entry g f)))"

lemma ledger_inv_set:
  assumes "ledger_inv (g, L)" and "entry g f = Some e" and "counted n (Some e')"
  shows "ledger_inv (set_entry g f e', L(frame_idx f := n))"
  using assms by (auto simp: ledger_inv_def rt.look_put)

lemma ledger_inv_entry:
  "ledger_inv (g, L) \<Longrightarrow> entry g f = Some e \<Longrightarrow> counted (L (frame_idx f)) (Some e)"
  by (auto simp: ledger_inv_def dest: spec [of _ f])

lemma ledger_inv_entry_None: "ledger_inv (g, L) \<Longrightarrow> entry g f = None \<Longrightarrow> L (frame_idx f) = 0"
  by (auto simp: ledger_inv_def counted_def dest: spec [of _ f])

lemma ledger_inv_gain:
  assumes "ledger_inv (g, L)" and "entry g f = Some e" and "count_of e' = Suc (count_of e)"
    and "state_of e' = User \<or> state_of e' = Kernel"
  shows "ledger_inv (set_entry g f e', gain f L)"
  unfolding gain_def
  using assms ledger_inv_entry [OF assms(1,2)]
  by (intro ledger_inv_set) (auto simp: counted_def)

lemma ledger_inv_lose:
  assumes "ledger_inv (g, L)" and "entry g f = Some e" and "0 < L (frame_idx f)"
  shows "ledger_inv (set_entry g f (mk_entry (state_of e) (count_of e - 1)), lose f L)"
  unfolding lose_def
  using assms ledger_inv_entry [OF assms(1,2)] less_imp_diff_less [OF count_of_less, of e 1]
  by (intro ledger_inv_set) (auto simp: counted_def)

lemma clone_effect:
  assumes "frame_handle raw clone dr con" and "ledger_inv (g, L)" and "0 < L (frame_idx (raw h))"
    and "clone h g = Return (Some h', g')"
  obtains e where "entry g (raw h) = Some e" and "Suc (count_of e) < 2 ^ 14"
    and "g' = set_entry g (raw h) (mk_entry (state_of e) (Suc (count_of e)))"
proof -
  from assms(2,3) obtain e where e: "entry g (raw h) = Some e"
    using ledger_inv_entry_None [of g L "raw h"] by (cases "entry g (raw h)") auto
  have g: "rt_ok g" using assms(2) by (simp add: ledger_inv_def)
  show thesis
    using that [OF e] assms(4) frame_handle.clone_law [OF assms(1) g e] count_below_max [of e]
    by (auto split: if_splits)
qed

lemma drop_effect:
  assumes "frame_handle raw clone dr con" and "ledger_inv (g, L)" and "0 < L (frame_idx (raw h))"
    and "dr h g = Return g'"
  obtains e where "entry g (raw h) = Some e" and "count_of e - 1 < 2 ^ 14"
    and "g' = set_entry g (raw h) (mk_entry (state_of e) (count_of e - 1))"
proof -
  from assms(2,3) obtain e where e: "entry g (raw h) = Some e"
    using ledger_inv_entry_None [of g L "raw h"] by (cases "entry g (raw h)") auto
  have g: "rt_ok g" using assms(2) by (simp add: ledger_inv_def)
  have "count_of e - 1 < 2 ^ 14"
    using less_imp_diff_less [OF count_of_less] by simp
  then show thesis
    using that [OF e] assms(4) frame_handle.drop_law [OF assms(1) g e]
    by (auto split: if_splits)
qed

lemma ledger_clone:
  assumes "frame_handle raw clone dr con" and "ledger_inv (g, L)" and "0 < L (frame_idx (raw h))"
    and "clone h g = Return (Some h', g')"
  shows "ledger_inv (g', gain (raw h) L)"
proof (rule clone_effect [OF assms])
  fix e
  assume e: "entry g (raw h) = Some e" "Suc (count_of e) < 2 ^ 14"
    and g': "g' = set_entry g (raw h) (mk_entry (state_of e) (Suc (count_of e)))"
  with ledger_inv_entry [OF assms(2)] assms(3) have "state_of e = User \<or> state_of e = Kernel"
    by (auto simp: counted_def)
  with e g' show ?thesis
    by (auto intro!: ledger_inv_gain [OF assms(2)])
qed

lemma ledger_drop:
  assumes "frame_handle raw clone dr con" and "ledger_inv (g, L)" and "0 < L (frame_idx (raw h))"
    and "dr h g = Return g'"
  shows "ledger_inv (g', lose (raw h) L)"
  by (rule drop_effect [OF assms]) (use ledger_inv_lose [OF assms(2) _ assms(3)] in simp)

lemma ledger_step_inv: "ledger_step s t \<Longrightarrow> ledger_inv s \<Longrightarrow> ledger_inv t"
proof (induction rule: ledger_step.induct)
  case (into_user f g u g' L)
  then have g: "rt_ok g" by (simp add: ledger_inv_def)
  from into_user show ?case
    by (auto simp: table_simps [OF g] intro!: ledger_inv_gain split: option.splits if_splits)
next
  case (into_kernel f g k g' L)
  then have g: "rt_ok g" by (simp add: ledger_inv_def)
  from into_kernel show ?case
    by (auto simp: table_simps [OF g] intro!: ledger_inv_gain split: option.splits if_splits)
next
  case (as_user f g u g' L)
  then have g: "rt_ok g" by (simp add: ledger_inv_def)
  from as_user show ?case
    by (auto simp: table_simps [OF g] below_wrap_def wrap_free count_below_max
        intro!: ledger_inv_gain split: option.splits if_splits)
next
  case (as_kernel f g k g' L)
  then have g: "rt_ok g" by (simp add: ledger_inv_def)
  from as_kernel show ?case
    by (auto simp: table_simps [OF g] below_wrap_def wrap_free count_below_max
        intro!: ledger_inv_gain split: option.splits if_splits)
next
  case (clone_user L u g u' g')
  then show ?case by (blast intro: ledger_clone [OF uf.frame_handle_axioms])
next
  case (clone_kernel L k g k' g')
  then show ?case by (blast intro: ledger_clone [OF kf.frame_handle_axioms])
next
  case (drop_user L u g g')
  then show ?case by (blast intro: ledger_drop [OF uf.frame_handle_axioms])
next
  case (drop_kernel L k g g')
  then show ?case by (blast intro: ledger_drop [OF kf.frame_handle_axioms])
next
  case (into_untyped f g f' g' L)
  then have g: "rt_ok g" by (simp add: ledger_inv_def)
  from into_untyped obtain e where e: "entry g f = Some e" and c: "count_of e = 0"
    and g': "g' = set_entry g f (mk_entry Untyped 0)"
    by (auto simp: table_simps [OF g] split: option.splits if_splits)
  have "L (frame_idx f) = 0"
    using ledger_inv_entry [OF into_untyped.prems e] c by (simp add: counted_def)
  then have "L = L(frame_idx f := 0)" by auto
  then show ?case
    using ledger_inv_set [OF into_untyped.prems e, of 0] g' by (simp add: counted_def)
qed

lemma ledger_reachable_inv:
  "ledger_step\<^sup>*\<^sup>* s t \<Longrightarrow> ledger_inv s \<Longrightarrow> ledger_inv t"
  by (induction rule: rtranclp_induct) (auto intro: ledger_step_inv)

lemma ledger_inv_start: "rt_ok g \<Longrightarrow> ledger_inv (g, \<lambda>_. 0)"
  by (simp add: ledger_inv_def counted_def split: option.splits)

text \<open>A step keeps the type of every frame that has a live handle.\<close>

lemma ledger_step_keeps_type:
  assumes "ledger_step (g, L) (g', L')" and "ledger_inv (g, L)" and "0 < L (frame_idx f)"
  shows "map_option state_of (entry g' f) = map_option state_of (entry g f)"
proof -
  have g: "rt_ok g" using assms(2) by (simp add: ledger_inv_def)
  have typed: "state_of e = User \<or> state_of e = Kernel" and pos: "count_of e \<noteq> 0" if "entry g f = Some e" for e
    using ledger_inv_entry [OF assms(2) that] assms(3) by (auto simp: counted_def)
  have put: "map_option state_of (entry (set_entry g f' e') f) = map_option state_of (entry g f)"
    if "entry g f' = Some e" and "frame_idx f = frame_idx f' \<Longrightarrow> state_of e' = state_of e" for f' e e'
    using that rt.look_number [of f f' g] by (auto simp: rt.look_put)
  have num: "entry g f = Some e" if "entry g f' = Some e" and "frame_idx f = frame_idx f'" for f' e
    using that rt.look_number [of f f' g] by simp
  note [intro!] = put and [dest] = num typed pos and [split] = option.splits if_splits
  show ?thesis
    using assms(1)
  proof cases
    case (clone_user u u')
    with assms(2) show ?thesis
      by (elim clone_effect [OF uf.frame_handle_axioms]) auto
  next
    case (clone_kernel k k')
    with assms(2) show ?thesis
      by (elim clone_effect [OF kf.frame_handle_axioms]) auto
  next
    case (drop_user u)
    with assms(2) show ?thesis
      by (elim drop_effect [OF uf.frame_handle_axioms]) auto
  next
    case (drop_kernel k)
    with assms(2) show ?thesis
      by (elim drop_effect [OF kf.frame_handle_axioms]) auto
  qed (auto simp: table_simps [OF g])
qed

section \<open>Properties\<close>

text \<open>A small table for the instances: an untyped, a kernel and an unavailable frame.\<close>

definition sample_table :: retype_global where
  "sample_table = \<lparr>once_value = Some \<lparr>retype_map =
     [mk_entry Untyped 0, mk_entry Kernel 2, mk_entry Unavailable 0]\<rparr>, once_init = 2\<rparr>"

definition sample_frame :: "u64 \<Rightarrow> RawFrame" where
  "sample_frame i = RawFrame (PhysAddr (4096 * i))"

lemma sample_table_simps [simp]:
  "rt_ok sample_table"
  "entries sample_table = [mk_entry Untyped 0, mk_entry Kernel 2, mk_entry Unavailable 0]"
  "table_inv sample_table"
  "frame_idx (sample_frame 0) = 0" "frame_idx (sample_frame 1) = 1" "frame_idx (sample_frame 2) = 2"
  by (simp_all add: sample_table_def rt_ok_def entries_def table_inv_def frame_inv_def
      frame_idx_def sample_frame_def)

lemma sample_entry [simp]:
  "entry sample_table (sample_frame 0) = Some (mk_entry Untyped 0)"
  "entry sample_table (sample_frame 1) = Some (mk_entry Kernel 2)"
  "entry sample_table (sample_frame 2) = Some (mk_entry Unavailable 0)"
  by (simp_all add: entry_def)



text \<open>
  A frame the boot process marks unavailable stays so: no sequence of frame operations
  ever changes its entry.
\<close>

lemma unavailable_frames_are_permanent:
  assumes "table_inv g" and "ops_valid ops g" and "exec_ops ops g = Return g'"
    and "i < length (entries g)" and "state_of (entries g ! i) = Unavailable"
  shows "length (entries g') = length (entries g) \<and> entries g' ! i = entries g ! i"
proof -
  from exec_ops_steps [OF assms(1-3)] assms(4)
  have len: "length (entries g') = length (entries g)"
    and "frame_step\<^sup>*\<^sup>* (entry_abs (entries g ! i)) (entry_abs (entries g' ! i))"
    by auto
  then have "entry_abs (entries g' ! i) = entry_abs (entries g ! i)"
    using assms(5) by (auto simp: entry_abs_def dest!: frame_steps_Unavailable)
  with len show ?thesis
    by (auto simp: entry_abs_def intro: entry_eqI)
qed



text \<open>
  Consuming a handle with its inherent method \<open>drop(self)\<close> takes two references, not one:
  it panics on the last reference, and with two references it leaves none, so the frame can
  be retyped and handed to user space while the other handle is still alive.
\<close>

lemma consuming_a_handle_takes_two_references:
  assumes "rt_ok g" and "entry g (kernel_raw k) = Some e" and "state_of e = Kernel"
  shows "(count_of e = 1 \<longrightarrow> KernelFrame_drop k g = Panic UnwrapErr)
    \<and> (count_of e = 2 \<longrightarrow> (\<exists>g' u. bindR (KernelFrame_drop k g) (\<lambda>(_, g).
           bindR (try_into_untyped (kernel_raw k) g) (\<lambda>(_, g). try_into_user (kernel_raw k) g))
         = Return (Ok u, g') \<and> entry g' (kernel_raw k) = Some (mk_entry User 1)))"
  using assms
  by (simp add: kf.consume_eq try_into_untyped_eq try_into_user_eq rt.look_put_same)

text \<open>
  C36. Packing and unpacking an entry are inverse for every state and every count below
  \<open>MAX_REF_COUNT\<close>, and every 16-bit value unpacks; but the count \<open>MAX_REF_COUNT\<close> itself, which
  \<open>value_for\<close> accepts, is stored as 0.
\<close>

theorem entry_packing_roundtrip:
  "(c < MAX_REF_COUNT \<longrightarrow> bindR (value_for st c) value_into = Return (st, c))
   \<and> (\<exists>st' c'. value_into e = Return (st', c') \<and> (c' < MAX_REF_COUNT \<longrightarrow> value_for st' c' = Return e))
   \<and> bindR (value_for st MAX_REF_COUNT) value_into = Return (st, 0)"
  by (auto simp: value_for_eq value_into_eq MAX_REF_COUNT_eq word_less_nat_alt)

theorem entry_packing_roundtrip_witness:
  "bindR (value_for Kernel 5) value_into = Return (Kernel, 5)
   \<and> bindR (value_for Kernel MAX_REF_COUNT) value_into = Return (Kernel, 0)"
  using entry_packing_roundtrip [of 5 Kernel 0] by (simp add: MAX_REF_COUNT_eq)

text \<open>
  C37. The reference count is lost at its limit: looking up a kernel frame that has 16382
  references succeeds and leaves a count of 0, after which the frame can be retyped although
  all its handles are alive.
\<close>

theorem lookup_wraps_the_count:
  assumes "rt_ok g" and "entry g f = Some e" and "state_of e = Kernel" and "count_of e = 16382"
  shows "\<exists>k g'. try_as_kernel f g = Return (Ok k, g') \<and> entry g' f = Some (mk_entry Kernel 0)
    \<and> (\<exists>g''. try_into_untyped f g' = Return (Ok f, g''))"
  using assms by (simp add: try_as_kernel_eq try_into_untyped_eq rt.look_put_same)

theorem lookup_wraps_the_count_witness:
  "\<exists>k g'. try_as_kernel (sample_frame 1) (set_entry sample_table (sample_frame 1) (mk_entry Kernel 16382))
     = Return (Ok k, g') \<and> entry g' (sample_frame 1) = Some (mk_entry Kernel 0)"
  using lookup_wraps_the_count
    [of "set_entry sample_table (sample_frame 1) (mk_entry Kernel 16382)" "sample_frame 1" "mk_entry Kernel 16382"]
  by (auto simp: rt.look_put_same)

text \<open>
  Installing the table: with a fresh once cell and the active page table in a frame that
  is typed as kernel memory, \<open>init\<close> succeeds and the installed table is exactly the given one
  (the reference it takes on the page table is dropped again at once); with a frame of another
  type or outside the table it panics.
\<close>

lemma init_installs_the_table:
  assumes "unat cr3 < 2 ^ 52" and "cr3 mod 4096 = 0"
    and "i = unat cr3 div 4096"
  shows "(i < length (retype_map t) \<and> state_of (retype_map t ! i) = Kernel \<and> count_of (retype_map t ! i) < 16382
       \<longrightarrow> RetypeTable_init cr3 t OnceCell_new = Return (Ok (), \<lparr>once_value = Some t, once_init = 2\<rparr>))
    \<and> (length (retype_map t) \<le> i \<or> state_of (retype_map t ! i) \<noteq> Kernel
       \<longrightarrow> RetypeTable_init cr3 t OnceCell_new = Panic UnwrapErr)"
proof -
  let ?g = "\<lparr>once_value = Some t, once_init = 2\<rparr>" and ?f = "RawFrame (PhysAddr cr3)"
  have g: "rt_ok ?g" and ents: "entries ?g = retype_map t" and idx: "frame_idx ?f = i"
    by (simp_all add: rt_ok_def entries_def frame_idx_def assms(3))
  have cur: "current_raw cr3 = Return ?f"
    using assms(1,2) by (simp add: current_raw_def PhysAddr_new_eq addr_simps)
  have set: "OnceCell_set t OnceCell_new = Return (Ok (), ?g)"
    by (simp add: OnceCell_set_eq) (simp add: OnceCell_new_def)
  have restored: "KernelFrame_Drop (KernelFrame ?f)
      (set_entry ?g ?f (mk_entry Kernel (Suc (count_of e)))) = Return ?g"
    if "entry ?g ?f = Some e" "state_of e = Kernel" "count_of e < 16382" for e
    using that kf.clone_then_drop [OF g, of "KernelFrame ?f" e] by (simp add: kf.clone_law [OF g])
  show ?thesis
    using restored
    by (auto simp: RetypeTable_init_def set cur try_as_kernel_eq [OF g] entry_def ents idx)
qed

end
