(* ===== verification/Memory_Map.thy ===== *)
theory Memory_Map
  imports Prelude Paging Cells Retype_Entry Retyping
begin

text \<open>
  Building the retype table from the bootloader's memory map (\<open>kernel/src/retyping.rs\<close>): the
  allocator \<open>bump_alloc::BumpAllocator\<close>, which takes frames from the front of usable entries of
  the map, and \<open>RetypeTable::new\<close>, which takes the table's own memory from that allocator and then
  types every frame by the entry that covers it.

  The memory map is the list of entries the bootloader reports. Only the three entry types the
  code tells apart have a constructor of their own.
\<close>

section \<open>Definitions\<close>

datatype EntryType = USABLE | BOOTLOADER_RECLAIMABLE | KERNEL_AND_MODULES | OtherEntryType u64

record Entry =
  e_base :: u64
  e_length :: u64
  e_type :: EntryType

record BootAllocator =
  memory_map :: "Entry list"
  map_index :: nat

definition BootAllocator_new :: "Entry list \<Rightarrow> BootAllocator" where
  "BootAllocator_new mm = \<lparr>memory_map = mm, map_index = 0\<rparr>"

function alloc_frame :: "BootAllocator \<Rightarrow> (RawFrame option \<times> BootAllocator) run" where
  "alloc_frame a =
     (if map_index a < length (memory_map a) then
        let e = memory_map a ! map_index a in
        bindR (assert (e_length e mod FRAME_SIZE = 0)) (\<lambda>_.
        if e_type e = USABLE \<and> e_length e > 0 then
          bindR (add_chk (e_base e) FRAME_SIZE) (\<lambda>b.
          bindR (sub_chk (e_length e) FRAME_SIZE) (\<lambda>l.
          let a' = a\<lparr>memory_map := (memory_map a)[map_index a := e\<lparr>e_base := b, e_length := l\<rparr>]\<rparr> in
          bindR (PhysAddr_new (e_base e)) (\<lambda>p.
          bindR (RawFrame_from_start_address p) (\<lambda>f.
          Return (Some f, a')))))
        else alloc_frame (a\<lparr>map_index := Suc (map_index a)\<rparr>))
      else Return (None, a))"
  by pat_completeness auto
termination
  by (relation "measure (\<lambda>a. length (memory_map a) - map_index a)") auto

text \<open>The loop of \<open>alloc_frames\<close>, for the requested length in bytes.\<close>

function alloc_bytes :: "u64 \<Rightarrow> BootAllocator \<Rightarrow> (PhysAddr option \<times> BootAllocator) run" where
  "alloc_bytes req a =
     (if map_index a < length (memory_map a) then
        let e = memory_map a ! map_index a in
        bindR (assert (e_length e mod FRAME_SIZE = 0)) (\<lambda>_.
        if e_type e = USABLE \<and> e_length e \<ge> req then
          bindR (add_chk (e_base e) req) (\<lambda>b.
          bindR (sub_chk (e_length e) req) (\<lambda>l.
          let a' = a\<lparr>memory_map := (memory_map a)[map_index a := e\<lparr>e_base := b, e_length := l\<rparr>]\<rparr> in
          bindR (PhysAddr_new (e_base e)) (\<lambda>p.
          Return (Some p, a'))))
        else alloc_bytes req (a\<lparr>map_index := Suc (map_index a)\<rparr>))
      else Return (None, a))"
  by pat_completeness auto
termination
  by (relation "measure (\<lambda>(req, a). length (memory_map a) - map_index a)") auto

definition alloc_frames :: "usize \<Rightarrow> BootAllocator \<Rightarrow> (PhysAddr option \<times> BootAllocator) run" where
  "alloc_frames count a = bindR (mul_chk count FRAME_SIZE) (\<lambda>req. alloc_bytes req a)"

text \<open>The entry a frame gets from the type of the memory it lies in.\<close>

primrec typed_entry :: "EntryType \<Rightarrow> RetypeEntry run" where
  "typed_entry USABLE = entry_untyped"
| "typed_entry BOOTLOADER_RECLAIMABLE = entry_kernel 1"
| "typed_entry KERNEL_AND_MODULES = entry_kernel 1"
| "typed_entry (OtherEntryType k) = entry_unavailable"

text \<open>\<open>for slot in retype_map.iter_mut().skip(start).take(count)\<close>: the slots that exist.\<close>

definition fill :: "nat \<Rightarrow> nat \<Rightarrow> 'a \<Rightarrow> 'a list \<Rightarrow> 'a list" where
  "fill start count v m =
     List.map (\<lambda>i. if start \<le> i \<and> i < start + count then v else m ! i) [0..<length m]"

primrec type_frames :: "Entry list \<Rightarrow> RetypeEntry list \<Rightarrow> RetypeEntry list run" where
  "type_frames [] m = Return m"
| "type_frames (e # es) m =
     bindR (assert (e_base e mod FRAME_SIZE = 0)) (\<lambda>_.
     bindR (assert (e_length e mod FRAME_SIZE = 0)) (\<lambda>_.
     bindR (typed_entry (e_type e)) (\<lambda>v.
     type_frames es (fill (unat (e_base e div FRAME_SIZE)) (unat (e_length e div FRAME_SIZE)) v m))))"

definition RetypeTable_new :: "VirtAddr \<Rightarrow> Entry list \<Rightarrow> RetypeTable option run" where
  "RetypeTable_new pmo mm =
     (if mm = [] then Return None else
      bindR (add_chk (e_base (last mm)) (e_length (last mm))) (\<lambda>physical_top.
      bindR (assert (physical_top mod FRAME_SIZE = 0)) (\<lambda>_.
      let number_frames = physical_top div FRAME_SIZE in
      bindR (mul_chk 2 number_frames) (\<lambda>retype_map_size.
      bindR (assert (retype_map_size > 0)) (\<lambda>_.
      let retype_map_frames = (retype_map_size - 1) div PAGE_SIZE + 1 in
      bindR (alloc_frames retype_map_frames (BootAllocator_new mm)) (\<lambda>(start, allocator). case start of
        None \<Rightarrow> Return None
      | Some start_physical_address \<Rightarrow>
          bindR (to_virtual pmo start_physical_address) (\<lambda>_.
          bindR entry_unavailable (\<lambda>u.
          bindR (type_frames (memory_map allocator) (replicate (unat number_frames) u)) (\<lambda>m.
          Return (Some \<lparr>retype_map = m\<rparr>))))))))))"

declare alloc_frame.simps [simp del] alloc_bytes.simps [simp del]

section \<open>The boot allocator\<close>

text \<open>An entry that can serve a request, and the entry after serving it.\<close>

definition fits :: "u64 \<Rightarrow> Entry \<Rightarrow> bool" where
  "fits req e \<longleftrightarrow> e_type e = USABLE \<and> req \<le> e_length e"

definition take_front :: "u64 \<Rightarrow> Entry \<Rightarrow> Entry" where
  "take_front req e = e\<lparr>e_base := e_base e + req, e_length := e_length e - req\<rparr>"

lemma alloc_bytes_Some:
  assumes "alloc_bytes req a = Return (Some p, a')"
  shows "\<exists>j. map_index a \<le> j \<and> j < length (memory_map a) \<and> fits req (memory_map a ! j)
    \<and> (\<forall>i. map_index a \<le> i \<and> i < j \<longrightarrow> \<not> fits req (memory_map a ! i))
    \<and> p = PhysAddr (e_base (memory_map a ! j))
    \<and> a' = \<lparr>memory_map = (memory_map a)[j := take_front req (memory_map a ! j)], map_index = j\<rparr>"
  using assms
proof (induction req a rule: alloc_bytes.induct)
  case (1 req a)
  let ?e = "memory_map a ! map_index a"
  from "1.prems" have idx: "map_index a < length (memory_map a)"
    by (subst (asm) alloc_bytes.simps) (simp split: if_splits)
  show ?case
  proof (cases "fits req ?e")
    case True
    with "1.prems" idx have "p = PhysAddr (e_base ?e)"
      and "a' = a\<lparr>memory_map := (memory_map a)[map_index a := take_front req ?e]\<rparr>"
      by (subst (asm) alloc_bytes.simps;
          auto simp: fits_def run_simps add_chk_def sub_chk_def take_front_def Let_def PhysAddr_new_eq
            split: if_splits)+
    with True idx show ?thesis
      by (intro exI [of _ "map_index a"]) auto
  next
    case False
    from "1.prems" have chk: "assert (e_length ?e mod FRAME_SIZE = 0) = Return ()"
      and rec: "alloc_bytes req (a\<lparr>map_index := Suc (map_index a)\<rparr>) = Return (Some p, a')"
      using idx False by (subst (asm) alloc_bytes.simps; auto simp: fits_def run_simps Let_def)+
    have "\<not> (e_type ?e = USABLE \<and> e_length ?e \<ge> req)"
      using False by (simp add: fits_def)
    from "1.IH" [OF idx refl chk this rec] obtain j where j: "Suc (map_index a) \<le> j"
      "j < length (memory_map a)" "fits req (memory_map a ! j)"
      "\<forall>i. Suc (map_index a) \<le> i \<and> i < j \<longrightarrow> \<not> fits req (memory_map a ! i)"
      "p = PhysAddr (e_base (memory_map a ! j))"
      "a' = \<lparr>memory_map = (memory_map a)[j := take_front req (memory_map a ! j)], map_index = j\<rparr>"
      by auto
    moreover have "\<not> fits req (memory_map a ! i)" if "map_index a \<le> i" "i < j" for i
      using that j(4) False by (cases "i = map_index a") auto
    ultimately show ?thesis by (intro exI [of _ j]) auto
  qed
qed

text \<open>
  What the bootloader guarantees of an entry: it starts and ends at frame boundaries, below
  the 52-bit limit of physical addresses. Entries are sorted and do not overlap.
\<close>

definition first_frame :: "Entry \<Rightarrow> nat" where "first_frame e = unat (e_base e) div 4096"
definition end_frame :: "Entry \<Rightarrow> nat" where "end_frame e = unat (e_base e) div 4096 + unat (e_length e) div 4096"

definition entry_ok :: "Entry \<Rightarrow> bool" where
  "entry_ok e \<longleftrightarrow> e_base e mod 4096 = 0 \<and> e_length e mod 4096 = 0 \<and> unat (e_base e) + unat (e_length e) < 2 ^ 52"

definition mm_ok :: "Entry list \<Rightarrow> bool" where
  "mm_ok mm \<longleftrightarrow> (\<forall>e \<in> set mm. entry_ok e) \<and> sorted_wrt (\<lambda>e e'. end_frame e \<le> first_frame e') mm"

definition covers :: "Entry \<Rightarrow> nat \<Rightarrow> bool" where
  "covers e i \<longleftrightarrow> first_frame e \<le> i \<and> i < end_frame e"

lemma entry_ok_unat:
  assumes "entry_ok e"
  shows "unat (e_base e) = 4096 * first_frame e" and "unat (e_length e) = 4096 * (end_frame e - first_frame e)"
    and "first_frame e \<le> end_frame e" and "end_frame e < 2 ^ 40"
proof -
  from assms have "4096 dvd unat (e_base e)" and "4096 dvd unat (e_length e)"
    by (simp_all add: entry_ok_def word_mod_4096_iff dvd_eq_mod_eq_0)
  then show b: "unat (e_base e) = 4096 * first_frame e" and l: "unat (e_length e) = 4096 * (end_frame e - first_frame e)"
    by (simp_all add: first_frame_def end_frame_def)
  show le: "first_frame e \<le> end_frame e"
    by (simp add: first_frame_def end_frame_def)
  have "4096 * end_frame e = unat (e_base e) + unat (e_length e)"
    using b l le by (simp add: distrib_left [symmetric])
  then show "end_frame e < 2 ^ 40"
    using assms by (simp add: entry_ok_def)
qed

lemma alloc_bytes_step:
  assumes "entry_ok (memory_map a ! map_index a)" and "map_index a < length (memory_map a)"
  shows "alloc_bytes req a =
    (if fits req (memory_map a ! map_index a)
     then Return (Some (PhysAddr (e_base (memory_map a ! map_index a))),
       a\<lparr>memory_map := (memory_map a)[map_index a := take_front req (memory_map a ! map_index a)]\<rparr>)
     else alloc_bytes req (a\<lparr>map_index := Suc (map_index a)\<rparr>))"
proof -
  let ?e = "memory_map a ! map_index a"
  have "unat (e_base ?e) + unat req < 2 ^ 64" if "req \<le> e_length ?e"
    using that assms(1) by (auto simp: entry_ok_def word_le_nat_alt)
  moreover have "unat (e_base ?e) < 2 ^ 52" and "e_length ?e mod 4096 = 0"
    using assms(1) by (auto simp: entry_ok_def)
  ultimately show ?thesis
    using assms(2)
    by (subst alloc_bytes.simps)
       (auto simp: fits_def take_front_def add_chk_def sub_chk_def PhysAddr_new_eq FRAME_SIZE_def Let_def)
qed

lemma alloc_bytes_None:
  assumes "\<forall>e \<in> set (memory_map a). entry_ok e"
    and "\<forall>i. map_index a \<le> i \<and> i < length (memory_map a) \<longrightarrow> \<not> fits req (memory_map a ! i)"
  shows "\<exists>a'. alloc_bytes req a = Return (None, a')"
  using assms
proof (induction req a rule: alloc_bytes.induct)
  case (1 req a)
  show ?case
  proof (cases "map_index a < length (memory_map a)")
    case True
    let ?e = "memory_map a ! map_index a"
    have ok: "entry_ok ?e" and nf: "\<not> fits req ?e"
      using "1.prems" True by auto
    have chk: "assert (e_length ?e mod FRAME_SIZE = 0) = Return ()"
      using ok by (simp add: entry_ok_def FRAME_SIZE_def)
    from nf have "\<not> (e_type ?e = USABLE \<and> e_length ?e \<ge> req)"
      by (simp add: fits_def)
    from "1.IH" [OF True refl chk this] "1.prems" show ?thesis
      by (simp add: alloc_bytes_step [OF ok True] nf)
  qed (subst alloc_bytes.simps, simp)
qed

lemma alloc_bytes_returns_Some:
  assumes "\<forall>e \<in> set (memory_map a). entry_ok e"
    and "map_index a \<le> j" and "j < length (memory_map a)" and "fits req (memory_map a ! j)"
  shows "\<exists>p a'. alloc_bytes req a = Return (Some p, a')"
  using assms
proof (induction req a rule: alloc_bytes.induct)
  case (1 req a)
  let ?e = "memory_map a ! map_index a"
  from "1.prems" have idx: "map_index a < length (memory_map a)" by simp
  with "1.prems" have ok: "entry_ok ?e" by simp
  show ?case
  proof (cases "fits req ?e")
    case True
    then show ?thesis by (simp add: alloc_bytes_step [OF ok idx])
  next
    case False
    then have j: "Suc (map_index a) \<le> j"
      using "1.prems" by (metis Suc_leI le_neq_implies_less)
    have chk: "assert (e_length ?e mod FRAME_SIZE = 0) = Return ()"
      using ok by (simp add: entry_ok_def FRAME_SIZE_def)
    from False have "\<not> (e_type ?e = USABLE \<and> e_length ?e \<ge> req)"
      by (simp add: fits_def)
    from "1.IH" [OF idx refl chk this] "1.prems" j False show ?thesis
      by (simp add: alloc_bytes_step [OF ok idx])
  qed
qed

section \<open>Typing the frames\<close>

primrec type_value :: "EntryType \<Rightarrow> RetypeEntry" where
  "type_value USABLE = mk_entry Untyped 0"
| "type_value BOOTLOADER_RECLAIMABLE = mk_entry Kernel 1"
| "type_value KERNEL_AND_MODULES = mk_entry Kernel 1"
| "type_value (OtherEntryType k) = mk_entry Unavailable 0"

lemma typed_entry_eq: "typed_entry t = Return (type_value t)"
  by (cases t) (simp_all add: entry_untyped_def entry_kernel_def entry_unavailable_def value_for_eq)

text \<open>The value of a frame after all entries have been written in order: the last one wins.\<close>

primrec cover_value :: "Entry list \<Rightarrow> nat \<Rightarrow> RetypeEntry \<Rightarrow> RetypeEntry" where
  "cover_value [] i d = d"
| "cover_value (e # es) i d = cover_value es i (if covers e i then type_value (e_type e) else d)"

lemma length_fill [simp]: "length (fill k n v m) = length m"
  by (simp add: fill_def)

lemma nth_fill: "i < length m \<Longrightarrow> fill k n v m ! i = (if k \<le> i \<and> i < k + n then v else m ! i)"
  by (simp add: fill_def)

lemma type_frames_eq:
  assumes "\<forall>e \<in> set es. entry_ok e"
  shows "\<exists>m'. type_frames es m = Return m' \<and> length m' = length m
    \<and> (\<forall>i < length m. m' ! i = cover_value es i (m ! i))"
  using assms
proof (induction es arbitrary: m)
  case (Cons e es)
  let ?m = "fill (unat (e_base e div FRAME_SIZE)) (unat (e_length e div FRAME_SIZE)) (type_value (e_type e)) m"
  from Cons.IH [of ?m] Cons.prems obtain m' where m': "type_frames es ?m = Return m'"
    "length m' = length m" "\<forall>i < length m. m' ! i = cover_value es i (?m ! i)"
    by auto
  have "?m ! i = (if covers e i then type_value (e_type e) else m ! i)" if "i < length m" for i
    using that by (simp add: nth_fill covers_def first_frame_def end_frame_def FRAME_SIZE_def unat_div)
  with m' Cons.prems show ?case
    by (auto simp: entry_ok_def FRAME_SIZE_def typed_entry_eq)
qed simp

lemma cover_value_none: "\<forall>e \<in> set es. \<not> covers e i \<Longrightarrow> cover_value es i d = d"
  by (induction es arbitrary: d) auto

lemma cover_value_some:
  assumes "\<exists>e \<in> set es. covers e i" and "\<forall>e \<in> set es. covers e i \<longrightarrow> type_value (e_type e) = v"
  shows "cover_value es i d = v"
  using assms
proof (induction es arbitrary: d)
  case (Cons x xs)
  show ?case
  proof (cases "\<exists>y \<in> set xs. covers y i")
    case True
    with Cons show ?thesis by simp
  next
    case False
    with Cons.prems have "covers x i" and "type_value (e_type x) = v" by auto
    with False show ?thesis by (simp add: cover_value_none)
  qed
qed simp

lemma covers_unique:
  assumes "mm_ok mm" and "j < length mm" "k < length mm" and "covers (mm ! j) i" "covers (mm ! k) i"
  shows "j = k"
proof (rule ccontr)
  have less: "\<not> (covers (mm ! a) i \<and> covers (mm ! b) i)" if "a < b" "b < length mm" for a b
    using that assms(1) sorted_wrt_nth_less [of _ mm a b] by (fastforce simp: mm_ok_def covers_def)
  assume "j \<noteq> k"
  then show False
    using less [of j k] less [of k j] assms by (meson linorder_neqE_nat)
qed

lemma end_frame_le_last:
  assumes "mm_ok mm" and "j < length mm"
  shows "end_frame (mm ! j) \<le> end_frame (last mm)"
proof (cases "j = length mm - 1")
  case True
  with assms(2) show ?thesis
    by (cases mm rule: rev_cases) auto
next
  case False
  then have "end_frame (mm ! j) \<le> first_frame (mm ! (length mm - 1))"
    using assms sorted_wrt_nth_less [of "\<lambda>e e'. end_frame e \<le> first_frame e'" mm j "length mm - 1"]
    by (simp add: mm_ok_def)
  also have "mm ! (length mm - 1) = last mm"
    using assms(2) by (cases mm rule: rev_cases) auto
  also have "first_frame (last mm) \<le> end_frame (last mm)"
    by (simp add: first_frame_def end_frame_def)
  finally show ?thesis .
qed

lemma take_front_frames:
  assumes "entry_ok e" and "req mod 4096 = 0" and "req \<le> e_length e"
  shows "entry_ok (take_front req e)" and "first_frame (take_front req e) = first_frame e + unat req div 4096"
    and "end_frame (take_front req e) = end_frame e" and "first_frame e + unat req div 4096 \<le> end_frame e"
    and "e_type (take_front req e) = e_type e"
proof -
  define n where "n = unat req div 4096"
  have req: "unat req = 4096 * n"
    using assms(2) mult_div_mod_eq [of 4096 "unat req"] by (simp add: word_mod_4096_iff n_def)
  have le: "unat req \<le> unat (e_length e)"
    using assms(3) by (simp add: word_le_nat_alt)
  have b: "unat (e_base e + req) = unat (e_base e) + unat req"
    using assms(1) le by (intro unat_add_lem [THEN iffD1]) (simp add: entry_ok_def)
  have l: "unat (e_length e - req) = unat (e_length e) - unat req"
    using assms(3) by (rule unat_sub_le)
  note e = entry_ok_unat [OF assms(1)]
  obtain f h where f: "first_frame e = f" and h: "end_frame e - first_frame e = h" by simp
  with le e have n: "n \<le> h" "end_frame e = f + h" "unat (e_base e) = 4096 * f" "unat (e_length e) = 4096 * h"
    by (simp_all add: req)
  have b': "unat (e_base e + req) = 4096 * (f + n)" and l': "unat (e_length e - req) = 4096 * (h - n)"
    using n b l req by simp_all
  have sum: "4096 * (f + n) + 4096 * (h - n) = 4096 * f + 4096 * h"
    using n(1) by simp
  show "entry_ok (take_front req e)"
    using assms(1) sum unfolding entry_ok_def take_front_def word_mod_4096_iff
    by (simp add: b' l' n)
  show "first_frame (take_front req e) = first_frame e + unat req div 4096"
    by (subst first_frame_def) (simp add: take_front_def b' f req)
  show "first_frame e + unat req div 4096 \<le> end_frame e"
    using n by (simp add: req f)
  show "end_frame (take_front req e) = end_frame e"
    using n by (subst end_frame_def) (simp add: take_front_def b' l')
  show "e_type (take_front req e) = e_type e"
    by (simp add: take_front_def)
qed

lemma alloc_frames_Some:
  assumes "alloc_frames n a = Return (Some p, a')"
  shows "\<exists>j < length (memory_map a). fits (n * 4096) (memory_map a ! j)
    \<and> p = PhysAddr (e_base (memory_map a ! j)) \<and> unat (n * 4096) = unat n * 4096
    \<and> memory_map a' = (memory_map a)[j := take_front (n * 4096) (memory_map a ! j)]"
proof -
  from assms have *: "alloc_bytes (n * 4096) a = Return (Some p, a')" "unat n * 4096 < 2 ^ 64"
    by (auto simp: alloc_frames_def FRAME_SIZE_def mul_chk_def bindR_eq_Return split: if_splits)
  have "unat (n * 4096) = unat n * 4096"
    using *(2) unat_mult_lem [of n "4096 :: 64 word"] by simp
  with alloc_bytes_Some [OF *(1)] show ?thesis
    by fastforce
qed

lemma take_front_map:
  assumes ok: "mm_ok mm" and j: "j < length mm" and req: "req mod 4096 = 0" "req \<le> e_length (mm ! j)"
  defines "mm' \<equiv> mm[j := take_front req (mm ! j)]"
  shows "mm_ok mm'" and "k < length mm \<Longrightarrow> covers (mm' ! k) i \<longleftrightarrow>
      covers (mm ! k) i \<and> \<not> (first_frame (mm ! j) \<le> i \<and> i < first_frame (mm ! j) + unat req div 4096)"
proof -
  have e: "entry_ok (mm ! j)"
    using ok j by (simp add: mm_ok_def)
  note t = take_front_frames [OF e req]
  have "sorted_wrt (\<lambda>e e'. end_frame e \<le> first_frame e') mm'"
    using ok j t(2,3) unfolding mm_ok_def sorted_wrt_iff_nth_less mm'_def
    by (auto simp: nth_list_update intro: le_trans [OF _ le_add1])
  moreover have "\<forall>e \<in> set mm'. entry_ok e"
    using ok t(1) set_update_subset_insert [of mm j] by (auto simp: mm_ok_def mm'_def)
  ultimately show "mm_ok mm'"
    by (simp add: mm_ok_def)
  assume k: "k < length mm"
  have "covers (mm ! j) i" if "first_frame (mm ! j) \<le> i" "i < first_frame (mm ! j) + unat req div 4096"
    using that t(4) by (simp add: covers_def)
  then have "k = j" if "covers (mm ! k) i" "first_frame (mm ! j) \<le> i" "i < first_frame (mm ! j) + unat req div 4096"
    using that covers_unique [OF ok k j] by simp
  then show "covers (mm' ! k) i \<longleftrightarrow>
      covers (mm ! k) i \<and> \<not> (first_frame (mm ! j) \<le> i \<and> i < first_frame (mm ! j) + unat req div 4096)"
    using j k t(2,3) by (cases "k = j") (auto simp: mm'_def covers_def)
qed

lemma take_front_ex_covers:
  assumes "mm_ok mm" and "j < length mm" and "req mod 4096 = 0" "req \<le> e_length (mm ! j)"
  shows "(\<exists>e \<in> set (mm[j := take_front req (mm ! j)]). covers e i) \<longleftrightarrow> (\<exists>e \<in> set mm. covers e i)
    \<and> \<not> (first_frame (mm ! j) \<le> i \<and> i < first_frame (mm ! j) + unat req div 4096)"
proof -
  have "(\<exists>e \<in> set (mm[j := take_front req (mm ! j)]). covers e i) \<longleftrightarrow>
      (\<exists>k < length mm. covers (mm[j := take_front req (mm ! j)] ! k) i)"
    by (metis in_set_conv_nth length_list_update)
  moreover have "(\<exists>e \<in> set mm. covers e i) \<longleftrightarrow> (\<exists>k < length mm. covers (mm ! k) i)"
    by (metis in_set_conv_nth)
  ultimately show ?thesis
    using take_front_map(2) [OF assms] by auto
qed

lemma cover_value_after_take:
  assumes "mm_ok mm" and "j < length mm" and "req mod 4096 = 0" "req \<le> e_length (mm ! j)"
  shows "if first_frame (mm ! j) \<le> i \<and> i < first_frame (mm ! j) + unat req div 4096
     then cover_value (mm[j := take_front req (mm ! j)]) i u = u
     else (\<forall>e \<in> set mm. covers e i \<longrightarrow>
             cover_value (mm[j := take_front req (mm ! j)]) i u = type_value (e_type e))
        \<and> ((\<forall>e \<in> set mm. \<not> covers e i) \<longrightarrow> cover_value (mm[j := take_front req (mm ! j)]) i u = u)"
    (is "if ?taken then _ else _")
proof (cases "?taken \<or> (\<forall>e \<in> set mm. \<not> covers e i)")
  case True
  then have "\<forall>e \<in> set (mm[j := take_front req (mm ! j)]). \<not> covers e i"
    using take_front_ex_covers [OF assms] by blast
  with True show ?thesis
    by (auto simp: cover_value_none)
next
  case False
  then obtain k where k: "k < length mm" "covers (mm ! k) i" and out: "\<not> ?taken"
    by (metis in_set_conv_nth)
  let ?mm = "mm[j := take_front req (mm ! j)]"
  have uniq: "e_type e = e_type (mm ! k)" if "e \<in> set mm" "covers e i" for e
    using that covers_unique [OF assms(1) k(1) _ k(2)] by (metis in_set_conv_nth)
  have "e_type e = e_type (mm ! k)" if "e \<in> set ?mm" "covers e i" for e
  proof -
    from that obtain l where l: "l < length mm" "e = ?mm ! l" by (auto simp: in_set_conv_nth)
    with that have "covers (mm ! l) i"
      using take_front_map(2) [OF assms l(1)] by blast
    then have "l = k"
      using covers_unique [OF assms(1) l(1) k(1)] k(2) by blast
    with l show ?thesis by (cases "j = k") (simp_all add: take_front_def)
  qed
  moreover have "\<exists>e \<in> set ?mm. covers e i"
    using take_front_ex_covers [OF assms] False by blast
  ultimately have "cover_value ?mm i u = type_value (e_type (mm ! k))"
    by (intro cover_value_some) auto
  with out uniq k show ?thesis
    by (metis nth_mem)
qed

lemma table_frames_enough:
  assumes "0 < n" and "2 * unat n < 2 ^ 64"
  shows "unat ((2 * (n :: u64) - 1) div 4096 + 1) = (2 * unat n - 1) div 4096 + 1"
    and "2 * unat n \<le> 4096 * unat ((2 * n - 1) div 4096 + 1)"
proof -
  have two: "unat (2 * n) = 2 * unat n"
    using assms(2) unat_mult_lem [of 2 n] by simp
  have pos: "0 < unat n"
    using assms(1) by (simp add: word_less_nat_alt)
  then have "unat (2 * n - 1) = 2 * unat n - 1"
    using unat_sub_le [of 1 "2 * n"] two by (simp add: word_le_nat_alt)
  then have d: "unat ((2 * n - 1) div 4096) = (2 * unat n - 1) div 4096"
    by (simp add: unat_div)
  have "(2 * unat n - 1) div 4096 + 1 < 2 ^ 64"
    using assms(2) by (simp add: less_mult_imp_div_less)
  then show frames: "unat ((2 * n - 1) div 4096 + 1) = (2 * unat n - 1) div 4096 + 1"
    using d unat_add_lem [of "(2 * n - 1) div 4096" 1] by simp
  have "2 * unat n - 1 < 4096 * ((2 * unat n - 1) div 4096 + 1)"
    by (metis Suc_eq_plus1 dividend_less_times_div zero_less_numeral mult_Suc_right add.commute)
  then show "2 * unat n \<le> 4096 * unat ((2 * n - 1) div 4096 + 1)"
    unfolding frames by simp
qed

lemma RetypeTable_new_Some:
  assumes "RetypeTable_new pmo mm = Return (Some t)"
  shows "\<exists>n p a' m. mm \<noteq> []
    \<and> 2 * unat ((e_base (last mm) + e_length (last mm)) div 4096) \<le> 4096 * unat n
    \<and> alloc_frames n (BootAllocator_new mm) = Return (Some p, a')
    \<and> type_frames (memory_map a')
        (replicate (unat ((e_base (last mm) + e_length (last mm)) div 4096)) (mk_entry Unavailable 0)) = Return m
    \<and> t = \<lparr>retype_map = m\<rparr>"
proof -
  let ?top = "(e_base (last mm) + e_length (last mm)) div 4096"
  let ?n = "(2 * ?top - 1) div 4096 + 1"
  from assms obtain p a' m where *: "mm \<noteq> []" "2 * unat ?top < 2 ^ 64" "2 * ?top > 0"
    "alloc_frames ?n (BootAllocator_new mm) = Return (Some p, a')"
    "type_frames (memory_map a') (replicate (unat ?top) (mk_entry Unavailable 0)) = Return m"
    "t = \<lparr>retype_map = m\<rparr>"
    by (auto simp: RetypeTable_new_def bindR_eq_Return add_chk_def mul_chk_def FRAME_SIZE_def PAGE_SIZE_def Let_def
        entry_unavailable_def value_for_eq
        split: if_splits option.splits)
  have "?top > 0"
    using *(3) by (metis mult_zero_right word_not_simps(1) word_neq_0_conv)
  from table_frames_enough(2) [OF this *(2)] * show ?thesis
    by blast
qed

section \<open>Properties\<close>

text \<open>
  An allocation at boot takes memory from the front of one usable entry of the memory map and
  removes exactly those frames from the map: the remaining map is well-formed, covers every other
  frame it covered before, and covers none of the allocated frames, so no later allocation can
  overlap this one.
\<close>

lemma boot_allocations_never_overlap:
  assumes "mm_ok (memory_map a)" and "alloc_frames n a = Return (Some p, a')"
  shows "mm_ok (memory_map a') \<and> as_u64 p mod 4096 = 0
    \<and> (\<exists>e \<in> set (memory_map a). e_type e = USABLE \<and> unat (as_u64 p) div 4096 = first_frame e
        \<and> first_frame e + unat n \<le> end_frame e)
    \<and> (\<forall>i. (\<exists>e \<in> set (memory_map a'). covers e i) \<longleftrightarrow>
        (\<exists>e \<in> set (memory_map a). covers e i)
        \<and> \<not> (unat (as_u64 p) div 4096 \<le> i \<and> i < unat (as_u64 p) div 4096 + unat n))"
proof -
  from alloc_frames_Some [OF assms(2)] obtain j where j: "j < length (memory_map a)"
    "fits (n * 4096) (memory_map a ! j)" "p = PhysAddr (e_base (memory_map a ! j))"
    "unat (n * 4096) = unat n * 4096" "memory_map a' = (memory_map a)[j := take_front (n * 4096) (memory_map a ! j)]"
    by blast
  let ?e = "memory_map a ! j"
  have ok: "entry_ok ?e" and req: "n * 4096 mod 4096 = 0" "n * 4096 \<le> e_length ?e"
    using assms(1) j(1,2,4) by (simp_all add: mm_ok_def fits_def word_mod_4096_iff)
  have p: "unat (as_u64 p) div 4096 = first_frame ?e"
    by (simp add: j(3) first_frame_def)
  have "\<exists>e \<in> set (memory_map a). e_type e = USABLE \<and> unat (as_u64 p) div 4096 = first_frame e
        \<and> first_frame e + unat n \<le> end_frame e"
    using take_front_frames(4) [OF ok req] j(1,2,4) p by (intro bexI [of _ ?e]) (auto simp: fits_def)
  moreover have "as_u64 p mod 4096 = 0"
    using ok by (simp add: j(3) entry_ok_def)
  ultimately show ?thesis
    using take_front_map(1) [OF assms(1) j(1) req] take_front_ex_covers [OF assms(1) j(1) req]
    unfolding j(5) by (simp add: p j(4))
qed

lemma boot_top:
  assumes "mm_ok mm" and "mm \<noteq> []"
  shows "unat (e_base (last mm)) + unat (e_length (last mm)) < 2 ^ 52"
    and "unat ((e_base (last mm) + e_length (last mm)) div 4096) = end_frame (last mm)"
    and "(e_base (last mm) + e_length (last mm)) mod 4096 = 0"
proof -
  let ?e = "last mm"
  have ok: "entry_ok ?e"
    using assms by (simp add: mm_ok_def)
  then show lt: "unat (e_base ?e) + unat (e_length ?e) < 2 ^ 52"
    by (simp add: entry_ok_def)
  then have "unat (e_base ?e + e_length ?e) = unat (e_base ?e) + unat (e_length ?e)"
    by (intro unat_add_lem [THEN iffD1]) simp
  then have sum: "unat (e_base ?e + e_length ?e) = 4096 * end_frame ?e"
    using entry_ok_unat [OF ok] by simp
  then show "unat ((e_base ?e + e_length ?e) div 4096) = end_frame ?e"
    by (simp add: unat_div)
  show "(e_base ?e + e_length ?e) mod 4096 = 0"
    by (simp add: word_mod_4096_iff sum)
qed

text \<open>A small memory map: two usable regions around the kernel's image, and a reserved one.\<close>

definition sample_map :: "Entry list" where
  "sample_map =
     [\<lparr>e_base = 0x1000, e_length = 0x3000, e_type = USABLE\<rparr>,
      \<lparr>e_base = 0x4000, e_length = 0x1000, e_type = KERNEL_AND_MODULES\<rparr>,
      \<lparr>e_base = 0x6000, e_length = 0x1000, e_type = OtherEntryType 1\<rparr>,
      \<lparr>e_base = 0x7000, e_length = 0x1000, e_type = USABLE\<rparr>]"

lemma sample_map_ok: "mm_ok sample_map"
  by (simp add: mm_ok_def sample_map_def entry_ok_def first_frame_def end_frame_def)

lemma new_table_types:
  assumes "mm_ok mm" and "RetypeTable_new pmo mm = Return (Some t)"
  shows "length (retype_map t) = end_frame (last mm)
    \<and> (\<exists>r \<in> set mm. \<exists>n. e_type r = USABLE \<and> first_frame r + n \<le> end_frame r
        \<and> 2 * length (retype_map t) \<le> 4096 * n
        \<and> (\<forall>i < length (retype_map t). if first_frame r \<le> i \<and> i < first_frame r + n
             then retype_map t ! i = mk_entry Unavailable 0
             else (\<forall>e \<in> set mm. covers e i \<longrightarrow> retype_map t ! i = type_value (e_type e))
               \<and> ((\<forall>e \<in> set mm. \<not> covers e i) \<longrightarrow> retype_map t ! i = mk_entry Unavailable 0)))"
proof -
  let ?top = "(e_base (last mm) + e_length (last mm)) div 4096"
  from RetypeTable_new_Some [OF assms(2)] obtain n p a' m where new: "mm \<noteq> []"
    "2 * unat ?top \<le> 4096 * unat n" "alloc_frames n (BootAllocator_new mm) = Return (Some p, a')"
    "type_frames (memory_map a') (replicate (unat ?top) (mk_entry Unavailable 0)) = Return m"
    "t = \<lparr>retype_map = m\<rparr>" by blast
  from alloc_frames_Some [OF new(3)] obtain j where j: "j < length mm"
    "fits (n * 4096) (mm ! j)" "unat (n * 4096) = unat n * 4096"
    "memory_map a' = mm[j := take_front (n * 4096) (mm ! j)]"
    by (auto simp: BootAllocator_new_def)
  let ?r = "mm ! j"
  have ok: "entry_ok ?r" and req: "n * 4096 mod 4096 = 0" "n * 4096 \<le> e_length ?r"
    using assms(1) j(1,2,3) by (simp_all add: mm_ok_def fits_def word_mod_4096_iff)
  note top = boot_top [OF assms(1) new(1)] and map' = take_front_map [OF assms(1) j(1) req]
  have "\<forall>e \<in> set (memory_map a'). entry_ok e"
    using map'(1) unfolding j(4) mm_ok_def by blast
  from type_frames_eq [OF this, of "replicate (end_frame (last mm)) (mk_entry Unavailable 0)"]
  have m: "length m = end_frame (last mm)"
    "\<forall>i < end_frame (last mm). m ! i = cover_value (memory_map a') i (mk_entry Unavailable 0)"
    using new(4) [unfolded top(2)] by auto
  note cases = cover_value_after_take [OF assms(1) j(1) req, of _ "mk_entry Unavailable 0", folded j(4), unfolded j(3)]
  show ?thesis
    using j(1,2) cases new(2) m take_front_frames(4) [OF ok req]
    by (intro conjI bexI [of _ ?r] exI [of _ "unat n"]) (simp_all add: new(5) fits_def j(3) top(2))
qed

text \<open>
  C4. The table built from the memory map has one entry for every frame up to the end of the last
  region. The frames that hold the table itself are unavailable: they are the first frames of a
  usable region and there are enough of them for two bytes per frame. Every other frame has the
  type of the region that covers it (usable memory is untyped, reclaimable bootloader memory and
  the kernel's image are kernel frames with one reference), and frames in no region are
  unavailable.
\<close>

theorem new_table_types_every_frame:
  assumes "mm_ok mm" and "RetypeTable_new pmo mm = Return (Some t)"
  shows "length (retype_map t) = end_frame (last mm)
    \<and> (\<exists>r \<in> set mm. \<exists>n. e_type r = USABLE \<and> first_frame r + n \<le> end_frame r
        \<and> 2 * length (retype_map t) \<le> 4096 * n
        \<and> (\<forall>i < length (retype_map t). if first_frame r \<le> i \<and> i < first_frame r + n
             then retype_map t ! i = mk_entry Unavailable 0
             else (\<forall>e \<in> set mm. covers e i \<longrightarrow> retype_map t ! i = type_value (e_type e))
               \<and> ((\<forall>e \<in> set mm. \<not> covers e i) \<longrightarrow> retype_map t ! i = mk_entry Unavailable 0)))"
  using assms by (rule new_table_types)

theorem new_table_types_every_frame_witness:
  "\<exists>t. RetypeTable_new (VirtAddr 0xFFFF800000000000) sample_map = Return (Some t)
     \<and> length (retype_map t) = 8"
proof -
  have rep: "replicate 8 x = [x, x, x, x, x, x, x, x]" for x :: RetypeEntry
    by (simp add: eval_nat_numeral)
  have "RetypeTable_new (VirtAddr 0xFFFF800000000000) sample_map = Return (Some \<lparr>retype_map =
      [mk_entry Unavailable 0, mk_entry Unavailable 0, mk_entry Untyped 0, mk_entry Untyped 0,
       mk_entry Kernel 1, mk_entry Unavailable 0, mk_entry Unavailable 0, mk_entry Untyped 0]\<rparr>)"
    by (simp add: RetypeTable_new_def alloc_frames_def alloc_bytes.simps BootAllocator_new_def sample_map_def
        mul_chk_def add_chk_def sub_chk_def FRAME_SIZE_def PAGE_SIZE_def PhysAddr_new_eq to_virtual_eq pmo_ok_def
        typed_entry_eq entry_unavailable_def value_for_eq fill_def rep)
  from this new_table_types_every_frame [OF sample_map_ok this] show ?thesis
    by simp
qed

lemma fits_table_iff:
  assumes "entry_ok e" and "0 < n" and "n < 2 ^ 40" and "unat k = (2 * n - 1) div 4096 + 1"
  shows "unat k * 4096 < 2 ^ 64"
    and "fits (k * 4096) e \<longleftrightarrow> e_type e = USABLE \<and> 2 * n \<le> 4096 * (end_frame e - first_frame e)"
proof -
  have "(2 * n - 1) div 4096 \<le> 2 * n - 1"
    by (rule div_le_dividend)
  then show lt: "unat k * 4096 < 2 ^ 64"
    using assms(3,4) by simp
  then have "unat (k * 4096) = unat k * 4096"
    using unat_mult_lem [of k "4096 :: u64"] by simp
  then have "k * 4096 \<le> e_length e \<longleftrightarrow> (2 * n - 1) div 4096 < end_frame e - first_frame e"
    unfolding word_le_nat_alt entry_ok_unat(2) [OF assms(1)] assms(4) by auto
  also have "\<dots> \<longleftrightarrow> 2 * n - 1 < (end_frame e - first_frame e) * 4096"
    by (simp add: div_less_iff_less_mult)
  also have "\<dots> \<longleftrightarrow> 2 * n \<le> 4096 * (end_frame e - first_frame e)"
    using assms(2) by auto
  finally show "fits (k * 4096) e \<longleftrightarrow> e_type e = USABLE \<and> 2 * n \<le> 4096 * (end_frame e - first_frame e)"
    by (simp add: fits_def)
qed

lemma RetypeTable_new_eq:
  assumes "mm_ok mm" and "mm \<noteq> []" and "0 < end_frame (last mm)"
  shows "\<exists>n. unat n = (2 * end_frame (last mm) - 1) div 4096 + 1
    \<and> RetypeTable_new pmo mm = bindR (alloc_bytes (n * 4096) (BootAllocator_new mm)) (\<lambda>(start, allocator).
        case start of
          None \<Rightarrow> Return None
        | Some start_physical_address \<Rightarrow>
            bindR (to_virtual pmo start_physical_address) (\<lambda>_.
            bindR (type_frames (memory_map allocator) (replicate (end_frame (last mm)) (mk_entry Unavailable 0)))
              (\<lambda>m. Return (Some \<lparr>retype_map = m\<rparr>))))"
proof -
  let ?top = "(e_base (last mm) + e_length (last mm)) div 4096"
  note top = boot_top [OF assms(1,2)]
  have ok: "entry_ok (last mm)" and lim: "end_frame (last mm) < 2 ^ 40"
    using assms(1,2) entry_ok_unat(4) by (auto simp: mm_ok_def)
  have "0 < ?top" and lt: "2 * unat ?top < 2 ^ 64"
    using assms(3) lim top(2) by (auto simp: word_less_nat_alt)
  from table_frames_enough(1) [OF this] obtain n where n: "n = (2 * ?top - 1) div 4096 + 1"
    "unat n = (2 * end_frame (last mm) - 1) div 4096 + 1" by (simp add: top(2))
  have pos: "0 < 2 * ?top"
    using \<open>0 < ?top\<close> lt unat_mult_lem [of 2 ?top] by (simp add: word_less_nat_alt)
  have "unat n * 4096 < 2 ^ 64"
    by (rule fits_table_iff(1) [OF ok assms(3) lim n(2)])
  then have "alloc_frames n a = alloc_bytes (n * 4096) a" for a
    by (simp add: alloc_frames_def mul_chk_def FRAME_SIZE_def)
  then have "RetypeTable_new pmo mm = bindR (alloc_bytes (n * 4096) (BootAllocator_new mm)) (\<lambda>(start, allocator).
        case start of
          None \<Rightarrow> Return None
        | Some start_physical_address \<Rightarrow>
            bindR (to_virtual pmo start_physical_address) (\<lambda>_.
            bindR (type_frames (memory_map allocator) (replicate (end_frame (last mm)) (mk_entry Unavailable 0)))
              (\<lambda>m. Return (Some \<lparr>retype_map = m\<rparr>))))"
    using top assms(2) pos lt
    by (simp add: RetypeTable_new_def add_chk_def mul_chk_def FRAME_SIZE_def PAGE_SIZE_def Let_def n(1)
        entry_unavailable_def value_for_eq cong: option.case_cong)
  with n(2) show ?thesis by blast
qed

lemma table_alloc_usable:
  assumes "mm_ok mm" and "alloc_bytes req (BootAllocator_new mm) = Return (Some p, a')" and "req mod 4096 = 0"
    and "pmo_ok pmo" and "unat (as_usize pmo) + 4096 * end_frame (last mm) < 2 ^ 64"
  shows "\<exists>v m'. to_virtual pmo p = Return v \<and> type_frames (memory_map a') m = Return m'"
proof -
  from alloc_bytes_Some [OF assms(2)] obtain j where j: "j < length mm" "fits req (mm ! j)"
    "p = PhysAddr (e_base (mm ! j))" "memory_map a' = mm[j := take_front req (mm ! j)]"
    by (auto simp: BootAllocator_new_def)
  have "mm_ok (memory_map a')"
    using take_front_map(1) [OF assms(1) j(1) assms(3)] j by (simp add: fits_def)
  then obtain m' where "type_frames (memory_map a') m = Return m'"
    using type_frames_eq [of "memory_map a'" m] by (auto simp: mm_ok_def)
  moreover have "entry_ok (mm ! j)"
    using assms(1) j(1) by (simp add: mm_ok_def)
  then have "unat (as_u64 p) \<le> 4096 * end_frame (last mm)"
    using end_frame_le_last [OF assms(1) j(1)] entry_ok_unat [of "mm ! j"] by (simp add: j(3))
  then have "to_virtual pmo p = Return (VirtAddr (as_usize pmo + as_u64 p))"
    using assms(5) by (subst to_virtual_eq [OF assms(4)]) simp
  ultimately show ?thesis by blast
qed

lemma new_table_exists:
  assumes "mm_ok mm" and "mm \<noteq> []" and "0 < end_frame (last mm)"
    and "pmo_ok pmo" and "unat (as_usize pmo) + 4096 * end_frame (last mm) < 2 ^ 64"
  shows "if \<exists>e \<in> set mm. e_type e = USABLE \<and> 2 * end_frame (last mm) \<le> 4096 * (end_frame e - first_frame e)
    then \<exists>t. RetypeTable_new pmo mm = Return (Some t) else RetypeTable_new pmo mm = Return None"
    (is "if ?some then _ else _")
proof -
  have ok: "\<forall>e \<in> set mm. entry_ok e" and lim: "end_frame (last mm) < 2 ^ 40"
    using assms(1,2) entry_ok_unat(4) by (auto simp: mm_ok_def)
  from RetypeTable_new_eq [OF assms(1-3)] obtain n where n: "unat n = (2 * end_frame (last mm) - 1) div 4096 + 1"
    and new: "RetypeTable_new pmo mm = bindR (alloc_bytes (n * 4096) (BootAllocator_new mm)) (\<lambda>(start, allocator).
        case start of
          None \<Rightarrow> Return None
        | Some start_physical_address \<Rightarrow>
            bindR (to_virtual pmo start_physical_address) (\<lambda>_.
            bindR (type_frames (memory_map allocator) (replicate (end_frame (last mm)) (mk_entry Unavailable 0)))
              (\<lambda>m. Return (Some \<lparr>retype_map = m\<rparr>))))" by blast
  note fit = fits_table_iff [OF _ assms(3) lim n]
  show ?thesis
  proof (cases ?some)
    case False
    then have "\<forall>i < length mm. \<not> fits (n * 4096) (mm ! i)"
      using fit(2) ok nth_mem by blast
    with alloc_bytes_None [of "BootAllocator_new mm" "n * 4096"] ok obtain a' where
      "alloc_bytes (n * 4096) (BootAllocator_new mm) = Return (None, a')"
      by (auto simp: BootAllocator_new_def)
    with False show ?thesis
      unfolding new by simp
  next
    case True
    then obtain j where "j < length mm" "fits (n * 4096) (mm ! j)"
      using fit(2) ok by (metis in_set_conv_nth)
    with alloc_bytes_returns_Some [of "BootAllocator_new mm" j "n * 4096"] ok
    obtain p a' where a': "alloc_bytes (n * 4096) (BootAllocator_new mm) = Return (Some p, a')"
      by (auto simp: BootAllocator_new_def)
    have "unat n * 4096 < 2 ^ 64"
      using fit(1) ok last_in_set [OF assms(2)] by blast
    then have "unat (n * 4096) = unat n * 4096"
      using unat_mult_lem [of n "4096 :: u64"] by simp
    then have "n * 4096 mod 4096 = 0"
      by (simp add: word_mod_4096_iff)
    from table_alloc_usable [OF assms(1) a' this assms(4,5)] obtain v m' where "to_virtual pmo p = Return v"
      "type_frames (memory_map a') (replicate (end_frame (last mm)) (mk_entry Unavailable 0)) = Return m'"
      by blast
    with a' have "RetypeTable_new pmo mm = Return (Some \<lparr>retype_map = m'\<rparr>)"
      by (simp add: new)
    with True show ?thesis by auto
  qed
qed

text \<open>
  C34. Building the table never panics on a well-formed memory map that the direct map covers: the
  table is built exactly when some usable region is large enough for two bytes per frame, and
  otherwise the result is \<open>None\<close>.
\<close>

theorem new_table_exists_iff_it_fits:
  assumes "mm_ok mm" and "mm \<noteq> []" and "0 < end_frame (last mm)"
    and "pmo_ok pmo" and "unat (as_usize pmo) + 4096 * end_frame (last mm) < 2 ^ 64"
  shows "if \<exists>e \<in> set mm. e_type e = USABLE \<and> 2 * end_frame (last mm) \<le> 4096 * (end_frame e - first_frame e)
    then \<exists>t. RetypeTable_new pmo mm = Return (Some t) else RetypeTable_new pmo mm = Return None"
  using assms by (rule new_table_exists)

theorem new_table_exists_iff_it_fits_witness:
  "\<exists>t. RetypeTable_new (VirtAddr 0xFFFF800000000000) sample_map = Return (Some t)"
  using new_table_exists_iff_it_fits [OF sample_map_ok, of "VirtAddr 0xFFFF800000000000"]
  by (simp add: sample_map_def first_frame_def end_frame_def pmo_ok_def)

end
