(* ===== verification/Bump.thy ===== *)
theory Bump
  imports Prelude Paging Cells Retype_Entry Retyping
begin

text \<open>
  The kernel's frame allocator (\<open>kernel/src/bump_allocator.rs\<close>): it walks the physical frames
  upwards from its index and asks the retype table for each of them until one can be had.

  The three methods run the same loop and differ in the operation they try on a frame;
  \<open>bump_loop\<close> is that loop with the operation as an argument. It ends because \<open>PhysAddr::new\<close>
  panics at \<open>2^52\<close>, long before the index wraps around. The locale \<open>frame_source\<close> states what the
  loop relies on, and its lemma \<open>loop_eq\<close> says which frame is found; it is interpreted for each
  of the three operations.
\<close>

section \<open>Definitions\<close>

record BumpAllocator =
  bump_index :: u64

definition BumpAllocator_new :: BumpAllocator where
  "BumpAllocator_new = \<lparr>bump_index = 0\<rparr>"

text \<open>What trying a frame tells the loop: the frame is taken, the frame does not exist, or go on.\<close>

datatype 'h attempt = Got 'h | NoSuchFrame | Skip

function bump_loop ::
    "(RawFrame \<Rightarrow> 'g \<Rightarrow> ('h attempt \<times> 'g) run) \<Rightarrow> BumpAllocator \<Rightarrow> 'g \<Rightarrow> ('h option \<times> BumpAllocator \<times> 'g) run" where
  "bump_loop attempt a g =
     bindR (mul_chk FRAME_SIZE (bump_index a)) (\<lambda>x.
     bindR (PhysAddr_new x) (\<lambda>p.
     bindR (RawFrame_from_start_address p) (\<lambda>frame.
     bindR (attempt frame g) (\<lambda>(r, g).
     case r of
       Got h \<Rightarrow> Return (Some h, a, g)
     | NoSuchFrame \<Rightarrow> Return (None, a, g)
     | Skip \<Rightarrow> bindR (add_chk (bump_index a) 1) (\<lambda>i. bump_loop attempt (a\<lparr>bump_index := i\<rparr>) g)))))"
  by pat_completeness auto

definition user_attempt :: "RawFrame \<Rightarrow> retype_global \<Rightarrow> (UserFrame attempt \<times> retype_global) run" where
  "user_attempt f g = bindR (try_into_user f g) (\<lambda>(r, g). Return (case r of
     Ok u \<Rightarrow> Got u | Err RetypeOutOfBounds \<Rightarrow> NoSuchFrame | Err _ \<Rightarrow> Skip, g))"

definition untyped_attempt :: "RawFrame \<Rightarrow> retype_global \<Rightarrow> (RawFrame attempt \<times> retype_global) run" where
  "untyped_attempt f g = bindR (try_as_untyped f g) (\<lambda>(r, g). Return (case r of
     Ok u \<Rightarrow> Got u | Err AsTypeOutOfBounds \<Rightarrow> NoSuchFrame | Err _ \<Rightarrow> Skip, g))"

definition kernel_attempt :: "RawFrame \<Rightarrow> retype_global \<Rightarrow> (KernelFrame attempt \<times> retype_global) run" where
  "kernel_attempt f g = bindR (try_into_kernel f g) (\<lambda>(r, g). Return (case r of
     Ok k \<Rightarrow> Got k | Err RetypeOutOfBounds \<Rightarrow> NoSuchFrame | Err _ \<Rightarrow> Skip, g))"

termination bump_loop
proof (relation "measure (\<lambda>(_, a, _). 2 ^ 40 - unat (bump_index a))", simp)
  fix a :: BumpAllocator and x p i
  assume "mul_chk FRAME_SIZE (bump_index a) = Return x" and "PhysAddr_new x = Return p"
    and "add_chk (bump_index a) 1 = Return i"
  then have "4096 * unat (bump_index a) < 2 ^ 52" and "unat i = Suc (unat (bump_index a))"
    by (auto simp: mul_chk_eq_Return add_chk_eq_Return PhysAddr_new_eq FRAME_SIZE_def split: if_splits)
  then show "((attempt, a\<lparr>bump_index := i\<rparr>, g'), attempt, a, g)
      \<in> measure (\<lambda>(_, a, _). 2 ^ 40 - unat (bump_index a))" for attempt :: "RawFrame \<Rightarrow> 'g \<Rightarrow> ('h attempt \<times> 'g) run" and g g'
    by simp
qed

definition alloc_user_frame ::
    "BumpAllocator \<Rightarrow> retype_global \<Rightarrow> (UserFrame option \<times> BumpAllocator \<times> retype_global) run" where
  "alloc_user_frame = bump_loop user_attempt"

definition alloc_untyped_frame ::
    "BumpAllocator \<Rightarrow> retype_global \<Rightarrow> (RawFrame option \<times> BumpAllocator \<times> retype_global) run" where
  "alloc_untyped_frame = bump_loop untyped_attempt"

definition alloc_kernel_frame ::
    "BumpAllocator \<Rightarrow> retype_global \<Rightarrow> (KernelFrame option \<times> BumpAllocator \<times> retype_global) run" where
  "alloc_kernel_frame = bump_loop kernel_attempt"

declare bump_loop.simps [simp del]

section \<open>Which frame the loop finds\<close>

definition frame_no :: "nat \<Rightarrow> RawFrame" where
  "frame_no i = RawFrame (PhysAddr (of_nat (4096 * i)))"

definition first_from :: "('e \<Rightarrow> bool) \<Rightarrow> nat \<Rightarrow> 'e list \<Rightarrow> nat option" where
  "first_from P n xs = find (\<lambda>i. P (xs ! i)) [n..<length xs]"

lemma first_from_Some_iff:
  "first_from P n xs = Some i \<longleftrightarrow>
     n \<le> i \<and> i < length xs \<and> P (xs ! i) \<and> (\<forall>j. n \<le> j \<and> j < i \<longrightarrow> \<not> P (xs ! j))"
proof (cases "n \<le> length xs")
  case True
  then show ?thesis
    unfolding first_from_def find_Some_iff
    by (auto, metis add.commute le_Suc_ex less_diff_conv nat_add_left_cancel_less, rule_tac x = "i - n" in exI, auto)
next
  case False
  then show ?thesis
    by (simp add: first_from_def)
qed

lemma first_from_None_iff: "first_from P n xs = None \<longleftrightarrow> (\<forall>i. n \<le> i \<and> i < length xs \<longrightarrow> \<not> P (xs ! i))"
  by (auto simp: first_from_def find_None_iff)

lemma first_from_step:
  "n < length xs \<Longrightarrow> first_from P n xs = (if P (xs ! n) then Some n else first_from P (Suc n) xs)"
  by (simp add: first_from_def upt_conv_Cons)

lemma unat_frame_no:
  assumes "i < 2 ^ 40"
  shows "unat (of_nat (4096 * i) :: u64) = 4096 * i"
  using assms by (subst unat_of_nat) simp

lemma frame_idx_frame_no [simp]: "i < 2 ^ 40 \<Longrightarrow> frame_idx (frame_no i) = i"
  using unat_frame_no [of i] by (simp add: frame_idx_def frame_no_def)

lemma bump_address:
  assumes "unat i < 2 ^ 40"
  shows "bindR (mul_chk FRAME_SIZE i) (\<lambda>x. bindR (PhysAddr_new x) (\<lambda>p. bindR (RawFrame_from_start_address p) k))
    = k (frame_no (unat i))"
proof -
  have "4096 * i = (of_nat (4096 * unat i) :: u64)"
    by simp
  moreover have "unat (4096 * i) = 4096 * unat i"
    using unat_frame_no [OF assms] by simp
  moreover have "4096 * unat i < 2 ^ 52"
    using assms by simp
  ultimately show ?thesis
    by (simp add: mul_chk_def FRAME_SIZE_def PhysAddr_new_eq RawFrame_from_start_address_def
        RawFrame_try_from_start_address_def frame_no_def word_mod_4096_iff)
qed

text \<open>
  What the loop relies on: trying a frame tells whether it exists, and otherwise whether its
  entry is acceptable; only a frame that is taken changes, in its own entry.
\<close>

locale frame_source =
  fixes attempt :: "RawFrame \<Rightarrow> retype_global \<Rightarrow> ('h attempt \<times> retype_global) run"
    and accept :: "RetypeEntry \<Rightarrow> bool" and handle :: "RawFrame \<Rightarrow> 'h" and after :: "RetypeEntry \<Rightarrow> RetypeEntry"
  assumes attempt_law: "rt_ok g \<Longrightarrow> attempt f g = Return (case entry g f of
      None \<Rightarrow> (NoSuchFrame, g)
    | Some e \<Rightarrow> if accept e then (Got (handle f), set_entry g f (after e)) else (Skip, g))"
begin

lemma loop_eq:
  assumes "rt_ok g" and "length (entries g) < 2 ^ 40" and "unat (bump_index a) \<le> length (entries g)"
  shows "bump_loop attempt a g = Return (case first_from accept (unat (bump_index a)) (entries g) of
      Some i \<Rightarrow> (Some (handle (frame_no i)), \<lparr>bump_index = of_nat i\<rparr>,
        set_entry g (frame_no i) (after (entries g ! i)))
    | None \<Rightarrow> (None, \<lparr>bump_index = of_nat (length (entries g))\<rparr>, g))"
  using assms(3)
proof (induction "length (entries g) - unat (bump_index a)" arbitrary: a)
  case 0
  then have len: "unat (bump_index a) = length (entries g)" by simp
  moreover have "bump_index a = of_nat (length (entries g))"
    unfolding len [symmetric] by simp
  ultimately show ?case
    using assms(1,2)
    by (subst bump_loop.simps, subst bump_address)
       (simp_all add: attempt_law entry_def first_from_def)
next
  case (Suc n)
  let ?i = "unat (bump_index a)"
  have lt: "?i < length (entries g)" using Suc.hyps(2) by simp
  then have bound: "?i < 2 ^ 40" using assms(2) by simp
  have next_eq: "unat (bump_index a + 1) = Suc ?i"
    using bound by (intro trans [OF unat_add_lem [THEN iffD1]]) simp_all
  have chk: "add_chk (bump_index a) 1 = Return (bump_index a + 1)"
    using bound by (simp add: add_chk_def)
  have e: "entry g (frame_no ?i) = Some (entries g ! ?i)"
    using lt bound by (simp add: entry_def)
  show ?case
  proof (cases "accept (entries g ! ?i)")
    case True
    then show ?thesis
      using e lt
      by (subst bump_loop.simps, subst bump_address [OF bound])
         (simp add: attempt_law [OF assms(1)] first_from_step)
  next
    case False
    have "bump_loop attempt a g = bump_loop attempt (a\<lparr>bump_index := bump_index a + 1\<rparr>) g"
      using e False chk
      by (subst bump_loop.simps, subst bump_address [OF bound])
         (simp add: attempt_law [OF assms(1)])
    also have "\<dots> = Return (case first_from accept (Suc ?i) (entries g) of
        Some i \<Rightarrow> (Some (handle (frame_no i)), \<lparr>bump_index = of_nat i\<rparr>,
          set_entry g (frame_no i) (after (entries g ! i)))
      | None \<Rightarrow> (None, \<lparr>bump_index = of_nat (length (entries g))\<rparr>, g))"
      using Suc.hyps(1) [of "a\<lparr>bump_index := bump_index a + 1\<rparr>"] Suc.hyps(2) lt by (simp add: next_eq)
    finally show ?thesis
      using False lt by (simp add: first_from_step)
  qed
qed

end

definition free_entry :: "RetypeEntry \<Rightarrow> bool" where
  "free_entry e \<longleftrightarrow> state_of e = Untyped \<and> count_of e = 0"

interpretation user_source: frame_source user_attempt free_entry UserFrame "\<lambda>_. mk_entry User 1"
  by unfold_locales (auto simp: user_attempt_def try_into_user_eq free_entry_def split: option.splits)

interpretation kernel_source: frame_source kernel_attempt free_entry KernelFrame "\<lambda>_. mk_entry Kernel 1"
  by unfold_locales (auto simp: kernel_attempt_def try_into_kernel_eq free_entry_def split: option.splits)

interpretation untyped_source: frame_source untyped_attempt "\<lambda>e. state_of e = Untyped" "\<lambda>f. f" "\<lambda>e. e"
  by unfold_locales
     (auto simp: untyped_attempt_def try_as_untyped_eq set_entry_self split: option.splits)

text \<open>A sequence of allocations with one allocator: user frames and kernel frames in any order.\<close>

datatype frame_kind = UserKind | KernelKind

definition alloc_kind ::
    "frame_kind \<Rightarrow> BumpAllocator \<Rightarrow> retype_global \<Rightarrow> (RawFrame option \<times> BumpAllocator \<times> retype_global) run" where
  "alloc_kind k a g = (case k of
     UserKind \<Rightarrow> bindR (alloc_user_frame a g) (\<lambda>(r, a, g). Return (map_option UserFrame_into_raw r, a, g))
   | KernelKind \<Rightarrow> bindR (alloc_kernel_frame a g) (\<lambda>(r, a, g). Return (map_option KernelFrame_into_raw r, a, g)))"

primrec alloc_seq ::
    "frame_kind list \<Rightarrow> BumpAllocator \<Rightarrow> retype_global \<Rightarrow> (RawFrame list \<times> BumpAllocator \<times> retype_global) run" where
  "alloc_seq [] a g = Return ([], a, g)"
| "alloc_seq (k # ks) a g = bindR (alloc_kind k a g) (\<lambda>(r, a, g). case r of
     None \<Rightarrow> Return ([], a, g)
   | Some f \<Rightarrow> bindR (alloc_seq ks a g) (\<lambda>(fs, a, g). Return (f # fs, a, g)))"

definition kind_state :: "frame_kind \<Rightarrow> State" where
  "kind_state k = (case k of UserKind \<Rightarrow> User | KernelKind \<Rightarrow> Kernel)"

lemma alloc_kind_eq:
  assumes "rt_ok g" and "length (entries g) < 2 ^ 40" and "unat (bump_index a) \<le> length (entries g)"
  shows "alloc_kind k a g = Return (case first_from free_entry (unat (bump_index a)) (entries g) of
      Some i \<Rightarrow> (Some (frame_no i), \<lparr>bump_index = of_nat i\<rparr>, set_entry g (frame_no i) (mk_entry (kind_state k) 1))
    | None \<Rightarrow> (None, \<lparr>bump_index = of_nat (length (entries g))\<rparr>, g))"
  by (auto simp: alloc_kind_def alloc_user_frame_def alloc_kernel_frame_def user_source.loop_eq [OF assms]
      kernel_source.loop_eq [OF assms] UserFrame_into_raw_def KernelFrame_into_raw_def kind_state_def
      split: frame_kind.splits option.splits)

lemma not_free_kind: "\<not> free_entry (mk_entry (kind_state k) 1)"
  by (simp add: free_entry_def kind_state_def split: frame_kind.splits)

lemma unat_of_nat_lt: "i < 2 ^ 40 \<Longrightarrow> unat (of_nat i :: u64) = i"
  by (subst unat_of_nat) simp

lemma alloc_seq_props:
  assumes "rt_ok g" and "length (entries g) < 2 ^ 40" and "unat (bump_index a) \<le> length (entries g)"
    and "alloc_seq ks a g = Return (fs, a', g')"
  shows "(\<forall>f \<in> set fs. unat (bump_index a) \<le> frame_idx f \<and> frame_idx f < length (entries g)
      \<and> free_entry (entries g ! frame_idx f)) \<and> sorted_wrt (\<lambda>f f'. frame_idx f < frame_idx f') fs"
  using assms
proof (induction ks arbitrary: a g fs)
  case (Cons k ks)
  show ?case
  proof (cases "first_from free_entry (unat (bump_index a)) (entries g)")
    case None
    with Cons.prems show ?thesis
      by (simp add: alloc_kind_eq)
  next
    case (Some i)
    let ?a = "\<lparr>bump_index = of_nat i\<rparr>" and ?g = "set_entry g (frame_no i) (mk_entry (kind_state k) 1)"
    have i: "unat (bump_index a) \<le> i" "i < length (entries g)" "free_entry (entries g ! i)"
      using Some by (simp_all add: first_from_Some_iff)
    then have lt: "i < 2 ^ 40" using Cons.prems(2) by simp
    from Cons.prems(4) Some obtain fs' where fs: "fs = frame_no i # fs'" "alloc_seq ks ?a ?g = Return (fs', a', g')"
      by (auto simp: alloc_kind_eq [OF Cons.prems(1-3)] bindR_eq_Return)
    have pre: "rt_ok ?g" "length (entries ?g) < 2 ^ 40" "unat (bump_index ?a) \<le> length (entries ?g)"
      using Cons.prems(1,2) i lt by (simp_all add: unat_of_nat_lt)
    note IH = Cons.IH [OF pre fs(2)]
    have "i < frame_idx f \<and> frame_idx f < length (entries g) \<and> free_entry (entries g ! frame_idx f)"
      if "f \<in> set fs'" for f
    proof -
      have f: "i \<le> frame_idx f" "frame_idx f < length (entries g)"
        "free_entry ((entries g)[i := mk_entry (kind_state k) 1] ! frame_idx f)"
        using IH that lt by (auto simp: unat_of_nat_lt)
      then have "frame_idx f \<noteq> i"
        using not_free_kind by auto
      with f show ?thesis by simp
    qed
    with i lt IH show ?thesis
      by (fastforce simp: fs(1))
  qed
qed simp

section \<open>Properties\<close>

text \<open>
  C19. \<open>alloc_kernel_frame\<close> always returns: it takes the lowest frame from its index on that is
  untyped and unreferenced, types it as a kernel frame with one reference and leaves every other
  entry as it was; it returns \<open>None\<close>, and changes nothing, exactly when there is no such frame.
\<close>

theorem alloc_kernel_frame_takes_first_free:
  assumes "rt_ok g" and "length (entries g) < 2 ^ 40" and "unat (bump_index a) \<le> length (entries g)"
  shows "\<exists>r a' g'. alloc_kernel_frame a g = Return (r, a', g') \<and> (case r of
      None \<Rightarrow> g' = g \<and> (\<forall>i. unat (bump_index a) \<le> i \<and> i < length (entries g) \<longrightarrow> \<not> free_entry (entries g ! i))
    | Some k \<Rightarrow> (\<exists>i. k = KernelFrame (frame_no i) \<and> unat (bump_index a) \<le> i \<and> i < length (entries g)
        \<and> free_entry (entries g ! i) \<and> (\<forall>j. unat (bump_index a) \<le> j \<and> j < i \<longrightarrow> \<not> free_entry (entries g ! j))
        \<and> unat (bump_index a') = i \<and> entries g' = (entries g)[i := mk_entry Kernel 1]))"
proof (cases "first_from free_entry (unat (bump_index a)) (entries g)")
  case None
  then show ?thesis
    by (simp add: alloc_kernel_frame_def kernel_source.loop_eq [OF assms]) (simp add: first_from_None_iff)
next
  case (Some i)
  then have "i < 2 ^ 40"
    using assms(2) by (simp add: first_from_Some_iff)
  with Some show ?thesis
    by (simp add: alloc_kernel_frame_def kernel_source.loop_eq [OF assms] unat_of_nat_lt)
       (auto simp: first_from_Some_iff)
qed

definition bump_table :: retype_global where
  "bump_table = \<lparr>once_value = Some \<lparr>retype_map =
     [mk_entry Unavailable 0, mk_entry Untyped 0, mk_entry Kernel 1, mk_entry Untyped 0]\<rparr>, once_init = 2\<rparr>"

lemma bump_table_simps [simp]:
  "rt_ok bump_table"
  "entries bump_table = [mk_entry Unavailable 0, mk_entry Untyped 0, mk_entry Kernel 1, mk_entry Untyped 0]"
  by (simp_all add: bump_table_def rt_ok_def entries_def)

theorem alloc_kernel_frame_takes_first_free_witness:
  "\<exists>r a' g'. alloc_kernel_frame BumpAllocator_new bump_table = Return (r, a', g')"
  using alloc_kernel_frame_takes_first_free [of bump_table BumpAllocator_new]
  by (auto simp: BumpAllocator_new_def)

text \<open>
  C31. A sequence of allocations of user and kernel frames with one allocator gives frames with
  strictly increasing addresses, each untyped and unreferenced before: no frame is handed out
  twice.
\<close>

theorem allocations_are_distinct:
  assumes "rt_ok g" and "length (entries g) < 2 ^ 40" and "alloc_seq ks BumpAllocator_new g = Return (fs, a', g')"
  shows "sorted_wrt (\<lambda>f f'. frame_idx f < frame_idx f') fs
    \<and> (\<forall>f \<in> set fs. entry g f \<noteq> None \<and> free_entry (the (entry g f)))"
  using alloc_seq_props [OF assms(1,2) _ assms(3)] by (simp add: BumpAllocator_new_def entry_def)

theorem allocations_are_distinct_witness:
  "\<exists>a' g'. alloc_seq [UserKind, KernelKind] BumpAllocator_new bump_table
      = Return ([frame_no 1, frame_no 3], a', g')
    \<and> sorted_wrt (\<lambda>f f'. frame_idx f < frame_idx f') [frame_no 1, frame_no 3]"
proof -
  have one: "alloc_kind UserKind BumpAllocator_new bump_table = Return (Some (frame_no 1),
      \<lparr>bump_index = 1\<rparr>, set_entry bump_table (frame_no 1) (mk_entry User 1))"
    by (simp add: alloc_kind_eq BumpAllocator_new_def first_from_def free_entry_def kind_state_def upt_rec)
  have two: "alloc_kind KernelKind \<lparr>bump_index = 1\<rparr> (set_entry bump_table (frame_no 1) (mk_entry User 1))
      = Return (Some (frame_no 3), \<lparr>bump_index = 3\<rparr>,
        set_entry (set_entry bump_table (frame_no 1) (mk_entry User 1)) (frame_no 3) (mk_entry Kernel 1))"
    by (simp add: alloc_kind_eq first_from_def free_entry_def kind_state_def upt_rec numeral_3_eq_3)
  have run: "\<exists>a' g'. alloc_seq [UserKind, KernelKind] BumpAllocator_new bump_table
      = Return ([frame_no 1, frame_no 3], a', g')"
    using two by (simp add: one)
  then show ?thesis
    using allocations_are_distinct [of bump_table "[UserKind, KernelKind]" "[frame_no 1, frame_no 3]"] by auto
qed

text \<open>
  \<open>alloc_untyped_frame\<close> finds a frame but does not take it: the table is unchanged, and the
  next call returns the same frame, until somebody retypes it.
\<close>

lemma alloc_untyped_frame_does_not_claim:
  assumes "rt_ok g" and "length (entries g) < 2 ^ 40" and "unat (bump_index a) \<le> length (entries g)"
    and "alloc_untyped_frame a g = Return (Some f, a', g')"
  shows "g' = g \<and> alloc_untyped_frame a' g' = Return (Some f, a', g')"
proof -
  from assms(4) obtain i where i: "first_from (\<lambda>e. state_of e = Untyped) (unat (bump_index a)) (entries g) = Some i"
    and f: "f = frame_no i" "a' = \<lparr>bump_index = of_nat i\<rparr>" "g' = set_entry g (frame_no i) (entries g ! i)"
    by (auto simp: alloc_untyped_frame_def untyped_source.loop_eq [OF assms(1-3)] split: option.splits)
  have lt: "i < length (entries g)" "i < 2 ^ 40" "state_of (entries g ! i) = Untyped"
    using i assms(2) by (simp_all add: first_from_Some_iff)
  then have "g' = g"
    using f(3) assms(1) by (simp add: set_entry_self entry_def)
  moreover have "first_from (\<lambda>e. state_of e = Untyped) i (entries g) = Some i"
    using lt by (simp add: first_from_step)
  ultimately show ?thesis
    using lt f assms(1,2) untyped_source.loop_eq [of g a'] by (simp add: alloc_untyped_frame_def unat_of_nat_lt)
qed

end
