(* ===== verification/Trie.thy ===== *)
theory Trie
  imports Prelude
begin

text \<open>
  The \<open>trie\<close> crate (\<open>trie/src/lib.rs\<close>): a node is an array of \<open>COUNT\<close> slots, a slot may point to a
  child node, and an identifier names a slot by its digits in base \<open>COUNT\<close>, the least
  significant digit first.

  The crate is generic in the slots and in the pointers to nodes. What it needs of them are the
  arguments \<open>child\<close> (\<open>Slot::child\<close>, which may change the state, since it hands out a new
  pointer) and \<open>dropp\<close> (the destructor of a pointer) of the definitions. A borrowed slot, and also
  a \<open>PtrMap\<close> that projects a pointer to one of its slots, is the pair of the pointer and the
  offset of the slot.

  The loop of \<open>get_inner\<close> ends when the identifier reaches 0, which for \<open>COUNT = 1\<close> need not happen;
  it is a partial function whose value is \<open>None\<close> when it does not end, and \<open>get_inner_ends\<close> shows
  that it always ends for two slots and more. The locale \<open>trie_view\<close> is the contract of \<open>child\<close> and
  \<open>dropp\<close> under which the loop finds the slot that \<open>walk\<close> describes.
\<close>

section \<open>Definitions\<close>

datatype SlotId = SlotId (slot_no: usize)
datatype TrieIndexError = TrieOutOfBounds

definition SlotId_try_from :: "usize \<Rightarrow> usize \<Rightarrow> (SlotId, TrieIndexError) result" where
  "SlotId_try_from COUNT v = (if v < COUNT then Ok (SlotId v) else Err TrieOutOfBounds)"

definition SlotId_into :: "SlotId \<Rightarrow> usize" where
  "SlotId_into s = slot_no s"

definition TrieEntry_default :: "nat \<Rightarrow> 'slot \<Rightarrow> 'slot list" where
  "TrieEntry_default COUNT slot_default = List.map (\<lambda>_. slot_default) [0..<COUNT]"

type_synonym 'p slot_ref = "'p \<times> usize"

definition TrieEntry_index :: "'p \<Rightarrow> SlotId \<Rightarrow> 'p slot_ref" where
  "TrieEntry_index this idx = (this, slot_no idx)"

partial_function (option) get_inner ::
    "usize \<Rightarrow> ('p slot_ref \<Rightarrow> 's \<Rightarrow> (('p option, 'e) result \<times> 's) run) \<Rightarrow> ('p \<Rightarrow> 's \<Rightarrow> 's run) \<Rightarrow>
     'p \<Rightarrow> usize \<Rightarrow> 's \<Rightarrow> (('p slot_ref option, 'e) result \<times> 's) run option" where
  "get_inner COUNT child dropp this i s =
     (if COUNT = 0 then Some (Panic ArithOverflow) else
      let offset = i mod COUNT; i = i div COUNT in
      if i = 0 then Some (Return (Ok (Some (this, offset)), s))
      else (case child (this, offset) s of
        Panic p \<Rightarrow> Some (Panic p)
      | Return (r, s) \<Rightarrow> (case dropp this s of
          Panic p \<Rightarrow> Some (Panic p)
        | Return s \<Rightarrow> (case r of
            Err e \<Rightarrow> Some (Return (Err e, s))
          | Ok None \<Rightarrow> Some (Return (Ok None, s))
          | Ok (Some c) \<Rightarrow> get_inner COUNT child dropp c i s))))"

definition TrieEntry_get ::
    "usize \<Rightarrow> ('p slot_ref \<Rightarrow> 's \<Rightarrow> (('p option, 'e) result \<times> 's) run) \<Rightarrow> ('p \<Rightarrow> 's \<Rightarrow> 's run) \<Rightarrow>
     'p \<Rightarrow> u32 \<Rightarrow> 's \<Rightarrow> (('p slot_ref option, 'e) result \<times> 's) run" where
  "TrieEntry_get COUNT child dropp this i s =
     (case get_inner COUNT child dropp this (ucast i) s of Some r \<Rightarrow> r | None \<Rightarrow> Panic Diverges)"

section \<open>The loop ends\<close>

lemma word_div_less:
  assumes "2 \<le> COUNT" and "i div COUNT \<noteq> 0"
  shows "unat (i div COUNT) < unat (i :: usize)"
proof -
  have "i \<noteq> 0"
  proof
    assume "i = 0"
    with assms(2) show False by (simp add: word_unat_eq_iff unat_div)
  qed
  then have "0 < unat i" and "1 < unat COUNT"
    using assms by (simp_all add: word_le_nat_alt unat_gt_0)
  then show ?thesis
    by (simp add: unat_div div_less_dividend)
qed

lemma get_inner_ends:
  assumes "2 \<le> COUNT"
  shows "\<exists>r. get_inner COUNT child dropp this i s = Some r"
proof (induction "unat i" arbitrary: this i s rule: less_induct)
  case less
  show ?case
  proof (cases "i div COUNT = 0")
    case True
    then show ?thesis
      by (subst get_inner.simps) (simp add: Let_def)
  next
    case False
    then have "unat (i div COUNT) < unat i"
      by (rule word_div_less [OF assms])
    then have "\<exists>r. get_inner COUNT child dropp c (i div COUNT) s' = Some r" for c s'
      by (rule less)
    then show ?thesis
      by (subst get_inner.simps)
         (auto simp: Let_def split: run.splits prod.splits result.splits option.splits)
  qed
qed

text \<open>Hence the unfolding of \<open>get\<close> as a function of its own.\<close>

definition get_usize ::
    "usize \<Rightarrow> ('p slot_ref \<Rightarrow> 's \<Rightarrow> (('p option, 'e) result \<times> 's) run) \<Rightarrow> ('p \<Rightarrow> 's \<Rightarrow> 's run) \<Rightarrow>
     'p \<Rightarrow> usize \<Rightarrow> 's \<Rightarrow> (('p slot_ref option, 'e) result \<times> 's) run" where
  "get_usize COUNT child dropp this i s =
     (case get_inner COUNT child dropp this i s of Some r \<Rightarrow> r | None \<Rightarrow> Panic Diverges)"

lemma TrieEntry_get_usize: "TrieEntry_get COUNT child dropp this i s = get_usize COUNT child dropp this (ucast i) s"
  by (simp add: TrieEntry_get_def get_usize_def)

lemma get_usize_unfold:
  assumes "2 \<le> COUNT"
  shows "get_usize COUNT child dropp this i s =
     (if i div COUNT = 0 then Return (Ok (Some (this, i mod COUNT)), s)
      else bindR (child (this, i mod COUNT) s) (\<lambda>(r, s). bindR (dropp this s) (\<lambda>s. case r of
          Err e \<Rightarrow> Return (Err e, s)
        | Ok None \<Rightarrow> Return (Ok None, s)
        | Ok (Some c) \<Rightarrow> get_usize COUNT child dropp c (i div COUNT) s)))"
proof -
  have "COUNT \<noteq> 0"
    using assms by (auto simp: word_le_nat_alt)
  then show ?thesis
    unfolding get_usize_def
    by (subst get_inner.simps)
       (auto simp: Let_def split: run.splits prod.splits result.splits option.splits)
qed

section \<open>What is found\<close>

text \<open>
  The digits of an identifier: the offsets of the slots on the way, the last one the offset of
  the slot that is found.
\<close>

function digits :: "nat \<Rightarrow> nat \<Rightarrow> nat list" where
  "digits b n = (if b < 2 \<or> n div b = 0 then [n mod b] else n mod b # digits b (n div b))"
  by pat_completeness auto
termination
  by (relation "measure snd") (auto intro!: div_less_dividend gr0I)

declare digits.simps [simp del]

primrec undigits :: "nat \<Rightarrow> nat list \<Rightarrow> nat" where
  "undigits b [] = 0"
| "undigits b (d # ds) = d + b * undigits b ds"

lemma undigits_digits: "2 \<le> b \<Longrightarrow> undigits b (digits b n) = n"
proof (induction b n rule: digits.induct)
  case (1 b n)
  then show ?case
    by (subst digits.simps) (auto simp: div_eq_0_iff)
qed

lemma digits_cases:
  assumes "2 \<le> b"
  shows "n < b \<Longrightarrow> digits b n = [n]" and "b \<le> n \<Longrightarrow> digits b n = n mod b # digits b (n div b)"
  using assms by (subst digits.simps; simp add: div_eq_0_iff)+

lemma digits_induct [consumes 1, case_names small big]:
  assumes "2 \<le> b" and "\<And>n. n < b \<Longrightarrow> P n" and "\<And>n. b \<le> n \<Longrightarrow> P (n div b) \<Longrightarrow> P n"
  shows "P (n :: nat)"
proof (induction n rule: less_induct)
  case (less n)
  then show ?case
    using assms by (cases "n < b") (auto simp: div_less_dividend)
qed

lemma digits_bounded:
  assumes "2 \<le> b"
  shows "\<forall>d \<in> set (digits b n). d < b"
  using assms
proof (induction n rule: digits_induct)
  case (small n)
  then show ?case by (simp add: digits_cases(1) [OF assms small])
next
  case (big n)
  have "n mod b < b" using assms by simp
  with big show ?case by (simp add: digits_cases(2) [OF assms big(1)])
qed

lemma digits_not_Nil [simp]: "digits b n \<noteq> []"
  by (subst digits.simps) simp

lemma last_digit_nonzero:
  assumes "2 \<le> b"
  shows "b \<le> n \<Longrightarrow> last (digits b n) \<noteq> 0"
  using assms
proof (induction n rule: digits_induct)
  case (big n)
  have nz: "n div b \<noteq> 0"
    using big(1) assms by (simp add: div_eq_0_iff)
  show ?case
  proof (cases "n div b < b")
    case True
    then show ?thesis
      using nz by (simp add: digits_cases(2) [OF assms big(1)] digits_cases(1) [OF assms True])
  next
    case False
    with big(2) show ?thesis
      by (simp add: digits_cases(2) [OF assms big(1)])
  qed
qed simp

primrec walk :: "('p \<Rightarrow> nat \<Rightarrow> 'p option) \<Rightarrow> 'p \<Rightarrow> nat list \<Rightarrow> ('p \<times> nat) option" where
  "walk ch p [] = None"
| "walk ch p (d # ds) = (if ds = [] then Some (p, d)
     else case ch p d of None \<Rightarrow> None | Some c \<Rightarrow> walk ch c ds)"

text \<open>
  The contract of the slots and pointers: where \<open>child\<close> returns, it returns the child of the slot,
  and neither \<open>child\<close> nor \<open>dropp\<close> changes which node is the child of which slot.
\<close>

locale trie_view =
  fixes child :: "'p slot_ref \<Rightarrow> 's \<Rightarrow> (('p option, 'e) result \<times> 's) run" and dropp :: "'p \<Rightarrow> 's \<Rightarrow> 's run"
    and view :: "'s \<Rightarrow> 'p \<Rightarrow> nat \<Rightarrow> 'p option"
  assumes child_view: "child (p, off) s = Return (r, s') \<Longrightarrow> r = Ok (view s p (unat off)) \<and> view s' = view s"
    and drop_view: "dropp p s = Return s' \<Longrightarrow> view s' = view s"
begin

lemma get_usize_walk:
  assumes "2 \<le> COUNT" and "get_usize COUNT child dropp p i s = Return (r, s')"
  shows "r = Ok (map_option (\<lambda>(q, d). (q, of_nat d)) (walk (view s) p (digits (unat COUNT) (unat i)))) \<and> view s' = view s"
  using assms(2)
proof (induction "unat i" arbitrary: p i s r rule: less_induct)
  case less
  have C: "2 \<le> unat COUNT"
    using assms(1) by (simp add: word_le_nat_alt)
  have off: "unat (i mod COUNT) = unat i mod unat COUNT" and quot: "unat (i div COUNT) = unat i div unat COUNT"
    by (simp_all add: unat_mod unat_div)
  show ?case
  proof (cases "i div COUNT = 0")
    case True
    then have "unat i div unat COUNT = 0"
      using quot by simp
    moreover have "of_nat (unat i mod unat COUNT) = i mod COUNT"
      using off by (metis word_unat_eq_iff unat_of_nat unat_lt mod_less of_nat_unat ucast_id)
    ultimately show ?thesis
      using less.prems True by (auto simp: get_usize_unfold [OF assms(1)] digits.simps [of "unat COUNT" "unat i"])
  next
    case False
    then have "unat (i div COUNT) < unat i"
      by (rule word_div_less [OF assms(1)])
    note IH = less.hyps [OF this]
    have "unat i div unat COUNT \<noteq> 0"
      using False quot by (metis unat_eq_zero)
    then have ds: "digits (unat COUNT) (unat i) =
        unat i mod unat COUNT # digits (unat COUNT) (unat (i div COUNT))"
      using C by (subst digits.simps) (simp add: quot)
    from less.prems False obtain r1 s1 s2 where c: "child (p, i mod COUNT) s = Return (r1, s1)"
      "dropp p s1 = Return s2"
      and rest: "(case r1 of Err e \<Rightarrow> Return (Err e, s2) | Ok None \<Rightarrow> Return (Ok None, s2)
        | Ok (Some c) \<Rightarrow> get_usize COUNT child dropp c (i div COUNT) s2) = Return (r, s')"
      by (auto simp: get_usize_unfold [OF assms(1), of _ _ _ i] bindR_eq_Return)
    have v: "r1 = Ok (view s p (unat i mod unat COUNT))" "view s2 = view s"
      using child_view [OF c(1)] drop_view [OF c(2)] by (simp_all add: off)
    show ?thesis
    proof (cases "view s p (unat i mod unat COUNT)")
      case None
      then show ?thesis using rest v by (simp add: ds)
    next
      case (Some q)
      then show ?thesis using rest v IH [of q s2 r] by (simp add: ds)
    qed
  qed
qed

end

text \<open>
  Slots and pointers that keep more of the state than its view: whatever reflexive and transitive
  relation \<open>child\<close> and \<open>dropp\<close> keep, a lookup keeps.
\<close>

locale trie_frame = trie_view +
  fixes same :: "'b \<Rightarrow> 'b \<Rightarrow> bool"
  assumes same_refl: "same s s" and same_trans: "same s s' \<Longrightarrow> same s' s'' \<Longrightarrow> same s s''"
    and child_same: "child sr s = Return (r, s') \<Longrightarrow> same s s'"
    and drop_same: "dropp p s = Return s' \<Longrightarrow> same s s'"
begin

lemma get_usize_same:
  assumes "2 \<le> COUNT" and "get_usize COUNT child dropp p i s = Return (r, s')"
  shows "same s s'"
  using assms(2)
proof (induction "unat i" arbitrary: p i s rule: less_induct)
  case less
  show ?case
  proof (cases "i div COUNT = 0")
    case True
    with less.prems show ?thesis
      by (simp add: get_usize_unfold [OF assms(1)] same_refl)
  next
    case False
    from less.prems False obtain r1 s1 s2 where c: "child (p, i mod COUNT) s = Return (r1, s1)"
      "dropp p s1 = Return s2"
      and rest: "(case r1 of Err e \<Rightarrow> Return (Err e, s2) | Ok None \<Rightarrow> Return (Ok None, s2)
        | Ok (Some c) \<Rightarrow> get_usize COUNT child dropp c (i div COUNT) s2) = Return (r, s')"
      by (auto simp: get_usize_unfold [OF assms(1), of _ _ _ i] bindR_eq_Return)
    have "same s s2"
      using child_same [OF c(1)] drop_same [OF c(2)] same_trans by blast
    moreover have "same s2 s'"
      using rest less.hyps [OF word_div_less [OF assms(1) False]]
      by (auto simp: same_refl split: result.splits option.splits)
    ultimately show ?thesis
      using same_trans by blast
  qed
qed

end

section \<open>Properties\<close>

text \<open>
  C29. Looking up a slot ends: with at least two slots per node, \<open>get\<close> never loops for ever, whatever
  the nodes hold (also when they link to each other in a cycle), as long as reading a child and
  dropping a pointer end.
\<close>

theorem trie_get_ends:
  assumes "2 \<le> COUNT" and "\<forall>sr s. child sr s \<noteq> Panic Diverges" and "\<forall>p s. dropp p s \<noteq> Panic Diverges"
  shows "TrieEntry_get COUNT child dropp this i s \<noteq> Panic Diverges"
proof -
  have "get_usize COUNT child dropp this j s \<noteq> Panic Diverges" for j this s
  proof (induction "unat j" arbitrary: this j s rule: less_induct)
    case less
    show ?case
    proof (cases "j div COUNT = 0")
      case False
      from less.hyps [OF word_div_less [OF assms(1) this]]
      have "get_usize COUNT child dropp c (j div COUNT) s' \<noteq> Panic Diverges" for c s' .
      then show ?thesis
        using assms(2,3) by (subst get_usize_unfold [OF assms(1)])
          (auto split: bindR_split result.splits option.splits)
    qed (simp add: get_usize_unfold [OF assms(1)])
  qed
  then show ?thesis
    unfolding TrieEntry_get_usize .
qed

theorem trie_get_ends_witness:
  "TrieEntry_get 128 (\<lambda>_ s. Return (Ok (Some ()), s)) (\<lambda>_ s. Return s) () 0xFFFFFFFF (0 :: nat)
     \<noteq> (Panic Diverges :: ((unit slot_ref option, unit) result \<times> nat) run)"
  by (rule trie_get_ends) simp_all

end
