(* ===== verification/Kapi.thy ===== *)
theory Kapi
  imports Prelude Cells Trie
begin

text \<open>
  The interface between user space and the kernel (\<open>kapi/src/raw.rs\<close>, \<open>kapi/src/ops.rs\<close>): error
  numbers, capability identifiers, the arguments of a system call, and the operations
  \<open>ThreadOp\<close> and \<open>CapTableOp\<close> with their encoding into arguments and their decoding.

  The conversions between the enumerations and integers are derived by the crate \<open>num_enum\<close>.
  They are the fields of the record \<open>num_enum\<close>, an argument of the definitions that use them;
  \<open>num_enum_spec\<close> is what that crate documents of its derives: \<open>into\<close> gives the discriminant, and
  \<open>try_from\<close> succeeds on the discriminants only and inverts \<open>into\<close>.

  The locale \<open>syscall_op\<close> is the contract of the trait \<open>SyscallOp\<close>: what an operation is encoded to
  decodes to the operation.
\<close>

section \<open>Definitions\<close>

datatype RawOperation =
  ThreadActivate | ThreadChangeAffinity | CapTableLink | CapTableUnlink | CapTableConstruct
  | CapTableDrop | CapTableCopy | PageTableLink | PageTableUnlink | MemoryRegionRetype | MemoryRegionSplit

primrec raw_operation_code :: "RawOperation \<Rightarrow> usize" where
  "raw_operation_code ThreadActivate = 0"
| "raw_operation_code ThreadChangeAffinity = 1"
| "raw_operation_code CapTableLink = 2"
| "raw_operation_code CapTableUnlink = 3"
| "raw_operation_code CapTableConstruct = 4"
| "raw_operation_code CapTableDrop = 5"
| "raw_operation_code CapTableCopy = 6"
| "raw_operation_code PageTableLink = 7"
| "raw_operation_code PageTableUnlink = 8"
| "raw_operation_code MemoryRegionRetype = 9"
| "raw_operation_code MemoryRegionSplit = 10"

datatype CapError =
  ResourceInUse | NotFound | InvalidOp | InvalidArgument | PageOffsetOutOfBounds
  | FrameOutsideOfRegion | FrameNotUser | Internal

primrec cap_error_u8 :: "CapError \<Rightarrow> u8" where
  "cap_error_u8 ResourceInUse = 1"
| "cap_error_u8 NotFound = 2"
| "cap_error_u8 InvalidOp = 3"
| "cap_error_u8 InvalidArgument = 4"
| "cap_error_u8 PageOffsetOutOfBounds = 5"
| "cap_error_u8 FrameOutsideOfRegion = 6"
| "cap_error_u8 FrameNotUser = 7"
| "cap_error_u8 Internal = 8"

record num_enum =
  op_into :: "RawOperation \<Rightarrow> usize"
  op_try_from :: "usize \<Rightarrow> RawOperation option"
  err_try_from :: "u8 \<Rightarrow> CapError option"

definition to_errno :: "CapError \<Rightarrow> isize" where
  "to_errno e = - (ucast (cap_error_u8 e))"

definition CapError_from_BorrowError :: "BorrowError \<Rightarrow> CapError" where
  "CapError_from_BorrowError e = (case e of AlreadyBorrowed \<Rightarrow> ResourceInUse)"

definition CapError_from_TrieIndexError :: "TrieIndexError \<Rightarrow> CapError" where
  "CapError_from_TrieIndexError e = (case e of TrieOutOfBounds \<Rightarrow> InvalidArgument)"

record SyscallArgs =
  args_op :: usize
  general :: "usize \<times> usize \<times> usize \<times> usize"

definition SyscallArgs_new :: "usize \<Rightarrow> usize \<Rightarrow> usize \<Rightarrow> usize \<Rightarrow> usize \<Rightarrow> SyscallArgs" where
  "SyscallArgs_new opc a b c d = \<lparr>args_op = opc, general = (a, b, c, d)\<rparr>"

datatype CapId = CapId (cap_u32: u32)
datatype TryFromIntError = TryFromIntError

text \<open>\<open>u32::try_from\<close> on a \<open>usize\<close>.\<close>

definition u32_try_from :: "usize \<Rightarrow> (u32, TryFromIntError) result" where
  "u32_try_from v = (if unat v < 2 ^ 32 then Ok (ucast v) else Err TryFromIntError)"

definition CapId_try_from :: "usize \<Rightarrow> (CapId, TryFromIntError) result" where
  "CapId_try_from v = (case u32_try_from v of Ok x \<Rightarrow> Ok (CapId x) | Err e \<Rightarrow> Err e)"

definition CapId_into_usize :: "CapId \<Rightarrow> usize" where
  "CapId_into_usize c = ucast (cap_u32 c)"

text \<open>
  The user-space side of a system call; \<open>raw_syscall\<close> is what the trap into the kernel returns for
  its six registers. A negative result is an error number.
\<close>

definition syscall ::
    "num_enum \<Rightarrow> (usize \<Rightarrow> usize \<Rightarrow> usize \<Rightarrow> usize \<Rightarrow> usize \<Rightarrow> usize \<Rightarrow> isize) \<Rightarrow> CapId \<Rightarrow> SyscallArgs \<Rightarrow>
     (usize, CapError) result run" where
  "syscall N raw_syscall cap args =
     (let (a, b, c, d) = general args;
          res = raw_syscall (CapId_into_usize cap) (args_op args) a b c d in
      if 0 \<le> sint res then Return (Ok res)
      else if sint res = - (2 ^ 63) then Panic ArithOverflow
      else bindR (unwrap (err_try_from N (ucast (- res)))) (\<lambda>e. Return (Err e)))"

text \<open>\<open>SyscallOp::syscall\<close>, for the two methods of the trait that it uses.\<close>

definition SyscallOp_syscall ::
    "num_enum \<Rightarrow> (usize \<Rightarrow> usize \<Rightarrow> usize \<Rightarrow> usize \<Rightarrow> usize \<Rightarrow> usize \<Rightarrow> isize) \<Rightarrow> ('op \<Rightarrow> SyscallArgs run) \<Rightarrow> ('op \<Rightarrow> usize \<Rightarrow> 'r) \<Rightarrow>
     'op \<Rightarrow> CapId \<Rightarrow> ('r, CapError) result run" where
  "SyscallOp_syscall N raw_syscall into_args convert_success_code self capability =
     bindR (into_args self) (\<lambda>args.
     bindR (syscall N raw_syscall capability args) (\<lambda>r. Return (case r of
       Ok code \<Rightarrow> Ok (convert_success_code self code)
     | Err e \<Rightarrow> Err e)))"

subsection \<open>Thread operations\<close>

datatype InvalidOperation = BadOp | BadArgument
datatype ThreadOp = Activate | ChangeAffinity

definition ThreadOp_into_args :: "num_enum \<Rightarrow> ThreadOp \<Rightarrow> SyscallArgs run" where
  "ThreadOp_into_args N op = (case op of
     Activate \<Rightarrow> Return (SyscallArgs_new (op_into N ThreadActivate) 0 0 0 0)
   | ChangeAffinity \<Rightarrow> Panic NotImplemented)"

definition ThreadOp_from_args :: "num_enum \<Rightarrow> SyscallArgs \<Rightarrow> (ThreadOp, InvalidOperation) result run" where
  "ThreadOp_from_args N args = (case op_try_from N (args_op args) of
     None \<Rightarrow> Return (Err BadOp)
   | Some ThreadActivate \<Rightarrow> Return (Ok Activate)
   | Some ThreadChangeAffinity \<Rightarrow> Return (Ok ChangeAffinity)
   | Some _ \<Rightarrow> Return (Err BadOp))"

definition ThreadOp_convert_success_code :: "ThreadOp \<Rightarrow> usize \<Rightarrow> unit" where
  "ThreadOp_convert_success_code self code = ()"

subsection \<open>Capability table operations\<close>

datatype ConstructArgs =
  ConstructCapTable
  | ConstructThread (thread_entry: usize) (thread_sp: usize) (thread_caps: CapId) (thread_table: CapId)
  | ConstructPageTable (table_level: u8)

datatype CapTableOp =
  Link SlotId CapId
  | Unlink SlotId
  | Construct ConstructArgs usize SlotId
  | DropCap SlotId
  | CopyCap SlotId CapId SlotId

definition CapTableOp_into_args :: "num_enum \<Rightarrow> CapTableOp \<Rightarrow> SyscallArgs run" where
  "CapTableOp_into_args N op = (case op of
     Link slot other_table_cap \<Rightarrow>
       Return (SyscallArgs_new (op_into N CapTableLink) (CapId_into_usize other_table_cap) (SlotId_into slot) 0 0)
   | Unlink slot \<Rightarrow> Return (SyscallArgs_new (op_into N CapTableUnlink) (SlotId_into slot) 0 0 0)
   | Construct _ _ _ \<Rightarrow> Panic NotImplemented
   | DropCap _ \<Rightarrow> Panic NotImplemented
   | CopyCap _ _ _ \<Rightarrow> Panic NotImplemented)"

definition CapTableOp_from_args ::
    "num_enum \<Rightarrow> usize \<Rightarrow> SyscallArgs \<Rightarrow> (CapTableOp, InvalidOperation) result run" where
  "CapTableOp_from_args N SLOT_COUNT args = (case op_try_from N (args_op args) of
     None \<Rightarrow> Return (Err BadOp)
   | Some rop \<Rightarrow> (let (a0, a1, a2, a3) = general args in case rop of
       CapTableLink \<Rightarrow> (case CapId_try_from a0 of
           Err _ \<Rightarrow> Return (Err BadArgument)
         | Ok other_table_cap \<Rightarrow> (case SlotId_try_from SLOT_COUNT a1 of
             Err _ \<Rightarrow> Return (Err BadArgument)
           | Ok slot \<Rightarrow> Return (Ok (Link slot other_table_cap))))
     | CapTableUnlink \<Rightarrow> (case SlotId_try_from SLOT_COUNT a0 of
           Err _ \<Rightarrow> Return (Err BadArgument)
         | Ok slot \<Rightarrow> Return (Ok (Unlink slot)))
     | CapTableConstruct \<Rightarrow> Panic NotImplemented
     | CapTableDrop \<Rightarrow> Panic NotImplemented
     | CapTableCopy \<Rightarrow> Panic NotImplemented
     | _ \<Rightarrow> Return (Err BadOp)))"

definition CapTableOp_convert_success_code :: "CapTableOp \<Rightarrow> usize \<Rightarrow> unit" where
  "CapTableOp_convert_success_code self code = ()"

section \<open>The derived conversions\<close>

definition num_enum_spec :: "num_enum \<Rightarrow> bool" where
  "num_enum_spec N \<longleftrightarrow> op_into N = raw_operation_code
     \<and> (\<forall>v opr. op_try_from N v = Some opr \<longleftrightarrow> v = raw_operation_code opr)
     \<and> (\<forall>v e. err_try_from N v = Some e \<longleftrightarrow> v = cap_error_u8 e)"

lemma num_enum_specD:
  assumes "num_enum_spec N"
  shows "op_into N opr = raw_operation_code opr" and "op_try_from N (raw_operation_code opr) = Some opr"
    and "err_try_from N (cap_error_u8 e) = Some e" and "op_try_from N v = Some opr \<Longrightarrow> v = raw_operation_code opr"
  using assms by (auto simp: num_enum_spec_def)

lemma op_try_from_codes:
  assumes "num_enum_spec N"
  shows "op_try_from N 0 = Some ThreadActivate" and "op_try_from N 2 = Some CapTableLink"
    and "op_try_from N 3 = Some CapTableUnlink"
  using num_enum_specD(2) [OF assms, of ThreadActivate] num_enum_specD(2) [OF assms, of CapTableLink]
    num_enum_specD(2) [OF assms, of CapTableUnlink]
  by simp_all

text \<open>The derives themselves, computed from the discriminants.\<close>

definition all_operations :: "RawOperation list" where
  "all_operations = [ThreadActivate, ThreadChangeAffinity, CapTableLink, CapTableUnlink, CapTableConstruct,
     CapTableDrop, CapTableCopy, PageTableLink, PageTableUnlink, MemoryRegionRetype, MemoryRegionSplit]"

definition all_errors :: "CapError list" where
  "all_errors = [ResourceInUse, NotFound, InvalidOp, InvalidArgument, PageOffsetOutOfBounds,
     FrameOutsideOfRegion, FrameNotUser, Internal]"

definition derived_num_enum :: num_enum where
  "derived_num_enum = \<lparr>op_into = raw_operation_code,
     op_try_from = (\<lambda>v. find (\<lambda>opr. raw_operation_code opr = v) all_operations),
     err_try_from = (\<lambda>v. find (\<lambda>e. cap_error_u8 e = v) all_errors)\<rparr>"

lemma find_code:
  assumes "inj code" and "set xs = UNIV"
  shows "find (\<lambda>x. code x = v) xs = Some y \<longleftrightarrow> v = code y"
proof
  assume "v = code y"
  moreover have "y \<in> set xs" using assms(2) by simp
  then have "find (\<lambda>x. code x = code y) xs = Some y"
    using assms(1) by (induction xs) (auto dest: injD)
  ultimately show "find (\<lambda>x. code x = v) xs = Some y" by simp
qed (auto simp: find_Some_iff)

lemma derived_num_enum_spec: "num_enum_spec derived_num_enum"
proof -
  have "inj raw_operation_code"
    by (rule injI) (case_tac x; case_tac y; simp)
  moreover have "set all_operations = UNIV"
    by (auto simp: all_operations_def) (case_tac x; simp)
  moreover have "inj cap_error_u8"
    by (rule injI) (case_tac x; case_tac y; simp)
  moreover have "set all_errors = UNIV"
    by (auto simp: all_errors_def) (case_tac x; simp)
  ultimately show ?thesis
    by (simp add: num_enum_spec_def derived_num_enum_def find_code)
qed

section \<open>The contract of an operation\<close>

lemma errno_roundtrip:
  assumes "num_enum_spec N"
  shows "syscall N (\<lambda>_ _ _ _ _ _. to_errno e) cap args = Return (Err e)"
proof -
  have "sint (to_errno e) < 0 \<and> sint (to_errno e) \<noteq> - (2 ^ 63) \<and> (ucast (- to_errno e) :: u8) = cap_error_u8 e"
    by (cases e) (simp_all add: to_errno_def)
  then show ?thesis
    using num_enum_specD(3) [OF assms, of e] by (simp add: syscall_def split: prod.splits)
qed

lemma success_roundtrip: "unat v < 2 ^ 63 \<Longrightarrow> syscall N (\<lambda>_ _ _ _ _ _. v) cap args = Return (Ok v)"
  by (simp add: syscall_def sint_of_unat split: prod.splits)

lemma CapId_roundtrip: "CapId_try_from (CapId_into_usize c) = Ok c"
proof -
  have "unat (ucast (cap_u32 c) :: usize) = unat (cap_u32 c)"
    by (simp add: unsigned_ucast_eq take_bit_eq_mod less_trans [OF unat_lt [of "cap_u32 c"]])
  moreover have "unat (cap_u32 c) < 2 ^ 32"
    using unat_lt [of "cap_u32 c"] by simp
  moreover have "ucast (ucast (cap_u32 c) :: usize) = cap_u32 c"
    by (rule bit_word_eqI) (auto simp: bit_simps)
  ultimately show ?thesis
    by (simp add: CapId_try_from_def u32_try_from_def CapId_into_usize_def)
qed

locale syscall_op =
  fixes into_args :: "'op \<Rightarrow> SyscallArgs run" and from_args :: "SyscallArgs \<Rightarrow> ('op, InvalidOperation) result run"
    and valid :: "'op \<Rightarrow> bool"
  assumes roundtrip: "valid opr \<Longrightarrow> into_args opr = Return args \<Longrightarrow> from_args args = Return (Ok opr)"
begin

lemma into_args_inj:
  "valid x \<Longrightarrow> valid y \<Longrightarrow> into_args x = Return args \<Longrightarrow> into_args y = Return args \<Longrightarrow> x = y"
  using roundtrip [of x args] roundtrip [of y args] by simp

text \<open>What user space asks for is what the kernel reads, and its answer comes back.\<close>

lemma request_arrives:
  assumes "num_enum_spec N" and "valid opr" and "into_args opr = Return args"
    and raw: "raw = (\<lambda>c p a b d e. answer (from_args \<lparr>args_op = p, general = (a, b, d, e)\<rparr>))"
  shows "answer (Return (Ok opr)) = to_errno e \<Longrightarrow> SyscallOp_syscall N raw into_args conv opr cap = Return (Err e)"
    and "answer (Return (Ok opr)) = v \<Longrightarrow> unat v < 2 ^ 63 \<Longrightarrow> SyscallOp_syscall N raw into_args conv opr cap = Return (Ok (conv opr v))"
proof -
  have "syscall N raw cap args = syscall N (\<lambda>_ _ _ _ _ _. answer (Return (Ok opr))) cap args"
    using roundtrip [OF assms(2,3)] by (cases args) (simp add: syscall_def raw split: prod.splits)
  then have eq: "SyscallOp_syscall N raw into_args conv opr cap
      = bindR (syscall N (\<lambda>_ _ _ _ _ _. answer (Return (Ok opr))) cap args)
          (\<lambda>r. Return (case r of Ok code \<Rightarrow> Ok (conv opr code) | Err e \<Rightarrow> Err e))"
    by (simp add: SyscallOp_syscall_def assms(3))
  show "answer (Return (Ok opr)) = to_errno e \<Longrightarrow> SyscallOp_syscall N raw into_args conv opr cap = Return (Err e)"
    by (simp add: eq errno_roundtrip [OF assms(1)])
  show "answer (Return (Ok opr)) = v \<Longrightarrow> unat v < 2 ^ 63 \<Longrightarrow> SyscallOp_syscall N raw into_args conv opr cap = Return (Ok (conv opr v))"
    by (simp add: eq success_roundtrip)
qed

end

primrec slot_in :: "usize \<Rightarrow> CapTableOp \<Rightarrow> bool" where
  "slot_in COUNT (Link slot c) = (slot_no slot < COUNT)"
| "slot_in COUNT (Unlink slot) = (slot_no slot < COUNT)"
| "slot_in COUNT (Construct k r slot) = (slot_no slot < COUNT)"
| "slot_in COUNT (DropCap slot) = (slot_no slot < COUNT)"
| "slot_in COUNT (CopyCap slot c slot') = (slot_no slot < COUNT \<and> slot_no slot' < COUNT)"

lemma thread_op_contract:
  assumes "num_enum_spec N"
  shows "syscall_op (ThreadOp_into_args N) (ThreadOp_from_args N) (\<lambda>_. True)"
  using num_enum_specD(1) [OF assms] op_try_from_codes [OF assms]
  by unfold_locales
     (auto simp: ThreadOp_into_args_def ThreadOp_from_args_def SyscallArgs_new_def split: ThreadOp.splits)

lemma cap_table_op_contract:
  assumes "num_enum_spec N"
  shows "syscall_op (CapTableOp_into_args N) (CapTableOp_from_args N COUNT) (slot_in COUNT)"
  using num_enum_specD(1) [OF assms] op_try_from_codes [OF assms]
  by unfold_locales
     (auto simp: CapTableOp_into_args_def CapTableOp_from_args_def SyscallArgs_new_def SlotId_into_def
       SlotId_try_from_def CapId_roundtrip split: CapTableOp.splits)

interpretation thread_ops: syscall_op "ThreadOp_into_args derived_num_enum" "ThreadOp_from_args derived_num_enum" "\<lambda>_. True"
  by (rule thread_op_contract [OF derived_num_enum_spec])

interpretation cap_table_ops: syscall_op "CapTableOp_into_args derived_num_enum"
  "CapTableOp_from_args derived_num_enum COUNT" "slot_in COUNT" for COUNT
  by (rule cap_table_op_contract [OF derived_num_enum_spec])

section \<open>Properties\<close>

text \<open>
  C26. Every operation that can be encoded decodes to itself: what \<open>CapTableOp::into_args\<close> and
  \<open>ThreadOp::into_args\<close> produce, \<open>from_args\<close> reads back, for slots below the slot count.
\<close>

theorem operations_roundtrip:
  assumes "num_enum_spec N" and "slot_in COUNT cop"
  shows "(\<forall>args. CapTableOp_into_args N cop = Return args \<longrightarrow> CapTableOp_from_args N COUNT args = Return (Ok cop))
    \<and> (\<forall>args. ThreadOp_into_args N thop = Return args \<longrightarrow> ThreadOp_from_args N args = Return (Ok thop))"
  using syscall_op.roundtrip [OF cap_table_op_contract [OF assms(1)] assms(2)]
    syscall_op.roundtrip [OF thread_op_contract [OF assms(1)] TrueI] by blast

theorem operations_roundtrip_witness:
  "CapTableOp_from_args derived_num_enum 128 \<lparr>args_op = 2, general = (7, 5, 0, 0)\<rparr>
     = Return (Ok (Link (SlotId 5) (CapId 7)))"
proof -
  have "CapTableOp_into_args derived_num_enum (Link (SlotId 5) (CapId 7))
      = Return \<lparr>args_op = 2, general = (7, 5, 0, 0)\<rparr>"
    by (simp add: CapTableOp_into_args_def SyscallArgs_new_def derived_num_enum_def CapId_into_usize_def SlotId_into_def)
  then show ?thesis
    using operations_roundtrip [OF derived_num_enum_spec, of 128 "Link (SlotId 5) (CapId 7)"] by simp
qed



text \<open>
  C27. Results cross the system call boundary unchanged: an error the kernel turns into an error
  number is the error user space gets, and every success value below \<open>2^63\<close> arrives as it is.
\<close>

theorem syscall_result_roundtrip:
  assumes "num_enum_spec N"
  shows "syscall N (\<lambda>_ _ _ _ _ _. to_errno e) cap args = Return (Err e)
    \<and> (unat v < 2 ^ 63 \<longrightarrow> syscall N (\<lambda>_ _ _ _ _ _. v) cap args = Return (Ok v))"
  using errno_roundtrip [OF assms] success_roundtrip by blast

theorem syscall_result_roundtrip_witness:
  "syscall derived_num_enum (\<lambda>_ _ _ _ _ _. - 2) (CapId 1) \<lparr>args_op = 2, general = (3, 4, 5, 6)\<rparr> = Return (Err NotFound)"
  using syscall_result_roundtrip [OF derived_num_enum_spec, of NotFound "CapId 1" "\<lparr>args_op = 2, general = (3, 4, 5, 6)\<rparr>"]
  by (simp add: to_errno_def)

end
