(* ===== verification/Page_Table.thy ===== *)
theory Page_Table
  imports Prelude Paging
begin

text \<open>
  Page table entries and tables (\<open>arch/x86_64/paging/page_table.rs\<close>): an entry packs a frame and
  the attribute flags into 64 bits, a table is an array of 512 entries.

  The flags are the type \<open>PageTableFlags\<close> of the crate \<open>x86_64\<close>. Its operations are the fields of
  the record \<open>ptf\<close>, an argument of the definitions that use them. \<open>ptf_spec\<close> is what the crate
  documents: \<open>from_bits\<close> accepts the bits that are flags, which are all but the frame bits 12 to
  51, \<open>bits\<close> inverts it, union and containment are bitwise, and the positions of the flags the kernel
  uses.
\<close>

unbundle bit_operations_syntax

section \<open>Definitions\<close>

record 'f ptf =
  from_bits :: "u64 \<Rightarrow> 'f option"
  bits :: "'f \<Rightarrow> u64"
  contains :: "'f \<Rightarrow> 'f \<Rightarrow> bool"
  flag_union :: "'f \<Rightarrow> 'f \<Rightarrow> 'f"
  flag_empty :: 'f
  PRESENT :: 'f
  WRITABLE :: 'f
  USER_ACCESSIBLE :: 'f
  HUGE_PAGE :: 'f
  NO_EXECUTE :: 'f

type_synonym PageTableEntry = u64
type_synonym AnyPageTable = "PageTableEntry list"

definition FRAME_MASK :: u64 where "FRAME_MASK = 0x000FFFFFFFFFF000"
definition FLAGS_MASK :: u64 where "FLAGS_MASK = NOT FRAME_MASK"

definition PageTableEntry_get :: "'f ptf \<Rightarrow> PageTableEntry \<Rightarrow> (RawFrame \<times> 'f) option run" where
  "PageTableEntry_get F value =
     (if value = 0 then Return None else
      bindR (PhysAddr_new (value AND FRAME_MASK)) (\<lambda>p.
      bindR (RawFrame_from_start_address p) (\<lambda>frame.
      bindR (unwrap (from_bits F (value AND FLAGS_MASK))) (\<lambda>flags.
      Return (Some (frame, flags))))))"

definition PageTableEntry_frame :: "'f ptf \<Rightarrow> PageTableEntry \<Rightarrow> RawFrame option run" where
  "PageTableEntry_frame F e = bindR (PageTableEntry_get F e) (\<lambda>r. Return (map_option fst r))"

definition PageTableEntry_flags :: "'f ptf \<Rightarrow> PageTableEntry \<Rightarrow> 'f option run" where
  "PageTableEntry_flags F e = bindR (PageTableEntry_get F e) (\<lambda>r. Return (map_option snd r))"

definition set_bits ::
    "'f ptf \<Rightarrow> u64 \<Rightarrow> PageTableEntry \<Rightarrow> ((RawFrame \<times> 'f) option \<times> PageTableEntry) run" where
  "set_bits F new_bits old =
     (if old = 0 then Return (None, new_bits) else
      let addr = old AND FRAME_MASK in
      bindR (unwrap (from_bits F (old AND FLAGS_MASK))) (\<lambda>attributes.
      bindR (PhysAddr_new addr) (\<lambda>p.
      bindR (RawFrame_from_start_address p) (\<lambda>frame.
      Return (Some (frame, attributes), new_bits)))))"

definition PageTableEntry_set ::
    "'f ptf \<Rightarrow> RawFrame \<Rightarrow> 'f \<Rightarrow> PageTableEntry \<Rightarrow> ((RawFrame \<times> 'f) option \<times> PageTableEntry) run" where
  "PageTableEntry_set F frame attributes e = set_bits F (bits F attributes OR as_u64 (frame_base frame)) e"

definition PageTableEntry_reset ::
    "'f ptf \<Rightarrow> PageTableEntry \<Rightarrow> ((RawFrame \<times> 'f) option \<times> PageTableEntry) run" where
  "PageTableEntry_reset F e = set_bits F 0 e"

definition PageTableEntry_set_flags :: "'f ptf \<Rightarrow> 'f \<Rightarrow> PageTableEntry \<Rightarrow> ('f \<times> PageTableEntry) run" where
  "PageTableEntry_set_flags F flags e =
     bindR (fetch_update (\<lambda>value. Return (Some ((value AND FRAME_MASK) OR bits F flags))) e) (\<lambda>(r, e').
     bindR (unwrap_ok r) (\<lambda>old.
     bindR (unwrap (from_bits F (old AND FLAGS_MASK))) (\<lambda>fl. Return (fl, e'))))"

subsection \<open>Tables\<close>

definition AnyPageTable_new :: AnyPageTable where
  "AnyPageTable_new = replicate 512 0"

text \<open>The index of the entry at an offset; the offset is below 512 by construction.\<close>

definition AnyPageTable_get :: "AnyPageTable \<Rightarrow> PageTableOffset \<Rightarrow> PageTableEntry" where
  "AnyPageTable_get t off = t ! unat (offset_u16 off)"

definition AnyPageTable_map ::
    "'f ptf \<Rightarrow> PageTableOffset \<Rightarrow> RawFrame \<Rightarrow> 'f \<Rightarrow> AnyPageTable \<Rightarrow> ((RawFrame \<times> 'f) option \<times> AnyPageTable) run" where
  "AnyPageTable_map F off frame attributes t =
     bindR (PageTableEntry_set F frame attributes (AnyPageTable_get t off)) (\<lambda>(r, e).
     Return (r, t[unat (offset_u16 off) := e]))"

definition AnyPageTable_unmap ::
    "'f ptf \<Rightarrow> PageTableOffset \<Rightarrow> AnyPageTable \<Rightarrow> ((RawFrame \<times> 'f) option \<times> AnyPageTable) run" where
  "AnyPageTable_unmap F off t =
     bindR (PageTableEntry_reset F (AnyPageTable_get t off)) (\<lambda>(r, e).
     Return (r, t[unat (offset_u16 off) := e]))"

definition AnyPageTable_set_flags ::
    "'f ptf \<Rightarrow> PageTableOffset \<Rightarrow> 'f \<Rightarrow> AnyPageTable \<Rightarrow> ('f \<times> AnyPageTable) run" where
  "AnyPageTable_set_flags F off attributes t =
     bindR (PageTableEntry_set_flags F attributes (AnyPageTable_get t off)) (\<lambda>(r, e).
     Return (r, t[unat (offset_u16 off) := e]))"

text \<open>The loop of \<open>clone_kernel\<close> over the given offsets of the current table.\<close>

primrec clone_entries ::
    "'f ptf \<Rightarrow> AnyPageTable \<Rightarrow> nat list \<Rightarrow> AnyPageTable \<Rightarrow> AnyPageTable run" where
  "clone_entries F current [] new = Return new"
| "clone_entries F current (i # is) new =
     bindR (unwrap_ok (PageTableOffset_new (of_nat i))) (\<lambda>off.
     bindR (PageTableEntry_get F (AnyPageTable_get current off)) (\<lambda>r.
     bindR (case r of
         None \<Rightarrow> Return new
       | Some (frame, flags) \<Rightarrow> bindR (AnyPageTable_map F off frame flags new) (\<lambda>(_, new). Return new)) (\<lambda>new.
     clone_entries F current is new)))"

definition clone_kernel_table :: "'f ptf \<Rightarrow> AnyPageTable \<Rightarrow> AnyPageTable run" where
  "clone_kernel_table F current = clone_entries F current [256..<512] AnyPageTable_new"

section \<open>The flags\<close>

definition ptf_spec :: "'f ptf \<Rightarrow> bool" where
  "ptf_spec F \<longleftrightarrow>
     (\<forall>b f. from_bits F b = Some f \<longleftrightarrow> bits F f = b)
   \<and> (\<forall>b. b AND FRAME_MASK = 0 \<longleftrightarrow> (\<exists>f. from_bits F b = Some f))
   \<and> (\<forall>f g. bits F (flag_union F f g) = bits F f OR bits F g)
   \<and> (\<forall>f g. contains F f g \<longleftrightarrow> bits F f AND bits F g = bits F g)
   \<and> bits F (flag_empty F) = 0
   \<and> bits F (PRESENT F) = 1 \<and> bits F (WRITABLE F) = 2 \<and> bits F (USER_ACCESSIBLE F) = 4
   \<and> bits F (HUGE_PAGE F) = 0x80 \<and> bits F (NO_EXECUTE F) = 0x8000000000000000"

lemma ptf_specD:
  assumes "ptf_spec F"
  shows "from_bits F b = Some f \<longleftrightarrow> bits F f = b"
    and "bits F f AND FRAME_MASK = 0"
    and "b AND FRAME_MASK = 0 \<Longrightarrow> \<exists>f. from_bits F b = Some f"
    and "bits F (flag_union F f g) = bits F f OR bits F g"
    and "contains F f g \<longleftrightarrow> bits F f AND bits F g = bits F g"
    and "bits F (PRESENT F) = 1" and "bits F (HUGE_PAGE F) = 0x80"
  using assms by (auto simp: ptf_spec_def)

lemma bits_inj: "ptf_spec F \<Longrightarrow> bits F f = bits F g \<Longrightarrow> f = g"
  by (metis option.inject ptf_specD(1))

text \<open>A concrete type of flags: the words without frame bits.\<close>

typedef flag_word = "{b :: u64. b AND FRAME_MASK = 0}"
  morphisms flag_bits to_flags
  by (rule exI [of _ 0]) simp

definition word_ptf :: "flag_word ptf" where
  "word_ptf = \<lparr>from_bits = (\<lambda>b. if b AND FRAME_MASK = 0 then Some (to_flags b) else None), bits = flag_bits,
     contains = (\<lambda>f g. flag_bits f AND flag_bits g = flag_bits g),
     flag_union = (\<lambda>f g. to_flags (flag_bits f OR flag_bits g)), flag_empty = to_flags 0,
     PRESENT = to_flags 1, WRITABLE = to_flags 2, USER_ACCESSIBLE = to_flags 4, HUGE_PAGE = to_flags 0x80,
     NO_EXECUTE = to_flags 0x8000000000000000\<rparr>"

lemma flag_bits_to_flags: "b AND FRAME_MASK = 0 \<Longrightarrow> flag_bits (to_flags b) = b"
  by (simp add: to_flags_inverse)

lemma flag_bits_mask [simp]: "flag_bits f AND FRAME_MASK = 0"
  using flag_bits [of f] by simp

lemma word_ptf_spec: "ptf_spec word_ptf"
proof -
  have "(flag_bits f OR flag_bits g) AND FRAME_MASK = 0" for f g
    by (simp add: bit.conj_disj_distrib2)
  moreover have "(1 :: u64) AND FRAME_MASK = 0" "(2 :: u64) AND FRAME_MASK = 0" "(4 :: u64) AND FRAME_MASK = 0"
    "(0x80 :: u64) AND FRAME_MASK = 0" "(0x8000000000000000 :: u64) AND FRAME_MASK = 0"
    by (simp_all add: FRAME_MASK_def)
  ultimately show ?thesis
    by (auto simp: ptf_spec_def word_ptf_def flag_bits_to_flags flag_bits_inverse)
qed

section \<open>Entries\<close>

lemma mask_split: "(e AND FLAGS_MASK) OR (e AND FRAME_MASK) = e"
  by (simp add: FLAGS_MASK_def)
     (metis bit.conj_disj_distrib or.commute and.right_neutral bit.disj_cancel_right)

lemma frame_bits_bound: "unat (e AND FRAME_MASK) < 2 ^ 52"
proof -
  have "e AND FRAME_MASK \<le> FRAME_MASK"
    by (rule word_and_le1)
  then have "unat (e AND FRAME_MASK) \<le> unat FRAME_MASK"
    by (simp add: word_le_nat_alt)
  also have "\<dots> < 2 ^ 52"
    by (simp add: FRAME_MASK_def)
  finally show ?thesis .
qed

lemma word_and_4095: "(a :: u64) mod 4096 = a AND 4095"
proof -
  have "a mod 4096 = take_bit 12 a"
    by (simp add: take_bit_eq_mod)
  then show ?thesis
    by (simp add: take_bit_eq_mask mask_eq_exp_minus_1)
qed

lemma frame_bits_aligned: "(e AND FRAME_MASK) mod 4096 = 0"
  by (simp add: word_and_4095 and.assoc) (simp add: FRAME_MASK_def)

lemma decode_frame [simp]:
  "bindR (PhysAddr_new (e AND FRAME_MASK)) (\<lambda>p. bindR (RawFrame_from_start_address p) k)
     = k (RawFrame (PhysAddr (e AND FRAME_MASK)))"
  using frame_bits_bound [of e]
  by (simp add: PhysAddr_new_eq RawFrame_from_start_address_def RawFrame_try_from_start_address_def
      frame_bits_aligned FRAME_SIZE_def)

lemma frame_bits_frame:
  assumes "frame_ok f"
  shows "as_u64 (frame_base f) AND FRAME_MASK = as_u64 (frame_base f)"
proof (rule bit_word_eqI)
  fix n :: nat assume n: "n < LENGTH(64)"
  let ?a = "as_u64 (frame_base f)"
  have mask: "FRAME_MASK = mask 52 AND NOT (mask 12)"
    by (simp add: FRAME_MASK_def mask_eq_exp_minus_1)
  have "take_bit 52 ?a = ?a"
    using assms by (simp add: frame_ok_def take_bit_eq_mod word_unat_eq_iff unat_mod)
  then have "\<not> bit ?a n" if "52 \<le> n"
    using that by (metis bit_take_bit_iff not_less)
  moreover have "take_bit 12 ?a = 0"
    using assms by (simp add: frame_ok_def FRAME_SIZE_def take_bit_eq_mod)
  then have "\<not> bit ?a n" if "n < 12"
    using that by (metis bit_take_bit_iff bit_0_eq bot_apply bot_bool_def)
  ultimately have "bit ?a n \<Longrightarrow> 12 \<le> n \<and> n < 52"
    using not_less by blast
  then show "bit (?a AND FRAME_MASK) n = bit ?a n"
    using n by (auto simp: mask bit_simps)
qed

lemma PageTableEntry_get_eq:
  assumes "ptf_spec F"
  shows "PageTableEntry_get F 0 = Return None"
    and "e \<noteq> 0 \<Longrightarrow> \<exists>fl. PageTableEntry_get F e = Return (Some (RawFrame (PhysAddr (e AND FRAME_MASK)), fl))
      \<and> bits F fl = e AND FLAGS_MASK"
proof -
  have "(e AND FLAGS_MASK) AND FRAME_MASK = 0"
    by (simp add: FLAGS_MASK_def and.assoc)
  then obtain fl where "from_bits F (e AND FLAGS_MASK) = Some fl"
    using ptf_specD(3) [OF assms] by blast
  moreover from this have "bits F fl = e AND FLAGS_MASK"
    using ptf_specD(1) [OF assms] by simp
  ultimately show "e \<noteq> 0 \<Longrightarrow> \<exists>fl. PageTableEntry_get F e = Return (Some (RawFrame (PhysAddr (e AND FRAME_MASK)), fl))
      \<and> bits F fl = e AND FLAGS_MASK"
    by (simp add: PageTableEntry_get_def)
qed (simp add: PageTableEntry_get_def)

lemma set_bits_eq:
  assumes "ptf_spec F"
  shows "set_bits F b e = bindR (PageTableEntry_get F e) (\<lambda>r. Return (r, b))"
proof (cases "e = 0")
  case False
  with PageTableEntry_get_eq(2) [OF assms False] show ?thesis
    by (auto simp: set_bits_def PageTableEntry_get_def Let_def bindR_eq_Return)
qed (simp add: set_bits_def PageTableEntry_get_def)

definition mk_pte :: "'f ptf \<Rightarrow> RawFrame \<Rightarrow> 'f \<Rightarrow> PageTableEntry" where
  "mk_pte F f fl = bits F fl OR as_u64 (frame_base f)"

lemma mk_pte_masks:
  assumes "ptf_spec F" and "frame_ok f"
  shows "mk_pte F f fl AND FRAME_MASK = as_u64 (frame_base f)" and "mk_pte F f fl AND FLAGS_MASK = bits F fl"
proof -
  have b: "bits F fl AND FRAME_MASK = 0"
    by (rule ptf_specD(2) [OF assms(1)])
  have fb: "as_u64 (frame_base f) AND FLAGS_MASK = 0"
    using frame_bits_frame [OF assms(2)] by (metis FLAGS_MASK_def and.assoc and.right_neutral bit.conj_cancel_right and_zero_eq)
  have "bits F fl AND FLAGS_MASK = bits F fl"
    using mask_split [of "bits F fl"] b by simp
  with b fb frame_bits_frame [OF assms(2)] show "mk_pte F f fl AND FRAME_MASK = as_u64 (frame_base f)"
    and "mk_pte F f fl AND FLAGS_MASK = bits F fl"
    by (simp_all add: mk_pte_def bit.conj_disj_distrib2)
qed

lemma get_mk_pte:
  assumes "ptf_spec F" and "frame_ok f" and "mk_pte F f fl \<noteq> 0"
  shows "PageTableEntry_get F (mk_pte F f fl) = Return (Some (f, fl))"
proof -
  from PageTableEntry_get_eq(2) [OF assms(1,3)] obtain fl' where
    *: "PageTableEntry_get F (mk_pte F f fl) = Return (Some (RawFrame (PhysAddr (mk_pte F f fl AND FRAME_MASK)), fl'))"
    "bits F fl' = mk_pte F f fl AND FLAGS_MASK" by blast
  with mk_pte_masks [OF assms(1,2)] bits_inj [OF assms(1)] show ?thesis
    by simp
qed

lemma PageTableEntry_set_eq:
  "ptf_spec F \<Longrightarrow> PageTableEntry_set F f fl e = bindR (PageTableEntry_get F e) (\<lambda>r. Return (r, mk_pte F f fl))"
  by (simp add: PageTableEntry_set_def set_bits_eq mk_pte_def)

lemma PageTableEntry_get_returns: "ptf_spec F \<Longrightarrow> \<exists>r. PageTableEntry_get F e = Return r"
  using PageTableEntry_get_eq [of F] by (cases "e = 0") auto

lemma PageTableEntry_get_cases:
  assumes "ptf_spec F"
  obtains "e = 0" "PageTableEntry_get F e = Return None"
  | f fl where "e \<noteq> 0" "PageTableEntry_get F e = Return (Some (f, fl))" "frame_ok f" "mk_pte F f fl = e"
proof (cases "e = 0")
  case True
  then show thesis
    using that(1) PageTableEntry_get_eq(1) [OF assms] by blast
next
  case False
  from PageTableEntry_get_eq(2) [OF assms False] obtain fl where
    *: "PageTableEntry_get F e = Return (Some (RawFrame (PhysAddr (e AND FRAME_MASK)), fl))" "bits F fl = e AND FLAGS_MASK"
    by blast
  have "frame_ok (RawFrame (PhysAddr (e AND FRAME_MASK)))"
    using frame_bits_bound [of e] by (simp add: frame_ok_def FRAME_SIZE_def frame_bits_aligned)
  moreover have "mk_pte F (RawFrame (PhysAddr (e AND FRAME_MASK))) fl = e"
    using *(2) mask_split [of e] by (simp add: mk_pte_def)
  ultimately show thesis
    using that(2) False * by blast
qed

section \<open>Tables\<close>

lemma AnyPageTable_map_eq:
  assumes "ptf_spec F"
  shows "\<exists>r. AnyPageTable_map F off f fl t = Return (r, t[unat (offset_u16 off) := mk_pte F f fl])"
  using PageTableEntry_get_returns [OF assms, of "AnyPageTable_get t off"]
  by (auto simp: AnyPageTable_map_def PageTableEntry_set_eq [OF assms])

lemma clone_step:
  assumes "ptf_spec F" and "i < 512"
  shows "clone_entries F current (i # is) new =
     clone_entries F current is (if current ! i = 0 then new else new[i := current ! i])"
proof -
  have idx: "unat (of_nat i :: u16) = i"
    using assms(2) by (subst unat_of_nat) simp
  then have off: "PageTableOffset_new (of_nat i) = Ok (PageTableOffset (of_nat i))"
    using assms(2) by (simp add: PageTableOffset_new_def word_less_nat_alt)
  show ?thesis
  proof (cases "current ! i" rule: PageTableEntry_get_cases [OF assms(1), case_names zero entry])
    case zero
    then show ?thesis by (simp add: off AnyPageTable_get_def idx)
  next
    case (entry f fl)
    then show ?thesis
      using AnyPageTable_map_eq [OF assms(1), of "PageTableOffset (of_nat i)" f fl new]
      by (auto simp: off AnyPageTable_get_def idx)
  qed
qed

lemma clone_entries_eq:
  assumes "ptf_spec F" and "length new = 512" and "\<forall>i \<in> set is. i < 512"
  shows "\<exists>t. clone_entries F current is new = Return t \<and> length t = 512
    \<and> (\<forall>i < 512. t ! i = (if i \<in> set is \<and> current ! i \<noteq> 0 then current ! i else new ! i))"
  using assms(2,3)
proof (induction "is" arbitrary: new)
  case (Cons k ks)
  let ?new = "if current ! k = 0 then new else new[k := current ! k]"
  have "length ?new = 512" and "\<forall>i \<in> set ks. i < 512"
    using Cons.prems by simp_all
  from Cons.IH [OF this] obtain t where t: "clone_entries F current ks ?new = Return t"
    "length t = 512" "\<forall>i < 512. t ! i = (if i \<in> set ks \<and> current ! i \<noteq> 0 then current ! i else ?new ! i)"
    by blast
  have "t ! i = (if i \<in> set (k # ks) \<and> current ! i \<noteq> 0 then current ! i else new ! i)" if "i < 512" for i
    using t(3) that Cons.prems by (auto simp: nth_list_update)
  moreover have "clone_entries F current (k # ks) new = Return t"
    using clone_step [OF assms(1), of k current ks new] Cons.prems(2) t(1) by simp
  ultimately show ?case
    using t(2) by blast
qed simp

lemma clone_kernel_table_eq:
  assumes "ptf_spec F" and "length current = 512"
  shows "clone_kernel_table F current = Return (replicate 256 0 @ drop 256 current)"
proof -
  obtain "is" where "is": "is = [256..<512]" "set is = {256..<512}"
    using set_upt [of 256 512] by blast
  obtain t where t: "clone_entries F current is AnyPageTable_new = Return t" "length t = 512"
    "\<forall>i < 512. t ! i = (if i \<in> set is \<and> current ! i \<noteq> 0 then current ! i else AnyPageTable_new ! i)"
    using clone_entries_eq [OF assms(1), of AnyPageTable_new "is" current] "is"(2)
    by (auto simp: AnyPageTable_new_def)
  have "t = replicate 256 0 @ drop 256 current"
  proof (rule nth_equalityI)
    show "length t = length (replicate 256 0 @ drop 256 current)"
      using t(2) assms(2) by simp
    show "t ! i = (replicate 256 0 @ drop 256 current) ! i" if "i < length t" for i
      using that t(2,3) assms(2) by (auto simp: "is"(2) AnyPageTable_new_def nth_append)
  qed
  with t(1) show ?thesis
    by (simp only: clone_kernel_table_def "is"(1))
qed

section \<open>Properties\<close>

text \<open>
  C32. Storing a frame and its flags in an entry and reading the entry gives them back, \<open>set\<close> reports
  what the entry held before, and changing the flags keeps the frame; none of this panics. (An
  entry that would be all zero is empty, so the frame or the flags must not be zero.)
\<close>

theorem page_table_entry_roundtrip:
  assumes "ptf_spec F" and "frame_ok f" and "bits F fl \<noteq> 0 \<or> as_u64 (frame_base f) \<noteq> 0"
  shows "\<exists>old e'. PageTableEntry_set F f fl e = Return (old, e') \<and> PageTableEntry_get F e = Return old
    \<and> PageTableEntry_get F e' = Return (Some (f, fl))
    \<and> (\<forall>fl2. bits F fl2 \<noteq> 0 \<longrightarrow> (\<exists>e''. PageTableEntry_set_flags F fl2 e' = Return (fl, e'')
         \<and> PageTableEntry_get F e'' = Return (Some (f, fl2))))"
proof -
  note m = mk_pte_masks [OF assms(1,2)]
  have nz: "mk_pte F f fl \<noteq> 0"
    using assms(3) m(1,2) [of fl] by auto
  obtain old where old: "PageTableEntry_get F e = Return old"
    using PageTableEntry_get_returns [OF assms(1)] by blast
  have "PageTableEntry_set_flags F fl2 (mk_pte F f fl) = Return (fl, mk_pte F f fl2)" for fl2
  proof -
    have "(mk_pte F f fl AND FRAME_MASK) OR bits F fl2 = mk_pte F f fl2"
      unfolding m(1) by (simp add: mk_pte_def or.commute)
    moreover have "from_bits F (mk_pte F f fl AND FLAGS_MASK) = Some fl"
      using m(2) ptf_specD(1) [OF assms(1)] by simp
    ultimately show ?thesis
      by (simp add: PageTableEntry_set_flags_def fetch_update_def)
  qed
  moreover have "mk_pte F f fl2 \<noteq> 0" if "bits F fl2 \<noteq> 0" for fl2
    using that m(2) [of fl2] by auto
  ultimately show ?thesis
    using old nz get_mk_pte [OF assms(1,2)] by (simp add: PageTableEntry_set_eq [OF assms(1)])
qed

theorem page_table_entry_roundtrip_witness:
  "\<exists>old e'. PageTableEntry_set word_ptf (RawFrame (PhysAddr 0x5000)) (to_flags 3) 0 = Return (old, e')
    \<and> PageTableEntry_get word_ptf e' = Return (Some (RawFrame (PhysAddr 0x5000), to_flags 3))"
  using page_table_entry_roundtrip [OF word_ptf_spec, of "RawFrame (PhysAddr 0x5000)" "to_flags 3" 0]
  by (auto simp: frame_ok_def FRAME_SIZE_def)

text \<open>
  C33. A new address space shares the kernel's half and nothing else: the copy of the current
  top-level table that \<open>clone_kernel\<close> makes has the same upper 256 entries and an empty lower
  half.
\<close>

theorem clone_kernel_copies_upper_half:
  assumes "ptf_spec F" and "length current = 512"
  shows "clone_kernel_table F current = Return (replicate 256 0 @ drop 256 current)"
  by (rule clone_kernel_table_eq [OF assms])

theorem clone_kernel_copies_upper_half_witness:
  "clone_kernel_table word_ptf (replicate 512 0x5003) = Return (replicate 256 0 @ replicate 256 0x5003)"
  using clone_kernel_copies_upper_half [OF word_ptf_spec, of "replicate 512 0x5003"] by simp

end
