(* ===== verification/Exec.thy ===== *)
theory Exec
  imports Prelude Paging
begin

text \<open>
  Execution contexts and the assembly that saves and restores them: \<open>arch/x86_64/exec.rs\<close>, the
  stubs and contexts of \<open>arch/x86_64/interrupts/handlers.rs\<close>, and the trap \<open>raw_syscall\<close> of
  \<open>kapi/src/raw.rs\<close>.

  The assembly blocks are lists of instructions that act on the processor state \<open>cpu\<close>. The stack
  in use is a function \<open>stk\<close> from positions to words, where position \<open>k\<close> is the word at
  \<open>stack_end.sub(k)\<close>, together with the number of words pushed; popping leaves the words in place,
  so that reading a position that was never written gives what happened to be there. Other memory
  is the function \<open>mem\<close> from addresses to 64-bit words.
\<close>

section \<open>Contexts\<close>

record ScratchRegs =
  rax :: u64
  rcx :: u64
  rdx :: u64
  rsi :: u64
  rdi :: u64
  r8 :: u64
  r9 :: u64
  r10 :: u64
  r11 :: u64

record PreservedRegs =
  rbx :: u64
  rbp :: u64
  r12 :: u64
  r13 :: u64
  r14 :: u64
  r15 :: u64

record ControlRegs =
  rflags :: u64
  rsp :: u64
  rip :: u64

record Regs =
  scratch :: ScratchRegs
  preserved :: PreservedRegs
  control :: ControlRegs

record ExecCtx =
  ctx_regs :: Regs
  ctx_l4_frame :: RawFrame

definition ScratchRegs_default :: ScratchRegs where
  "ScratchRegs_default = \<lparr>rax = 0, rcx = 0, rdx = 0, rsi = 0, rdi = 0, r8 = 0, r9 = 0, r10 = 0, r11 = 0\<rparr>"

definition PreservedRegs_default :: PreservedRegs where
  "PreservedRegs_default = \<lparr>rbx = 0, rbp = 0, r12 = 0, r13 = 0, r14 = 0, r15 = 0\<rparr>"

definition ControlRegs_default :: ControlRegs where
  "ControlRegs_default = \<lparr>rflags = 0, rsp = 0, rip = 0\<rparr>"

definition Regs_default :: Regs where
  "Regs_default = \<lparr>scratch = ScratchRegs_default, preserved = PreservedRegs_default, control = ControlRegs_default\<rparr>"

definition ExecCtx_new :: "RawFrame \<Rightarrow> Regs \<Rightarrow> ExecCtx" where
  "ExecCtx_new l4_frame regs = \<lparr>ctx_regs = regs, ctx_l4_frame = l4_frame\<rparr>"

definition ExecCtx_set_l4_frame :: "RawFrame \<Rightarrow> ExecCtx \<Rightarrow> ExecCtx" where
  "ExecCtx_set_l4_frame l4_frame self = self\<lparr>ctx_l4_frame := l4_frame\<rparr>"

text \<open>The memory of a context, word by word, as the \<open>repr(C)\<close> structs lay it out.\<close>

definition ctx_words :: "ExecCtx \<Rightarrow> u64 list" where
  "ctx_words ctx = (let s = scratch (ctx_regs ctx); p = preserved (ctx_regs ctx); c = control (ctx_regs ctx) in
     [rax s, rcx s, rdx s, rsi s, rdi s, r8 s, r9 s, r10 s, r11 s,
      rbx p, rbp p, r12 p, r13 p, r14 p, r15 p,
      rflags c, rsp c, rip c,
      as_u64 (frame_base (ctx_l4_frame ctx))])"

section \<open>The processor\<close>

datatype reg =
  RAX | RBX | RCX | RDX | RSI | RDI | RBP | R8 | R9 | R10 | R11 | R12 | R13 | R14 | R15

datatype segment = DS | ES | FS | GS

record cpu =
  gpr :: "reg \<Rightarrow> u64"
  stk :: "nat \<Rightarrow> u64"
  depth :: nat
  mem :: "u64 \<Rightarrow> u64"
  cr3 :: u64
  seg :: "segment \<Rightarrow> u16"

datatype instr =
  Push reg | Pop reg | PushImm u64 | PushMem reg nat | MovMem reg reg nat
  | SubRsp | AddRsp | MovFromCr3 reg | MovToCr3 reg | Cmp reg reg | MovAx u16 | MovSeg segment

definition push_word :: "u64 \<Rightarrow> cpu \<Rightarrow> cpu" where
  "push_word v c = c\<lparr>stk := (stk c)(Suc (depth c) := v), depth := Suc (depth c)\<rparr>"

text \<open>
  \<open>PushMem b k\<close> is \<open>push [b + 8*k]\<close> and \<open>MovMem r b k\<close> is \<open>mov r, [b + 8*k]\<close>; \<open>SubRsp\<close> and
  \<open>AddRsp\<close> move the stack pointer by one word; \<open>MovAx\<close> writes the low 16 bits of \<open>rax\<close>. Comparing sets
  flags only, which nothing reads.
\<close>

primrec step :: "instr \<Rightarrow> cpu \<Rightarrow> cpu" where
  "step (Push r) c = push_word (gpr c r) c"
| "step (Pop r) c = c\<lparr>gpr := (gpr c)(r := stk c (depth c)), depth := depth c - 1\<rparr>"
| "step (PushImm v) c = push_word v c"
| "step (PushMem b k) c = push_word (mem c (gpr c b + of_nat (8 * k))) c"
| "step (MovMem r b k) c = c\<lparr>gpr := (gpr c)(r := mem c (gpr c b + of_nat (8 * k)))\<rparr>"
| "step SubRsp c = c\<lparr>depth := Suc (depth c)\<rparr>"
| "step AddRsp c = c\<lparr>depth := depth c - 1\<rparr>"
| "step (MovFromCr3 r) c = c\<lparr>gpr := (gpr c)(r := cr3 c)\<rparr>"
| "step (MovToCr3 r) c = c\<lparr>cr3 := gpr c r\<rparr>"
| "step (Cmp a b) c = c"
| "step (MovAx v) c = c\<lparr>gpr := (gpr c)(RAX := (gpr c RAX AND NOT 0xFFFF) OR ucast v)\<rparr>"
| "step (MovSeg s) c = c\<lparr>seg := (seg c)(s := ucast (gpr c RAX))\<rparr>"

primrec steps :: "instr list \<Rightarrow> cpu \<Rightarrow> cpu" where
  "steps [] c = c"
| "steps (i # is) c = steps is (step i c)"

lemma steps_append: "steps (is @ js) c = steps js (steps is c)"
  by (induction "is" arbitrary: c) simp_all

text \<open>
  What an interrupt from user space pushes, and what \<open>iretq\<close> takes: the user's \<open>ss\<close>, \<open>rsp\<close>,
  \<open>rflags\<close>, \<open>cs\<close> and \<open>rip\<close>.
\<close>

record user_frame =
  u_ss :: u64
  u_rsp :: u64
  u_rflags :: u64
  u_cs :: u64
  u_rip :: u64

definition trap_entry :: "user_frame \<Rightarrow> cpu \<Rightarrow> cpu" where
  "trap_entry u c = push_word (u_rip u) (push_word (u_cs u) (push_word (u_rflags u)
     (push_word (u_rsp u) (push_word (u_ss u) (c\<lparr>depth := 0\<rparr>)))))"

definition iretq :: "cpu \<Rightarrow> user_frame" where
  "iretq c = (let d = depth c in
     \<lparr>u_ss = stk c (d - 4), u_rsp = stk c (d - 3), u_rflags = stk c (d - 2), u_cs = stk c (d - 1), u_rip = stk c d\<rparr>)"

section \<open>Assembly\<close>

definition push_scratch :: "instr list" where
  "push_scratch = List.map Push [R11, R10, R9, R8, RDI, RSI, RDX, RCX, RAX]"

definition pop_scratch :: "instr list" where
  "pop_scratch = List.map Pop [RAX, RCX, RDX, RSI, RDI, R8, R9, R10, R11]"

definition push_preserved :: "instr list" where
  "push_preserved = List.map Push [R15, R14, R13, R12, RBP, RBX]"

definition pop_preserved :: "instr list" where
  "pop_preserved = List.map Pop [RBX, RBP, R12, R13, R14, R15]"

text \<open>The stubs; the called function is a transformation of the processor state.\<close>

definition interrupt_stub :: "(cpu \<Rightarrow> cpu) \<Rightarrow> cpu \<Rightarrow> cpu" where
  "interrupt_stub inner c =
     steps (pop_scratch @ pop_preserved) (inner (steps (push_preserved @ push_scratch) c))"

definition syscall_interrupt :: "(cpu \<Rightarrow> cpu) \<Rightarrow> cpu \<Rightarrow> cpu" where
  "syscall_interrupt handle_syscall c =
     steps (AddRsp # pop_preserved) (handle_syscall (steps (push_preserved @ [SubRsp]) c))"

definition raw_syscall_enter :: "instr list" where
  "raw_syscall_enter = List.map Push [RBX, RBP, R12, R13, R14, R15]"

definition raw_syscall_leave :: "instr list" where
  "raw_syscall_leave = List.map Pop [R15, R14, R13, R12, RBP, RBX]"

definition dispatch_code :: "instr list" where
  "dispatch_code =
     [Pop RAX, MovFromCr3 RBX, MovMem RAX RDI 18, Cmp RAX RBX, MovToCr3 RAX,
      MovAx ((4 * 8) OR 3), MovSeg DS, MovSeg ES, MovSeg FS, MovSeg GS,
      MovMem RAX RDI 0, MovMem RCX RDI 1, MovMem RDX RDI 2, MovMem RSI RDI 3,
      MovMem R8 RDI 5, MovMem R9 RDI 6, MovMem R10 RDI 7, MovMem R11 RDI 8,
      MovMem RBX RDI 9, MovMem RBP RDI 10, MovMem R12 RDI 11, MovMem R13 RDI 12, MovMem R14 RDI 13,
      MovMem R15 RDI 14,
      PushImm ((4 * 8) OR 3), PushMem RDI 16, PushMem RDI 15, PushImm ((3 * 8) OR 3), PushMem RDI 17,
      MovMem RDI RDI 4]"

section \<open>Saved contexts\<close>

record SyscallCtx =
  sys_control :: ControlRegs
  sys_preserved :: PreservedRegs

record IrqCtx =
  irq_control :: ControlRegs
  irq_preserved :: PreservedRegs
  irq_scratch :: ScratchRegs

text \<open>
  Reading a register struct from the stack: its first field is at position \<open>k\<close>, and the following
  fields at the higher addresses, that is the lower positions.
\<close>

definition read_preserved :: "(nat \<Rightarrow> u64) \<Rightarrow> nat \<Rightarrow> PreservedRegs" where
  "read_preserved m k = \<lparr>rbx = m k, rbp = m (k - 1), r12 = m (k - 2), r13 = m (k - 3), r14 = m (k - 4), r15 = m (k - 5)\<rparr>"

definition read_scratch :: "(nat \<Rightarrow> u64) \<Rightarrow> nat \<Rightarrow> ScratchRegs" where
  "read_scratch m k = \<lparr>rax = m k, rcx = m (k - 1), rdx = m (k - 2), rsi = m (k - 3), rdi = m (k - 4),
     r8 = m (k - 5), r9 = m (k - 6), r10 = m (k - 7), r11 = m (k - 8)\<rparr>"

definition SyscallCtx_current :: "(nat \<Rightarrow> u64) \<Rightarrow> SyscallCtx" where
  "SyscallCtx_current m =
     \<lparr>sys_control = \<lparr>rflags = m 3, rsp = m 2, rip = m 5\<rparr>, sys_preserved = read_preserved m 12\<rparr>"

definition IrqCtx_current :: "(nat \<Rightarrow> u64) \<Rightarrow> IrqCtx" where
  "IrqCtx_current m =
     \<lparr>irq_control = \<lparr>rflags = m 3, rsp = m 2, rip = m 5\<rparr>, irq_preserved = read_preserved m 12,
      irq_scratch = read_scratch m 21\<rparr>"

definition SyscallCtx_save_state :: "SyscallCtx \<Rightarrow> Regs \<Rightarrow> Regs" where
  "SyscallCtx_save_state s regs = regs\<lparr>control := sys_control s, preserved := sys_preserved s\<rparr>"

definition IrqCtx_save_state :: "IrqCtx \<Rightarrow> Regs \<Rightarrow> Regs" where
  "IrqCtx_save_state s regs = regs\<lparr>control := irq_control s, preserved := irq_preserved s, scratch := irq_scratch s\<rparr>"

definition NoopSaver_save_state :: "Regs \<Rightarrow> Regs" where
  "NoopSaver_save_state regs = regs"

section \<open>Properties\<close>

lemmas asm_defs = push_scratch_def pop_scratch_def push_preserved_def pop_preserved_def push_word_def
  raw_syscall_enter_def raw_syscall_leave_def

text \<open>
  C21. Dispatching a context loads it completely: from the address of a context in \<open>rdi\<close>, the code
  ends with every general-purpose register as saved, the saved page table in \<open>cr3\<close>, and \<open>iretq\<close>
  continues at the saved \<open>rip\<close> with the saved \<open>rsp\<close> and \<open>rflags\<close>, in the user code and stack
  segments with privilege level 3.
\<close>

theorem dispatch_loads_the_context:
  assumes "\<forall>k < 19. mem c (gpr c RDI + of_nat (8 * k)) = ctx_words ctx ! k"
  defines "c' \<equiv> steps dispatch_code c" and "s \<equiv> scratch (ctx_regs ctx)" and "p \<equiv> preserved (ctx_regs ctx)"
    and "t \<equiv> control (ctx_regs ctx)"
  shows "gpr c' RAX = rax s \<and> gpr c' RCX = rcx s \<and> gpr c' RDX = rdx s \<and> gpr c' RSI = rsi s \<and> gpr c' RDI = rdi s
    \<and> gpr c' R8 = r8 s \<and> gpr c' R9 = r9 s \<and> gpr c' R10 = r10 s \<and> gpr c' R11 = r11 s
    \<and> gpr c' RBX = rbx p \<and> gpr c' RBP = rbp p \<and> gpr c' R12 = r12 p \<and> gpr c' R13 = r13 p
    \<and> gpr c' R14 = r14 p \<and> gpr c' R15 = r15 p
    \<and> cr3 c' = as_u64 (frame_base (ctx_l4_frame ctx))
    \<and> iretq c' = \<lparr>u_ss = 0x23, u_rsp = rsp t, u_rflags = rflags t, u_cs = 0x1B, u_rip = rip t\<rparr>"
proof -
  have m: "k < 19 \<Longrightarrow> mem c (gpr c RDI + of_nat (8 * k)) = ctx_words ctx ! k" for k
    using assms(1) by blast
  show ?thesis
    using m [of 0] m [of 1] m [of 2] m [of 3] m [of 4] m [of 5] m [of 6] m [of 7] m [of 8] m [of 9] m [of 10]
      m [of 11] m [of 12] m [of 13] m [of 14] m [of 15] m [of 16] m [of 17] m [of 18]
    unfolding c'_def s_def p_def t_def
    by (simp add: dispatch_code_def push_word_def iretq_def Let_def ctx_words_def)
qed

definition sample_ctx :: ExecCtx where
  "sample_ctx = \<lparr>ctx_regs = Regs_default\<lparr>control := \<lparr>rflags = 0x202, rsp = 0x700000000000, rip = 0x400000\<rparr>\<rparr>,
     ctx_l4_frame = RawFrame (PhysAddr 0x5000)\<rparr>"

text \<open>A processor that finds the sample context at address 0.\<close>

definition sample_cpu :: cpu where
  "sample_cpu = \<lparr>gpr = (\<lambda>_. 0), stk = (\<lambda>_. 0), depth = 1, mem = (\<lambda>a. ctx_words sample_ctx ! unat (a div 8)),
     cr3 = 0, seg = (\<lambda>_. 0)\<rparr>"

theorem dispatch_loads_the_context_witness:
  "iretq (steps dispatch_code sample_cpu)
     = \<lparr>u_ss = 0x23, u_rsp = 0x700000000000, u_rflags = 0x202, u_cs = 0x1B, u_rip = 0x400000\<rparr>"
proof -
  have "mem sample_cpu (gpr sample_cpu RDI + of_nat (8 * k)) = ctx_words sample_ctx ! k" if "k < 19" for k
  proof -
    have "unat (of_nat (8 * k) :: u64) = 8 * k"
      using that by (subst unat_of_nat) simp
    then have "unat ((of_nat (8 * k) :: u64) div 8) = k"
      by (simp add: unat_div)
    then show ?thesis by (simp add: sample_cpu_def)
  qed
  then have "\<forall>k < 19. mem sample_cpu (gpr sample_cpu RDI + of_nat (8 * k)) = ctx_words sample_ctx ! k"
    by blast
  from dispatch_loads_the_context [OF this] show ?thesis
    by (simp add: sample_ctx_def)
qed

text \<open>
  C22. The stub of a hardware interrupt is transparent: whatever the called function does to the
  registers, as long as it returns with the stack as it found it, every register is restored and
  the words below, which \<open>iretq\<close> takes, are unchanged.
\<close>

theorem interrupt_stub_restores_registers:
  assumes "\<forall>x. depth (inner x) = depth x \<and> (\<forall>k \<le> depth x. stk (inner x) k = stk x k)"
  shows "gpr (interrupt_stub inner c) = gpr c \<and> depth (interrupt_stub inner c) = depth c
    \<and> (\<forall>k \<le> depth c. stk (interrupt_stub inner c) k = stk c k)"
proof -
  obtain x where x: "steps (push_preserved @ push_scratch) c = x" by simp
  have "depth (inner x) = depth x" and stk: "\<And>k. k \<le> depth x \<Longrightarrow> stk (inner x) k = stk x k"
    using assms by blast+
  moreover have "depth x = depth c + 15"
    using x by (auto simp: asm_defs)
  ultimately have d: "depth (inner x) = depth c + 15" by simp
  have w: "stk (inner x) k = stk x k" if "k \<le> depth c + 15" for k
    using stk that \<open>depth x = depth c + 15\<close> by simp
  have "gpr (interrupt_stub inner c) r = gpr c r" for r
    using x by (cases r) (auto simp: interrupt_stub_def asm_defs d w)
  moreover have "depth (interrupt_stub inner c) = depth c"
    "stk (interrupt_stub inner c) k = stk (inner x) k" for k
    using x by (simp_all add: interrupt_stub_def asm_defs d)
  moreover have "stk x k = stk c k" if "k \<le> depth c" for k
    using x that by (auto simp: asm_defs)
  ultimately show ?thesis
    using w by auto
qed

theorem interrupt_stub_restores_registers_witness:
  "gpr (interrupt_stub (\<lambda>c. c\<lparr>gpr := \<lambda>_. 7\<rparr>) sample_cpu) RBX = 0"
  using interrupt_stub_restores_registers [of "\<lambda>c. c\<lparr>gpr := \<lambda>_. 7\<rparr>" sample_cpu]
  by (simp add: sample_cpu_def)

text \<open>
  C39. The context that a system call saves has the right control registers, but its preserved
  registers are read one word too deep: \<open>rbx\<close> is the unused alignment slot of the stub, and each
  of the others holds its neighbour's value, \<open>rbp\<close> that of \<open>rbx\<close> up to \<open>r15\<close> that of \<open>r14\<close>.
\<close>

theorem syscall_ctx_is_shifted:
  "SyscallCtx_current (stk (steps (push_preserved @ [SubRsp]) (trap_entry u c))) =
     \<lparr>sys_control = \<lparr>rflags = u_rflags u, rsp = u_rsp u, rip = u_rip u\<rparr>,
      sys_preserved = \<lparr>rbx = stk c 12, rbp = gpr c RBX, r12 = gpr c RBP, r13 = gpr c R12, r14 = gpr c R13,
        r15 = gpr c R14\<rparr>\<rparr>"
  by (simp add: SyscallCtx_current_def read_preserved_def trap_entry_def asm_defs numeral_nat)

text \<open>
  The context of a hardware interrupt is read one word too deep as well: \<open>rbx\<close> gets the value
  of \<open>r11\<close>, \<open>rax\<close> what was below the saved registers, and the others their neighbours' values.
\<close>

lemma irq_ctx_is_shifted:
  "IrqCtx_current (stk (steps (push_preserved @ push_scratch) (trap_entry u c))) =
     \<lparr>irq_control = \<lparr>rflags = u_rflags u, rsp = u_rsp u, rip = u_rip u\<rparr>,
      irq_preserved = \<lparr>rbx = gpr c R11, rbp = gpr c RBX, r12 = gpr c RBP, r13 = gpr c R12, r14 = gpr c R13,
        r15 = gpr c R14\<rparr>,
      irq_scratch = \<lparr>rax = stk c 21, rcx = gpr c RAX, rdx = gpr c RCX, rsi = gpr c RDX, rdi = gpr c RSI,
        r8 = gpr c RDI, r9 = gpr c R8, r10 = gpr c R9, r11 = gpr c R10\<rparr>\<rparr>"
  by (simp add: IrqCtx_current_def read_preserved_def read_scratch_def trap_entry_def asm_defs numeral_nat)

text \<open>
  User space does not notice: \<open>raw_syscall\<close> saves the preserved registers on the user's stack
  before the trap and restores them after it, so its caller finds them unchanged whatever values
  the kernel resumes the thread with, provided the stack is as the trap left it.
\<close>

lemma raw_syscall_preserves_registers:
  assumes "depth k = depth (steps raw_syscall_enter c)"
    and "\<forall>i \<le> depth k. stk k i = stk (steps raw_syscall_enter c) i"
  shows "(\<forall>r \<in> {RBX, RBP, R12, R13, R14, R15}. gpr (steps raw_syscall_leave k) r = gpr c r)
    \<and> gpr (steps raw_syscall_leave k) RAX = gpr k RAX
    \<and> depth (steps raw_syscall_leave k) = depth c"
proof -
  have d: "depth k = depth c + 6"
    using assms(1) by (simp add: asm_defs)
  have w: "stk k i = stk (steps raw_syscall_enter c) i" if "i \<le> depth c + 6" for i
    using assms(2) that d by simp
  show ?thesis
    using w [of "depth c + 6"] w [of "5 + depth c"] w [of "4 + depth c"] w [of "3 + depth c"] w [of "depth c + 2"]
      w [of "depth c + 1"]
    by (simp add: asm_defs d)
qed

end
