(* ===== verification/Kernel_State.thy ===== *)
theory Kernel_State
  imports Prelude Paging Cells Retype_Entry Retyping Page_Table Trie Kapi Exec
begin

text \<open>
  The state of the running kernel and the objects that live in its frames: capability tables
  (\<open>kernel/src/caps.rs\<close>), threads (\<open>kernel/src/component.rs\<close>) and page tables; also
  \<open>kernel/src/core_local.rs\<close> and the \<open>RefCell\<close> of the standard library.

  A frame of kernel memory is accessed through the direct map, so the heap maps a virtual address
  of the direct map to the object stored there. A \<open>KPtr<T>\<close> is such an address; the type of what
  it points to is part of every access, and an access with the wrong type is \<open>BadDeref\<close>. The
  statics of the kernel (the retype table and the active thread), the offset of the direct map
  and the value of \<open>cr3\<close> are the other fields of the state.
\<close>

section \<open>Objects\<close>

datatype KPtr = KPtr (kptr_inner: usize)

datatype PageCapFlags = PageCapFlags (cap_level: u8)

datatype Resource =
  ResEmpty
  | ResCapEntry KPtr
  | ResThread KPtr
  | ResPageTable (res_table: KPtr) (res_flags: PageCapFlags)

record CapSlot =
  slot_child :: "KPtr option"
  slot_resource :: Resource

type_synonym AtomicCapSlot = "CapSlot AtomicCell"
type_synonym RawCapEntry = "AtomicCapSlot list"

record Thread =
  exec_ctx :: ExecCtx
  thread_resources :: KPtr

datatype kobj =
  OCapTable RawCapEntry
  | OThread Thread
  | OPageTable AnyPageTable
  | OBytes "u8 list"

datatype ktype = TCapTable | TThread | TPageTable | TBytes

primrec kobj_type :: "kobj \<Rightarrow> ktype" where
  "kobj_type (OCapTable t) = TCapTable"
| "kobj_type (OThread t) = TThread"
| "kobj_type (OPageTable t) = TPageTable"
| "kobj_type (OBytes b) = TBytes"

text \<open>
  The pointers an object owns, in the order in which its destructor drops them: the fields of a
  struct in declaration order, the elements of an array from the first to the last.
\<close>

primrec owned_resource :: "Resource \<Rightarrow> (ktype \<times> KPtr) list" where
  "owned_resource ResEmpty = []"
| "owned_resource (ResCapEntry p) = [(TCapTable, p)]"
| "owned_resource (ResThread p) = [(TThread, p)]"
| "owned_resource (ResPageTable p fl) = [(TPageTable, p)]"

definition owned_slot :: "CapSlot \<Rightarrow> (ktype \<times> KPtr) list" where
  "owned_slot sl = (case slot_child sl of None \<Rightarrow> [] | Some p \<Rightarrow> [(TCapTable, p)]) @ owned_resource (slot_resource sl)"

primrec owned :: "kobj \<Rightarrow> (ktype \<times> KPtr) list" where
  "owned (OCapTable t) = concat (List.map (\<lambda>c. owned_slot (cell_value c)) t)"
| "owned (OThread t) = [(TCapTable, thread_resources t)]"
| "owned (OPageTable t) = []"
| "owned (OBytes b) = []"

section \<open>Core-local data and RefCell\<close>

record 'a CoreLocal =
  core_values :: "'a list"

definition NUM_CORES :: nat where "NUM_CORES = 1"

definition CoreLocal_new_with :: "(nat \<Rightarrow> 'a) \<Rightarrow> 'a CoreLocal" where
  "CoreLocal_new_with f = \<lparr>core_values = List.map f [0..<NUM_CORES]\<rparr>"

definition CoreLocal_new :: "'a \<Rightarrow> 'a CoreLocal" where
  "CoreLocal_new v = \<lparr>core_values = replicate NUM_CORES v\<rparr>"

text \<open>A value that is not initialised is \<open>None\<close>.\<close>

definition CoreLocal_new_uninit :: "'a option CoreLocal" where
  "CoreLocal_new_uninit = \<lparr>core_values = replicate NUM_CORES None\<rparr>"

definition CoreLocal_get :: "'a CoreLocal \<Rightarrow> 'a run" where
  "CoreLocal_get c = (case core_values c of [] \<Rightarrow> Panic IndexOutOfBounds | v # _ \<Rightarrow> Return v)"

definition CoreLocal_put :: "'a \<Rightarrow> 'a CoreLocal \<Rightarrow> 'a CoreLocal" where
  "CoreLocal_put v c = c\<lparr>core_values := (core_values c)[0 := v]\<rparr>"

text \<open>\<open>core::cell::RefCell\<close>: a value and whether it is mutably borrowed.\<close>

record 'a RefCell =
  refcell_value :: 'a
  refcell_mut :: bool

definition RefCell_new :: "'a \<Rightarrow> 'a RefCell" where
  "RefCell_new v = \<lparr>refcell_value = v, refcell_mut = False\<rparr>"

definition borrow :: "'a RefCell \<Rightarrow> 'a run" where
  "borrow c = (if refcell_mut c then Panic ExplicitPanic else Return (refcell_value c))"

definition borrow_mut :: "'a RefCell \<Rightarrow> ('a \<times> 'a RefCell) run" where
  "borrow_mut c = (if refcell_mut c then Panic ExplicitPanic else Return (refcell_value c, c\<lparr>refcell_mut := True\<rparr>))"

text \<open>The end of a mutable borrow, with the value it leaves.\<close>

definition end_borrow_mut :: "'a \<Rightarrow> 'a RefCell \<Rightarrow> 'a RefCell" where
  "end_borrow_mut v c = c\<lparr>refcell_value := v, refcell_mut := False\<rparr>"

section \<open>The state\<close>

record kstate =
  k_rt :: retype_global
  k_heap :: "usize \<Rightarrow> kobj option"
  k_active :: "KPtr option RefCell CoreLocal AtomicOnceCell"
  k_pmo :: VirtAddr
  k_cr3 :: u64

definition lift_rt :: "(retype_global \<Rightarrow> ('r \<times> retype_global) run) \<Rightarrow> kstate \<Rightarrow> ('r \<times> kstate) run" where
  "lift_rt m s = bindR (m (k_rt s)) (\<lambda>(r, g). Return (r, s\<lparr>k_rt := g\<rparr>))"

text \<open>Reading and writing through a pointer to an object of a type.\<close>

definition deref :: "ktype \<Rightarrow> KPtr \<Rightarrow> kstate \<Rightarrow> kobj run" where
  "deref t p s = (case k_heap s (kptr_inner p) of
     None \<Rightarrow> Panic BadDeref
   | Some obj \<Rightarrow> if kobj_type obj = t then Return obj else Panic BadDeref)"

definition write_obj :: "KPtr \<Rightarrow> kobj \<Rightarrow> kstate \<Rightarrow> kstate" where
  "write_obj p obj s = s\<lparr>k_heap := (k_heap s)(kptr_inner p := Some obj)\<rparr>"

definition deref_cap_table :: "KPtr \<Rightarrow> kstate \<Rightarrow> RawCapEntry run" where
  "deref_cap_table p s = bindR (deref TCapTable p s) (\<lambda>obj. case obj of OCapTable t \<Rightarrow> Return t | _ \<Rightarrow> Panic BadDeref)"

definition deref_thread :: "KPtr \<Rightarrow> kstate \<Rightarrow> Thread run" where
  "deref_thread p s = bindR (deref TThread p s) (\<lambda>obj. case obj of OThread t \<Rightarrow> Return t | _ \<Rightarrow> Panic BadDeref)"

definition deref_page_table :: "KPtr \<Rightarrow> kstate \<Rightarrow> AnyPageTable run" where
  "deref_page_table p s = bindR (deref TPageTable p s) (\<lambda>obj. case obj of OPageTable t \<Rightarrow> Return t | _ \<Rightarrow> Panic BadDeref)"

lemma deref_eqs:
  "deref_cap_table p s = (case k_heap s (kptr_inner p) of Some (OCapTable t) \<Rightarrow> Return t | _ \<Rightarrow> Panic BadDeref)"
  "deref_thread p s = (case k_heap s (kptr_inner p) of Some (OThread th) \<Rightarrow> Return th | _ \<Rightarrow> Panic BadDeref)"
  "deref_page_table p s = (case k_heap s (kptr_inner p) of Some (OPageTable pt) \<Rightarrow> Return pt | _ \<Rightarrow> Panic BadDeref)"
  by (auto simp: deref_cap_table_def deref_thread_def deref_page_table_def deref_def split: option.splits kobj.splits)

lemma write_obj_simps [simp]:
  "k_rt (write_obj p obj s) = k_rt s" "k_active (write_obj p obj s) = k_active s"
  "k_pmo (write_obj p obj s) = k_pmo s" "k_cr3 (write_obj p obj s) = k_cr3 s"
  "k_heap (write_obj p obj s) = (k_heap s)(kptr_inner p := Some obj)"
  by (simp_all add: write_obj_def)

end
