(* ===== verification/Kptr.thy ===== *)
theory Kptr
  imports Prelude Paging Cells Retype_Entry Retyping Kernel_State
begin

text \<open>
  Reference-counted kernel pointers (\<open>kernel/src/kptr.rs\<close>). A \<open>KPtr<T>\<close> owns one reference of the
  kernel frame it points to; cloning takes another one and dropping gives it back, and the last
  pointer destroys the object.

  \<open>drop\<close> destroys the object in place when it saw the count 1, which drops the pointers the object
  owns, which may destroy further objects. \<open>drop_all\<close> is this recursion with the pending pointers
  as a list; every step takes references from the retype table, so it ends. The lemma \<open>drop_eq\<close>
  shows what a drop really does: since consuming a \<open>KernelFrame\<close> takes two references, a drop that
  sees the count 1 panics, and no object is ever destroyed.
\<close>

section \<open>Definitions\<close>

definition KPtr_from_frame_unchecked :: "KernelFrame \<Rightarrow> kstate \<Rightarrow> KPtr run" where
  "KPtr_from_frame_unchecked frame s =
     bindR (to_virtual (k_pmo s) (RawFrame_addr (KernelFrame_into_raw frame))) (\<lambda>v.
     bindR (if as_usize v = 0 then Panic UnwrapNone else Return (as_usize v)) (\<lambda>ptr.
     bindR (assert (ptr mod PAGE_SIZE = 0)) (\<lambda>_.
     Return (KPtr ptr))))"

definition KPtr_new_unchecked :: "KernelFrame \<Rightarrow> kobj \<Rightarrow> kstate \<Rightarrow> (KPtr \<times> kstate) run" where
  "KPtr_new_unchecked frame value s =
     bindR (to_virtual (k_pmo s) (RawFrame_addr (KernelFrame_into_raw frame))) (\<lambda>v.
     bindR (if as_usize v = 0 then Panic UnwrapNone else Return (as_usize v)) (\<lambda>ptr.
     bindR (assert (ptr mod PAGE_SIZE = 0)) (\<lambda>_.
     Return (KPtr ptr, write_obj (KPtr ptr) value s))))"

definition KPtr_frame :: "KPtr \<Rightarrow> kstate \<Rightarrow> RawFrame run" where
  "KPtr_frame p s =
     bindR (VirtAddr_new (kptr_inner p)) (\<lambda>v.
     bindR (from_virtual (k_pmo s) v) RawFrame_from_start_address)"

definition KPtr_into_raw :: "KPtr \<Rightarrow> kstate \<Rightarrow> RawFrame run" where
  "KPtr_into_raw p s = KPtr_frame p s"

definition KPtr_clone :: "KPtr \<Rightarrow> kstate \<Rightarrow> (KPtr \<times> kstate) run" where
  "KPtr_clone p s =
     bindR (KPtr_frame p s) (\<lambda>f.
     bindR (lift_rt (as_kernel_unchecked f) s) (\<lambda>(frame, s).
     bindR (KPtr_from_frame_unchecked frame s) (\<lambda>q.
     Return (q, s))))"

function drop_all :: "(ktype \<times> KPtr) list \<Rightarrow> kstate \<Rightarrow> kstate run" where
  "drop_all [] s = Return s"
| "drop_all ((t, p) # ps) s =
     bindR (KPtr_frame p s) (\<lambda>f.
     bindR (lift_rt (KernelFrame_drop (KernelFrame_from_raw f)) s) (\<lambda>(count, s).
     if count = 1 then bindR (deref t p s) (\<lambda>obj. drop_all (owned obj @ ps) s)
     else drop_all ps s))"
  by pat_completeness auto

text \<open>Every drop that returns lowers the sum of the packed entries of the table.\<close>

definition table_weight :: "retype_global \<Rightarrow> nat" where
  "table_weight g = sum_list (List.map unat (entries g))"

lemma the_table_rt_ok: "the_table g = Return t \<Longrightarrow> rt_ok g"
  by (auto simp: the_table_def OnceCell_get_def OnceCell_get_unchecked_def rt_ok_def bindR_eq_Return
      split: if_splits option.splits)

lemma KernelFrame_drop_rt_ok: "KernelFrame_drop k g = Return r \<Longrightarrow> rt_ok g"
  by (auto simp: KernelFrame_drop_def KernelFrame_entry_def retype_entry_def Let_def bindR_eq_Return
      dest!: the_table_rt_ok)

lemma KernelFrame_drop_weight:
  assumes "KernelFrame_drop k g = Return (c, g')"
  shows "table_weight g' < table_weight g"
proof -
  have g: "rt_ok g"
    using KernelFrame_drop_rt_ok [OF assms] .
  then obtain e where e: "entry g (kernel_raw k) = Some e"
    using assms by (cases "entry g (kernel_raw k)")
      (auto simp: KernelFrame_drop_def KernelFrame_entry_def retype_entry_eq)
  with assms g have n: "2 \<le> count_of e" and g': "g' = set_entry g (kernel_raw k) (mk_entry (state_of e) (count_of e - 2))"
    by (auto simp: kf.consume_eq split: if_splits)
  have idx: "frame_idx (kernel_raw k) < length (entries g)" "e = entries g ! frame_idx (kernel_raw k)"
    using e by (auto simp: entry_def split: if_splits)
  have "unat (mk_entry (state_of e) (count_of e - 2)) < unat e"
    using n less_imp_diff_less [OF count_of_less, of e 2] by (simp add: unat_mk_entry unat_entry [of e])
  then have "unat (mk_entry (state_of e) (count_of e - 2)) < List.map unat (entries g) ! frame_idx (kernel_raw k)"
    using idx by simp
  from sum_list_update_less [OF _ this] idx(1) show ?thesis
    by (simp add: g' table_weight_def map_update)
qed

lemma lift_drop_weight:
  "lift_rt (KernelFrame_drop k) s = Return (c, s') \<Longrightarrow> table_weight (k_rt s') < table_weight (k_rt s)"
  by (auto simp: lift_rt_def bindR_eq_Return dest: KernelFrame_drop_weight)

termination drop_all
  by (relation "measure (\<lambda>(ps, s). table_weight (k_rt s))") (auto dest: lift_drop_weight)

definition KPtr_drop :: "ktype \<Rightarrow> KPtr \<Rightarrow> kstate \<Rightarrow> kstate run" where
  "KPtr_drop t p s = drop_all [(t, p)] s"

text \<open>Dropping a value that is not in a frame, such as the argument of a failed call.\<close>

definition drop_value :: "kobj \<Rightarrow> kstate \<Rightarrow> kstate run" where
  "drop_value obj s = drop_all (owned obj) s"

definition KPtr_new :: "RawFrame \<Rightarrow> kobj \<Rightarrow> kstate \<Rightarrow> ((KPtr, RetypeError) result \<times> kstate) run" where
  "KPtr_new frame value s =
     bindR (lift_rt (try_into_kernel frame) s) (\<lambda>(r, s). case r of
       Err e \<Rightarrow> bindR (drop_value value s) (\<lambda>s. Return (Err e, s))
     | Ok k \<Rightarrow> bindR (KPtr_new_unchecked k value s) (\<lambda>(p, s). Return (Ok p, s)))"

text \<open>\<open>try_into_inner\<close> gives the frame back and then drops \<open>self\<close> as well.\<close>

definition KPtr_try_into_inner :: "ktype \<Rightarrow> KPtr \<Rightarrow> kstate \<Rightarrow> (kobj option \<times> kstate) run" where
  "KPtr_try_into_inner t p s =
     bindR (KPtr_frame p s) (\<lambda>f.
     bindR (lift_rt (KernelFrame_drop (KernelFrame_from_raw f)) s) (\<lambda>(count, s).
     bindR (if count = 1 then bindR (deref t p s) (\<lambda>obj. Return (Some obj)) else Return None) (\<lambda>r.
     bindR (KPtr_drop t p s) (\<lambda>s. Return (r, s)))))"

section \<open>What a drop does\<close>

lemma KPtr_frame_simps [simp]:
  "KPtr_frame p (s\<lparr>k_rt := g\<rparr>) = KPtr_frame p s" "KPtr_frame p (s\<lparr>k_active := a\<rparr>) = KPtr_frame p s"
  "KPtr_frame p (s\<lparr>k_heap := h\<rparr>) = KPtr_frame p s" "KPtr_frame p (write_obj q obj s) = KPtr_frame p s"
  by (simp_all add: KPtr_frame_def write_obj_def)

text \<open>
  The references that the table counts for the frame of a pointer, and a pointer that can be
  used: its frame is in the table.
\<close>

definition kcount :: "KPtr \<Rightarrow> kstate \<Rightarrow> nat" where
  "kcount p s = (case KPtr_frame p s of Panic _ \<Rightarrow> 0
     | Return f \<Rightarrow> (case entry (k_rt s) f of Some e \<Rightarrow> count_of e | None \<Rightarrow> 0))"

lemma drop_all_Cons_eq:
  "drop_all ((t, p) # ps) s = bindR (KPtr_frame p s) (\<lambda>f.
     bindR (lift_rt (KernelFrame_drop (KernelFrame f)) s) (\<lambda>(count, s). drop_all ps s))"
proof (cases "KPtr_frame p s")
  case (Return f)
  show ?thesis
  proof (cases "lift_rt (KernelFrame_drop (KernelFrame f)) s")
    case lift: (Return r)
    obtain count s' where r: "r = (count, s')" by (cases r)
    from lift obtain g' where d: "KernelFrame_drop (KernelFrame f) (k_rt s) = Return (count, g')"
      by (auto simp: lift_rt_def bindR_eq_Return r)
    have g: "rt_ok (k_rt s)"
      using KernelFrame_drop_rt_ok [OF d] .
    have "count \<noteq> 1"
    proof
      assume "count = 1"
      obtain e where "entry (k_rt s) f = Some e"
        using d g by (cases "entry (k_rt s) f") (auto simp: KernelFrame_drop_def KernelFrame_entry_def retype_entry_eq)
      then have "count = of_nat (count_of e)" and "2 \<le> count_of e"
        using d g by (auto simp: kf.consume_eq split: if_splits)
      with \<open>count = 1\<close> of_nat_count_eq_iff [of 1 e] show False by simp
    qed
    with Return lift show ?thesis by (simp add: KernelFrame_from_raw_def r)
  qed (simp add: Return KernelFrame_from_raw_def)
qed simp

declare drop_all.simps(2) [simp del]

lemma drop_all_heap:
  "drop_all ps s = Return s' \<Longrightarrow>
     k_heap s' = k_heap s \<and> k_pmo s' = k_pmo s \<and> k_active s' = k_active s \<and> k_cr3 s' = k_cr3 s"
proof (induction ps arbitrary: s)
  case (Cons x ps)
  obtain t p where x: "x = (t, p)" by (cases x)
  from Cons.prems obtain c g' where "drop_all ps (s\<lparr>k_rt := g'\<rparr>) = Return s'"
    unfolding x drop_all_Cons_eq by (auto simp: bindR_eq_Return lift_rt_def)
  from Cons.IH [OF this] show ?case by simp
qed simp

text \<open>
  The frames that the kernel can address: frames inside the direct map. The pointer to such a
  frame and the frame of that pointer determine each other.
\<close>

definition direct_mapped :: "kstate \<Rightarrow> RawFrame \<Rightarrow> bool" where
  "direct_mapped s f \<longleftrightarrow> pmo_ok (k_pmo s) \<and> as_usize (k_pmo s) mod 4096 = 0 \<and> frame_ok f
     \<and> unat (as_usize (k_pmo s)) + unat (as_u64 (frame_base f)) < 2 ^ 64"

definition kptr_to :: "kstate \<Rightarrow> RawFrame \<Rightarrow> KPtr" where
  "kptr_to s f = KPtr (as_usize (k_pmo s) + as_u64 (frame_base f))"

lemma direct_mapped_update [simp]:
  "direct_mapped (s\<lparr>k_rt := g\<rparr>) f = direct_mapped s f" "direct_mapped (write_obj p obj s) f = direct_mapped s f"
  "direct_mapped (s\<lparr>k_active := a\<rparr>) f = direct_mapped s f"
  "kptr_to (s\<lparr>k_rt := g\<rparr>) f = kptr_to s f" "kptr_to (write_obj p obj s) f = kptr_to s f"
  "kptr_to (s\<lparr>k_active := a\<rparr>) f = kptr_to s f"
  by (simp_all add: direct_mapped_def kptr_to_def)

lemma direct_mapped_virtual:
  assumes "direct_mapped s f"
  shows "to_virtual (k_pmo s) (frame_base f) = Return (VirtAddr (kptr_inner (kptr_to s f)))"
    and "kptr_inner (kptr_to s f) \<noteq> 0" and "kptr_inner (kptr_to s f) mod 4096 = 0"
    and "canonical (kptr_inner (kptr_to s f))"
proof -
  have lt: "unat (as_usize (k_pmo s)) + unat (as_u64 (frame_base f)) < 2 ^ 64"
    using assms by (simp add: direct_mapped_def)
  show v: "to_virtual (k_pmo s) (frame_base f) = Return (VirtAddr (kptr_inner (kptr_to s f)))"
    using assms lt by (subst to_virtual_eq) (simp_all add: direct_mapped_def kptr_to_def)
  note u = to_virtual_Return [OF v, simplified]
  show "canonical (kptr_inner (kptr_to s f))"
    using u(3) by simp
  have "0 < unat (as_usize (k_pmo s))"
    using assms by (auto simp: direct_mapped_def pmo_ok_def word_le_nat_alt)
  then show "kptr_inner (kptr_to s f) \<noteq> 0"
    using u(2) by auto
  show "kptr_inner (kptr_to s f) mod 4096 = 0"
    using assms u(2) by (simp add: direct_mapped_def frame_ok_def FRAME_SIZE_def word_mod_4096_iff mod_add_eq [symmetric])
qed

lemma kptr_to_roundtrip:
  assumes "direct_mapped s f"
  shows "KPtr_from_frame_unchecked (KernelFrame f) s = Return (kptr_to s f)"
    and "KPtr_frame (kptr_to s f) s = Return f"
    and "KPtr_new_unchecked (KernelFrame f) obj s = Return (kptr_to s f, write_obj (kptr_to s f) obj s)"
proof -
  note v = direct_mapped_virtual [OF assms]
  have ok: "frame_ok f" using assms by (simp add: direct_mapped_def)
  show "KPtr_from_frame_unchecked (KernelFrame f) s = Return (kptr_to s f)"
    using v by (cases "kptr_to s f")
      (simp add: KPtr_from_frame_unchecked_def RawFrame_addr_def KernelFrame_into_raw_def PAGE_SIZE_def)
  show "KPtr_new_unchecked (KernelFrame f) obj s = Return (kptr_to s f, write_obj (kptr_to s f) obj s)"
    using v by (cases "kptr_to s f")
      (simp add: KPtr_new_unchecked_def RawFrame_addr_def KernelFrame_into_raw_def PAGE_SIZE_def)
  have "from_virtual (k_pmo s) (VirtAddr (kptr_inner (kptr_to s f))) = Return (frame_base f)"
    using ok by (intro from_virtual_to_virtual [OF v(1)]) (simp add: frame_ok_def)
  then show "KPtr_frame (kptr_to s f) s = Return f"
    using v(4) ok by (cases f) (simp add: KPtr_frame_def VirtAddr_new_eq RawFrame_from_start_address_def
        RawFrame_try_from_start_address_def frame_ok_def)
qed

lemma kptr_to_inj:
  assumes "direct_mapped s f" and "direct_mapped s f'" and "kptr_to s f = kptr_to s f'"
  shows "f = f'"
  using kptr_to_roundtrip(2) [OF assms(1)] kptr_to_roundtrip(2) [OF assms(2)]
  unfolding assms(3) by simp

lemma frame_idx_inj:
  assumes "frame_ok f" and "frame_ok f'" and "frame_idx f = frame_idx f'"
  shows "f = f'"
proof -
  have "4096 * frame_idx x = unat (as_u64 (frame_base x))" if "frame_ok x" for x
    using that mult_div_mod_eq [of 4096 "unat (as_u64 (frame_base x))"]
    by (simp add: frame_idx_def frame_ok_def FRAME_SIZE_def word_mod_4096_iff)
  then have "unat (as_u64 (frame_base f)) = unat (as_u64 (frame_base f'))"
    using assms by metis
  then show ?thesis
    by (intro RawFrame.expand PhysAddr.expand word_eq_unatI)
qed

lemma KPtr_drop_eq:
  assumes "rt_ok (k_rt s)" and "KPtr_frame p s = Return f" and "entry (k_rt s) f = Some e"
  shows "KPtr_drop t p s = (if count_of e < 2 then Panic UnwrapErr
    else Return (s\<lparr>k_rt := set_entry (k_rt s) f (mk_entry (state_of e) (count_of e - 2))\<rparr>))"
  using assms by (simp add: KPtr_drop_def drop_all_Cons_eq lift_rt_def kf.consume_eq)

lemma KPtr_clone_eq:
  assumes "rt_ok (k_rt s)" and "direct_mapped s f" and "entry (k_rt s) f = Some e"
  shows "KPtr_clone (kptr_to s f) s = (if count_of e = 16383 then Panic UnwrapErr
    else Return (kptr_to s f, s\<lparr>k_rt := set_entry (k_rt s) f (mk_entry (state_of e) (Suc (count_of e)))\<rparr>))"
  using assms kptr_to_roundtrip [OF assms(2)]
  by (simp add: KPtr_clone_def lift_rt_def as_kernel_unchecked_eq KPtr_from_frame_unchecked_def)

lemma KPtr_new_eq:
  assumes "rt_ok (k_rt s)" and "direct_mapped s f" and "entry (k_rt s) f = Some e" and "state_of e = Untyped" and "count_of e = 0"
  shows "KPtr_new f obj s = Return (Ok (kptr_to s f),
    write_obj (kptr_to s f) obj (s\<lparr>k_rt := set_entry (k_rt s) f (mk_entry Kernel 1)\<rparr>))"
proof -
  have "direct_mapped (s\<lparr>k_rt := set_entry (k_rt s) f (mk_entry Kernel 1)\<rparr>) f"
    using assms(2) by simp
  from kptr_to_roundtrip(3) [OF this] show ?thesis
    using assms by (simp add: KPtr_new_def lift_rt_def try_into_kernel_eq)
qed

section \<open>Properties\<close>

text \<open>
  C20. Creating a kernel object: \<open>KPtr::new\<close> succeeds exactly on an untyped, unreferenced frame. Then
  the frame is a kernel frame with one reference, the pointer belongs to that frame and reads
  back the object, and neither another entry of the table nor another object changes. On any
  other frame of the table it fails and, for an object that owns no pointers, changes nothing.
\<close>

theorem kptr_new_creates_the_object:
  assumes "rt_ok (k_rt s)" and "direct_mapped s f" and "entry (k_rt s) f = Some e"
  shows "if state_of e = Untyped \<and> count_of e = 0
    then \<exists>p s'. KPtr_new f obj s = Return (Ok p, s') \<and> KPtr_frame p s' = Return f
      \<and> deref (kobj_type obj) p s' = Return obj \<and> entry (k_rt s') f = Some (mk_entry Kernel 1)
      \<and> (\<forall>f'. frame_idx f' \<noteq> frame_idx f \<longrightarrow> entry (k_rt s') f' = entry (k_rt s) f')
      \<and> (\<forall>a. a \<noteq> kptr_inner p \<longrightarrow> k_heap s' a = k_heap s a)
    else owned obj = [] \<longrightarrow> KPtr_new f obj s = Return (Err (InvalidFromState (state_of e)), s)"
proof (cases "state_of e = Untyped \<and> count_of e = 0")
  case True
  then show ?thesis
    using assms kptr_to_roundtrip(2) [OF assms(2)]
    by (simp add: KPtr_new_eq [OF assms] deref_def rt.look_put)
next
  case False
  then have "owned obj = [] \<longrightarrow> KPtr_new f obj s = Return (Err (InvalidFromState (state_of e)), s)"
    using assms by (auto simp: KPtr_new_def lift_rt_def try_into_kernel_eq drop_value_def)
  with False show ?thesis
    by presburger
qed

text \<open>A kernel with four frames: untyped, untyped, a kernel frame with one reference, and one with two.\<close>

definition sample_kstate :: kstate where
  "sample_kstate = \<lparr>k_rt = \<lparr>once_value = Some \<lparr>retype_map =
       [mk_entry Untyped 0, mk_entry Untyped 0, mk_entry Kernel 1, mk_entry Kernel 2]\<rparr>, once_init = 2\<rparr>,
     k_heap = (\<lambda>_. None), k_active = OnceCell_new, k_pmo = VirtAddr 0xFFFF800000000000, k_cr3 = 0x2000\<rparr>"

definition at_frame :: "u64 \<Rightarrow> RawFrame" where
  "at_frame n = RawFrame (PhysAddr (4096 * n))"

lemma sample_kstate_simps [simp]:
  "rt_ok (k_rt sample_kstate)"
  "direct_mapped sample_kstate (at_frame 0)" "direct_mapped sample_kstate (at_frame 2)"
  "direct_mapped sample_kstate (at_frame 3)"
  "entry (k_rt sample_kstate) (at_frame 0) = Some (mk_entry Untyped 0)"
  "entry (k_rt sample_kstate) (at_frame 2) = Some (mk_entry Kernel 1)"
  "entry (k_rt sample_kstate) (at_frame 3) = Some (mk_entry Kernel 2)"
  by (simp_all add: sample_kstate_def rt_ok_def direct_mapped_def at_frame_def pmo_ok_def frame_ok_def
      FRAME_SIZE_def entry_def entries_def frame_idx_def)

theorem kptr_new_creates_the_object_witness:
  "\<exists>p s'. KPtr_new (at_frame 0) (OPageTable AnyPageTable_new) sample_kstate = Return (Ok p, s')
     \<and> deref TPageTable p s' = Return (OPageTable AnyPageTable_new)"
  using kptr_new_creates_the_object [of sample_kstate "at_frame 0" "mk_entry Untyped 0" "OPageTable AnyPageTable_new"]
  by auto

text \<open>
  C35. Dropping a pointer takes two references: with one reference left (the last owner) it panics,
  otherwise the count falls by two and nothing else changes; the branch that destroys the object
  is never taken, so no kernel object is ever destroyed.
\<close>

theorem kptr_drop_never_destroys:
  assumes "rt_ok (k_rt s)" and "KPtr_frame p s = Return f" and "entry (k_rt s) f = Some e"
  shows "KPtr_drop t p s = (if count_of e < 2 then Panic UnwrapErr
    else Return (s\<lparr>k_rt := set_entry (k_rt s) f (mk_entry (state_of e) (count_of e - 2))\<rparr>))"
  by (rule KPtr_drop_eq [OF assms])

theorem kptr_drop_never_destroys_witness:
  "KPtr_drop TPageTable (kptr_to sample_kstate (at_frame 2)) sample_kstate = Panic UnwrapErr"
  using kptr_drop_never_destroys [of sample_kstate "kptr_to sample_kstate (at_frame 2)" "at_frame 2" "mk_entry Kernel 1"]
    kptr_to_roundtrip(2) [of sample_kstate "at_frame 2"]
  by simp

text \<open>
  Cloning a pointer and dropping the clone is not neutral: it costs the frame one reference. A
  pointer that is the only owner of its object is left with the count 0, so that the frame can be
  retyped to untyped memory and given to user space although the pointer is still in use.
\<close>

lemma clone_and_drop_loses_a_reference:
  assumes "rt_ok (k_rt s)" and "direct_mapped s f" and "entry (k_rt s) f = Some e" and "state_of e = Kernel"
    and "count_of e = 1"
  shows "\<exists>s'. bindR (KPtr_clone (kptr_to s f) s) (\<lambda>(q, s). KPtr_drop t q s) = Return s'
    \<and> k_heap s' = k_heap s \<and> entry (k_rt s') f = Some (mk_entry Kernel 0)
    \<and> (\<exists>g. try_into_untyped f (k_rt s') = Return (Ok f, g))"
proof -
  let ?s = "s\<lparr>k_rt := set_entry (k_rt s) f (mk_entry Kernel 2)\<rparr>"
  have clone: "KPtr_clone (kptr_to s f) s = Return (kptr_to s f, ?s)"
    using assms by (simp add: KPtr_clone_eq numeral_2_eq_2)
  have e2: "entry (k_rt ?s) f = Some (mk_entry Kernel 2)"
    using assms(3) by (simp add: rt.look_put_same)
  have "KPtr_drop t (kptr_to s f) ?s = Return (?s\<lparr>k_rt := set_entry (k_rt ?s) f (mk_entry Kernel 0)\<rparr>)"
    using assms(1) kptr_to_roundtrip(2) [OF assms(2)] e2 by (simp add: KPtr_drop_eq)
  then show ?thesis
    using assms(1,3) by (simp add: clone rt.look_put_same try_into_untyped_eq)
qed

text \<open>
  Dropping a pointer, with everything the destroyed objects own, ends: a drop that returns has
  taken references from the table, and the total never grows.
\<close>

lemma drops_take_references:
  "drop_all ps s = Return s' \<Longrightarrow>
     table_weight (k_rt s') + length ps \<le> table_weight (k_rt s) \<and> k_heap s' = k_heap s"
proof -
  assume run: "drop_all ps s = Return s'"
  have "table_weight (k_rt s') + length ps \<le> table_weight (k_rt s)"
    using run
  proof (induction ps arbitrary: s)
    case (Cons x ps)
    obtain t p where x: "x = (t, p)" by (cases x)
    from Cons.prems obtain f c s1 where d: "lift_rt (KernelFrame_drop (KernelFrame f)) s = Return (c, s1)"
      and rest: "drop_all ps s1 = Return s'"
      unfolding x drop_all_Cons_eq by (auto simp: bindR_eq_Return)
    from lift_drop_weight [OF d] Cons.IH [OF rest] show ?case by simp
  qed simp
  with drop_all_heap [OF run] show ?thesis by simp
qed

end
