(* ===== verification/Caps.thy ===== *)
theory Caps
  imports Prelude Paging Cells Retype_Entry Retyping Trie Kapi Kernel_State Kptr
begin

text \<open>
  Capability tables (\<open>kernel/src/caps.rs\<close>). A table is a trie node of 128 slots, each an atomic cell
  with an optional child table and a resource. A slot is addressed by the pointer to its table and
  its offset; reading a slot clones it under the cell's lock, which clones the pointers in it.

  Every temporary that the code creates is dropped where Rust drops it: the clone that a lookup
  made of the slot it passes, the projected pointer that found a slot, the old value of a slot
  that is replaced. The interpretation \<open>cap_trie\<close> of the trie's contract shows that lookups do not
  change the tables and find the slot that the digits of the identifier describe.
\<close>

section \<open>Slots and resources\<close>

definition SLOT_SIZE :: usize where "SLOT_SIZE = 32"
definition NUM_SLOTS :: usize where "NUM_SLOTS = PAGE_SIZE div SLOT_SIZE"

lemma NUM_SLOTS_eq [simp]: "NUM_SLOTS = 128"
  by (simp add: NUM_SLOTS_def SLOT_SIZE_def PAGE_SIZE_def)

definition CapSlot_default :: CapSlot where
  "CapSlot_default = \<lparr>slot_child = None, slot_resource = ResEmpty\<rparr>"

definition AtomicCapSlot_default :: AtomicCapSlot where
  "AtomicCapSlot_default = AtomicCell_new CapSlot_default"

definition RawCapEntry_default :: RawCapEntry where
  "RawCapEntry_default = TrieEntry_default (unat NUM_SLOTS) AtomicCapSlot_default"

datatype WrongVariant = WrongVariant

primrec try_from_cap_entry :: "Resource \<Rightarrow> (KPtr, WrongVariant) result" where
  "try_from_cap_entry ResEmpty = Err WrongVariant"
| "try_from_cap_entry (ResCapEntry p) = Ok p"
| "try_from_cap_entry (ResThread p) = Err WrongVariant"
| "try_from_cap_entry (ResPageTable p fl) = Err WrongVariant"

primrec try_from_page_table :: "Resource \<Rightarrow> (KPtr \<times> PageCapFlags, WrongVariant) result" where
  "try_from_page_table ResEmpty = Err WrongVariant"
| "try_from_page_table (ResCapEntry p) = Err WrongVariant"
| "try_from_page_table (ResThread p) = Err WrongVariant"
| "try_from_page_table (ResPageTable p fl) = Ok (p, fl)"

primrec try_from_empty :: "Resource \<Rightarrow> (unit, WrongVariant) result" where
  "try_from_empty ResEmpty = Ok ()"
| "try_from_empty (ResCapEntry p) = Err WrongVariant"
| "try_from_empty (ResThread p) = Err WrongVariant"
| "try_from_empty (ResPageTable p fl) = Err WrongVariant"

primrec try_from_thread :: "Resource \<Rightarrow> (KPtr, WrongVariant) result" where
  "try_from_thread ResEmpty = Err WrongVariant"
| "try_from_thread (ResCapEntry p) = Err WrongVariant"
| "try_from_thread (ResThread p) = Ok p"
| "try_from_thread (ResPageTable p fl) = Err WrongVariant"

definition is_empty :: "Resource \<Rightarrow> bool" where
  "is_empty r \<longleftrightarrow> r = ResEmpty"

primrec Resource_clone :: "Resource \<Rightarrow> kstate \<Rightarrow> (Resource \<times> kstate) run" where
  "Resource_clone ResEmpty s = Return (ResEmpty, s)"
| "Resource_clone (ResCapEntry p) s = bindR (KPtr_clone p s) (\<lambda>(q, s). Return (ResCapEntry q, s))"
| "Resource_clone (ResThread p) s = bindR (KPtr_clone p s) (\<lambda>(q, s). Return (ResThread q, s))"
| "Resource_clone (ResPageTable p fl) s = bindR (KPtr_clone p s) (\<lambda>(q, s). Return (ResPageTable q fl, s))"

definition CapSlot_clone :: "CapSlot \<Rightarrow> kstate \<Rightarrow> (CapSlot \<times> kstate) run" where
  "CapSlot_clone sl s =
     bindR (case slot_child sl of
         None \<Rightarrow> Return (None, s)
       | Some p \<Rightarrow> bindR (KPtr_clone p s) (\<lambda>(q, s). Return (Some q, s))) (\<lambda>(ch, s).
     bindR (Resource_clone (slot_resource sl) s) (\<lambda>(r, s).
     Return (\<lparr>slot_child = ch, slot_resource = r\<rparr>, s)))"

datatype InUse = InUse

text \<open>\<open>insert\<close> drops the new resource when the slot is in use.\<close>

definition CapSlot_insert :: "Resource \<Rightarrow> CapSlot \<Rightarrow> kstate \<Rightarrow> ((unit, InUse) result \<times> CapSlot \<times> kstate) run" where
  "CapSlot_insert new sl s =
     (if is_empty (slot_resource sl) then Return (Ok (), sl\<lparr>slot_resource := new\<rparr>, s)
      else bindR (drop_all (owned_resource new) s) (\<lambda>s. Return (Err InUse, sl, s)))"

section \<open>Slots in tables\<close>

definition cell_at :: "KPtr slot_ref \<Rightarrow> kstate \<Rightarrow> AtomicCapSlot run" where
  "cell_at sr s = bindR (deref_cap_table (fst sr) s) (\<lambda>t. case get_at t (snd sr) of
     None \<Rightarrow> Panic IndexOutOfBounds | Some c \<Rightarrow> Return c)"

definition put_cell :: "KPtr slot_ref \<Rightarrow> AtomicCapSlot \<Rightarrow> kstate \<Rightarrow> kstate run" where
  "put_cell sr c s = bindR (deref_cap_table (fst sr) s) (\<lambda>t.
     Return (write_obj (fst sr) (OCapTable (t[unat (snd sr) := c])) s))"

definition slot_get :: "KPtr slot_ref \<Rightarrow> kstate \<Rightarrow> (CapSlot \<times> kstate) run" where
  "slot_get sr s =
     bindR (cell_at sr s) (\<lambda>c.
     bindR (AtomicCell_get_cloned CapSlot_clone c s) (\<lambda>(sl, c, s).
     bindR (put_cell sr c s) (\<lambda>s. Return (sl, s))))"

definition slot_replace :: "KPtr slot_ref \<Rightarrow> CapSlot \<Rightarrow> kstate \<Rightarrow> (CapSlot \<times> kstate) run" where
  "slot_replace sr sl s =
     bindR (cell_at sr s) (\<lambda>c.
     bindR (AtomicCell_replace sl c) (\<lambda>(old, c).
     bindR (put_cell sr c s) (\<lambda>s. Return (old, s))))"

text \<open>\<open>change\<close> works on a clone of the slot, which then replaces the slot; the old value is dropped.\<close>

definition slot_change ::
    "KPtr slot_ref \<Rightarrow> (CapSlot \<Rightarrow> kstate \<Rightarrow> (CapSlot \<times> kstate) run) \<Rightarrow> kstate \<Rightarrow> kstate run" where
  "slot_change sr fn s =
     bindR (slot_get sr s) (\<lambda>(sl, s).
     bindR (fn sl s) (\<lambda>(sl, s).
     bindR (slot_replace sr sl s) (\<lambda>(old, s).
     drop_all (owned_slot old) s)))"

text \<open>\<open>Slot::child\<close>: the clone of the slot is a temporary, of which the child is moved out.\<close>

type_synonym Infallible = unit

definition slot_child_of :: "KPtr slot_ref \<Rightarrow> kstate \<Rightarrow> ((KPtr option, Infallible) result \<times> kstate) run" where
  "slot_child_of sr s =
     bindR (slot_get sr s) (\<lambda>(sl, s).
     bindR (drop_all (owned_resource (slot_resource sl)) s) (\<lambda>s.
     Return (Ok (slot_child sl), s)))"

section \<open>Lookups\<close>

definition find_slot :: "KPtr \<Rightarrow> CapId \<Rightarrow> kstate \<Rightarrow> ((KPtr slot_ref, CapError) result \<times> kstate) run" where
  "find_slot table cap s =
     bindR (TrieEntry_get NUM_SLOTS slot_child_of (KPtr_drop TCapTable) table (cap_u32 cap) s) (\<lambda>(r, s). case r of
       Err _ \<Rightarrow> Return (Err Internal, s)
     | Ok None \<Rightarrow> Return (Err NotFound, s)
     | Ok (Some sr) \<Rightarrow> Return (Ok sr, s))"

definition index_slot :: "KPtr \<Rightarrow> SlotId \<Rightarrow> KPtr slot_ref" where
  "index_slot table slot = TrieEntry_index table slot"

definition get_capability :: "KPtr \<Rightarrow> CapId \<Rightarrow> kstate \<Rightarrow> ((CapSlot, CapError) result \<times> kstate) run" where
  "get_capability table cap s =
     bindR (find_slot table cap s) (\<lambda>(r, s). case r of
       Err e \<Rightarrow> Return (Err e, s)
     | Ok sr \<Rightarrow>
         bindR (slot_get sr s) (\<lambda>(sl, s).
         bindR (KPtr_drop TCapTable (fst sr) s) (\<lambda>s. Return (Ok sl, s))))"

definition get_resource_as ::
    "(Resource \<Rightarrow> ('a, WrongVariant) result) \<Rightarrow> KPtr \<Rightarrow> CapId \<Rightarrow> kstate \<Rightarrow> (('a, CapError) result \<times> kstate) run" where
  "get_resource_as try_into table cap s =
     bindR (get_capability table cap s) (\<lambda>(r, s). case r of
       Err e \<Rightarrow> Return (Err e, s)
     | Ok sl \<Rightarrow>
         bindR (case try_into (slot_resource sl) of
             Ok x \<Rightarrow> Return (Ok x, s)
           | Err _ \<Rightarrow> bindR (drop_all (owned_resource (slot_resource sl)) s) (\<lambda>s. Return (Err InvalidArgument, s)))
           (\<lambda>(res, s).
         bindR (case slot_child sl of None \<Rightarrow> Return s | Some p \<Rightarrow> KPtr_drop TCapTable p s) (\<lambda>s.
         Return (res, s))))"

section \<open>Lookups do not change the tables\<close>

text \<open>What stays the same when only the retype table changes.\<close>

definition same_objects :: "kstate \<Rightarrow> kstate \<Rightarrow> bool" where
  "same_objects s s' \<longleftrightarrow> k_heap s' = k_heap s \<and> k_pmo s' = k_pmo s \<and> k_active s' = k_active s \<and> k_cr3 s' = k_cr3 s"

lemma same_objects_refl [simp]: "same_objects s s"
  by (simp add: same_objects_def)

lemma same_objects_trans [trans]: "same_objects s s' \<Longrightarrow> same_objects s' s'' \<Longrightarrow> same_objects s s''"
  by (simp add: same_objects_def)

lemma drop_all_same: "drop_all ps s = Return s' \<Longrightarrow> same_objects s s'"
  using drop_all_heap [of ps s s'] by (simp add: same_objects_def)

lemma KPtr_drop_same: "KPtr_drop t p s = Return s' \<Longrightarrow> same_objects s s'"
  by (simp add: KPtr_drop_def drop_all_same)

lemma KPtr_clone_same:
  assumes "KPtr_clone p s = Return (q, s')"
  shows "q = p \<and> same_objects s s'"
proof -
  from assms obtain f k g where f: "KPtr_frame p s = Return f"
    and k: "as_kernel_unchecked f (k_rt s) = Return (k, g)" and s': "s' = s\<lparr>k_rt := g\<rparr>"
    and q: "KPtr_from_frame_unchecked k s' = Return q"
    by (auto simp: KPtr_clone_def lift_rt_def bindR_eq_Return)
  from f obtain pa where can: "canonical (kptr_inner p)" and pa: "from_virtual (k_pmo s) (VirtAddr (kptr_inner p)) = Return pa"
    and fr: "f = RawFrame pa"
    by (auto simp: KPtr_frame_def VirtAddr_new_eq bindR_eq_Return RawFrame_from_start_address_def
        RawFrame_try_from_start_address_def split: if_splits)
  have "k = KernelFrame f"
    using k by (cases "retype_entry f (k_rt s)") (auto simp: as_kernel_unchecked_def bindR_eq_Return split: result.splits)
  moreover have "to_virtual (k_pmo s) pa = Return (VirtAddr (kptr_inner p))"
    using to_virtual_from_virtual(1) [OF pa] can by simp
  ultimately have "q = p"
    using q by (cases p) (auto simp: KPtr_from_frame_unchecked_def s' fr KernelFrame_into_raw_def RawFrame_addr_def
        bindR_eq_Return split: if_splits)
  then show ?thesis
    by (simp add: s' same_objects_def)
qed

lemma Resource_clone_same: "Resource_clone r s = Return (r', s') \<Longrightarrow> r' = r \<and> same_objects s s'"
  by (cases r) (auto simp: bindR_eq_Return dest!: KPtr_clone_same)

lemma CapSlot_clone_same:
  assumes "CapSlot_clone sl s = Return (sl', s')"
  shows "sl' = sl \<and> same_objects s s'"
  using assms
  by (cases sl)
     (auto simp: CapSlot_clone_def bindR_eq_Return split: option.splits
       dest!: KPtr_clone_same Resource_clone_same intro: same_objects_trans)

lemma put_cell_same:
  assumes "cell_at sr s = Return c" and "same_objects s s'" and "put_cell sr c s' = Return s''"
  shows "same_objects s s''"
proof -
  obtain p off where sr: "sr = (p, off)" by (cases sr)
  from assms(1) obtain t where t: "k_heap s (kptr_inner p) = Some (OCapTable t)" "unat off < length t" "c = t ! unat off"
    by (auto simp: sr cell_at_def deref_eqs bindR_eq_Return get_at_def split: option.splits kobj.splits if_splits)
  with assms(2,3) have "s'' = write_obj p (OCapTable t) s'"
    by (auto simp: sr put_cell_def deref_eqs same_objects_def list_update_id)
  with t(1) assms(2) show ?thesis
    by (simp add: same_objects_def fun_upd_idem)
qed

lemma slot_get_same:
  assumes "slot_get sr s = Return (sl, s')"
  shows "same_objects s s' \<and> (\<exists>c. cell_at sr s = Return c \<and> \<not> locked c \<and> sl = cell_value c)"
proof -
  from assms obtain c c' s1 where c: "cell_at sr s = Return c"
    and cl: "AtomicCell_get_cloned CapSlot_clone c s = Return (sl, c', s1)" and put: "put_cell sr c' s1 = Return s'"
    by (auto simp: slot_get_def bindR_eq_Return)
  have unlocked: "\<not> locked c"
    using cl by (auto simp: AtomicCell_get_cloned_def AtomicCell_spin_lock_def AtomicCell_lock_def bindR_eq_Return
        split: if_splits)
  with cl have "CapSlot_clone (cell_value c) s = Return (sl, s1)" and "c' = c"
    by (auto simp: AtomicCell_get_cloned_eq bindR_eq_Return)
  with put_cell_same [OF c] put c unlocked show ?thesis
    by (auto dest!: CapSlot_clone_same)
qed

lemma slot_get_eq:
  assumes "cell_at sr s = Return c" and "\<not> locked c"
  shows "slot_get sr s = CapSlot_clone (cell_value c) s"
proof (cases "CapSlot_clone (cell_value c) s")
  case (Return r)
  obtain sl s1 where r: "r = (sl, s1)" by (cases r)
  have same: "same_objects s s1"
    using CapSlot_clone_same [of "cell_value c" s sl s1] Return r by simp
  obtain t where t: "k_heap s (kptr_inner (fst sr)) = Some (OCapTable t)" "c = t ! unat (snd sr)"
    using assms(1) by (auto simp: cell_at_def deref_eqs get_at_def bindR_eq_Return
        split: option.splits kobj.splits if_splits)
  then have "put_cell sr c s1 = Return s1"
    using same by (simp add: put_cell_def deref_eqs same_objects_def write_obj_def fun_upd_idem)
  with Return r show ?thesis
    using assms by (simp add: slot_get_def AtomicCell_get_cloned_eq)
next
  case (Panic e)
  then show ?thesis
    using assms by (simp add: slot_get_def AtomicCell_get_cloned_eq)
qed

definition cap_view :: "kstate \<Rightarrow> KPtr \<Rightarrow> nat \<Rightarrow> KPtr option" where
  "cap_view s p d = (case k_heap s (kptr_inner p) of
     Some (OCapTable t) \<Rightarrow> if d < length t then slot_child (cell_value (t ! d)) else None
   | _ \<Rightarrow> None)"

lemma cap_view_same: "same_objects s s' \<Longrightarrow> cap_view s' = cap_view s"
  by (simp add: cap_view_def same_objects_def fun_eq_iff)

lemma slot_child_of_same:
  assumes "slot_child_of (p, off) s = Return (r, s')"
  shows "r = Ok (cap_view s p (unat off)) \<and> same_objects s s'"
proof -
  from assms obtain sl s1 where g: "slot_get (p, off) s = Return (sl, s1)"
    and d: "drop_all (owned_resource (slot_resource sl)) s1 = Return s'" and r: "r = Ok (slot_child sl)"
    by (auto simp: slot_child_of_def bindR_eq_Return)
  from slot_get_same [OF g] drop_all_same [OF d] r show ?thesis
    by (auto simp: cell_at_def deref_eqs get_at_def cap_view_def bindR_eq_Return
        split: option.splits kobj.splits if_splits intro: same_objects_trans)
qed

interpretation cap_trie: trie_frame slot_child_of "KPtr_drop TCapTable" cap_view same_objects
proof unfold_locales
  fix p off s r s'
  assume "slot_child_of (p, off) s = Return (r, s')"
  from slot_child_of_same [OF this]
  show "r = Ok (cap_view s p (unat off)) \<and> cap_view s' = cap_view s"
    by (auto dest: cap_view_same)
next
  fix p s s'
  assume "KPtr_drop TCapTable p s = Return s'"
  then show "cap_view s' = cap_view s" and "same_objects s s'"
    by (rule cap_view_same [OF KPtr_drop_same], rule KPtr_drop_same)
next
  fix sr s r s'
  assume "slot_child_of sr s = Return (r, s')"
  then show "same_objects s s'"
    using slot_child_of_same [of "fst sr" "snd sr" s r s'] by simp
qed (auto intro: same_objects_trans)

lemma find_slot_eq:
  assumes "find_slot table cap s = Return (r, s')"
  shows "r = (case walk (cap_view s) table (digits 128 (unat (cap_u32 cap))) of
      None \<Rightarrow> Err NotFound | Some (q, d) \<Rightarrow> Ok (q, of_nat d)) \<and> same_objects s s'"
proof -
  from assms obtain r1 where g: "get_usize 128 slot_child_of (KPtr_drop TCapTable) table (ucast (cap_u32 cap)) s = Return (r1, s')"
    and r: "r = (case r1 of Err _ \<Rightarrow> Err Internal | Ok None \<Rightarrow> Err NotFound | Ok (Some sr) \<Rightarrow> Ok sr)"
    by (cases "get_usize 128 slot_child_of (KPtr_drop TCapTable) table (ucast (cap_u32 cap)) s")
       (force simp: find_slot_def TrieEntry_get_usize split: result.splits option.splits)+
  have id: "unat (ucast (cap_u32 cap) :: usize) = unat (cap_u32 cap)"
    by (simp add: unsigned_ucast_eq take_bit_eq_mod less_trans [OF unat_lt [of "cap_u32 cap"]])
  have "(2 :: usize) \<le> 128" by simp
  from cap_trie.get_usize_walk [OF this g] cap_trie.get_usize_same [OF this g] r show ?thesis
    by (auto simp: id split: option.splits)
qed

lemma find_slot_low:
  assumes "unat (cap_u32 cap) < 128"
  shows "find_slot table cap s = Return (Ok (table, ucast (cap_u32 cap)), s)"
proof -
  have id: "unat (ucast (cap_u32 cap) :: usize) = unat (cap_u32 cap)"
    by (simp add: unsigned_ucast_eq take_bit_eq_mod less_trans [OF unat_lt [of "cap_u32 cap"]])
  have "(ucast (cap_u32 cap) :: usize) div 128 = 0" and "(ucast (cap_u32 cap) :: usize) mod 128 = ucast (cap_u32 cap)"
    using assms by (simp_all add: word_unat_eq_iff unat_div unat_mod id)
  then show ?thesis
    by (simp add: find_slot_def TrieEntry_get_usize get_usize_unfold)
qed

section \<open>Changing a slot\<close>

definition slot_of :: "kstate \<Rightarrow> KPtr slot_ref \<Rightarrow> CapSlot option" where
  "slot_of s sr = (case k_heap s (kptr_inner (fst sr)) of
     Some (OCapTable t) \<Rightarrow> if unat (snd sr) < length t then Some (cell_value (t ! unat (snd sr))) else None
   | _ \<Rightarrow> None)"

lemma slot_of_same: "same_objects s s' \<Longrightarrow> slot_of s' sr = slot_of s sr"
  by (simp add: slot_of_def same_objects_def)

lemma cell_at_slot_of: "cell_at sr s = Return c \<Longrightarrow> slot_of s sr = Some (cell_value c)"
  by (auto simp: cell_at_def slot_of_def deref_eqs get_at_def bindR_eq_Return split: option.splits kobj.splits if_splits)

lemma slot_replace_eq:
  assumes "slot_replace sr sl s = Return (old, s')"
  shows "\<exists>t. k_heap s (kptr_inner (fst sr)) = Some (OCapTable t) \<and> unat (snd sr) < length t
    \<and> \<not> locked (t ! unat (snd sr)) \<and> old = cell_value (t ! unat (snd sr))
    \<and> s' = write_obj (fst sr) (OCapTable (t[unat (snd sr) := AtomicCell_new sl])) s"
proof -
  from assms obtain t where t: "k_heap s (kptr_inner (fst sr)) = Some (OCapTable t)" "unat (snd sr) < length t"
    and r: "bindR (AtomicCell_replace sl (t ! unat (snd sr))) (\<lambda>(old, c). bindR (put_cell sr c s) (\<lambda>s. Return (old, s)))
      = Return (old, s')"
    by (auto simp: slot_replace_def cell_at_def deref_eqs get_at_def bindR_eq_Return
        split: option.splits kobj.splits if_splits)
  have "\<not> locked (t ! unat (snd sr))"
    using r by (auto simp: AtomicCell_replace_def AtomicCell_spin_lock_def AtomicCell_lock_def split: if_splits)
  with r t show ?thesis
    by (auto simp: AtomicCell_replace_eq put_cell_def deref_eqs)
qed

lemma slot_change_eq:
  assumes "slot_change sr fn s = Return s'"
    and "\<And>sl s1 sl' s2. fn sl s1 = Return (sl', s2) \<Longrightarrow> sl' = upd sl \<and> same_objects s1 s2"
  shows "\<exists>t. k_heap s (kptr_inner (fst sr)) = Some (OCapTable t) \<and> unat (snd sr) < length t
    \<and> same_objects (write_obj (fst sr)
        (OCapTable (t[unat (snd sr) := AtomicCell_new (upd (cell_value (t ! unat (snd sr))))])) s) s'"
proof -
  from assms(1) obtain sl s1 sl' s2 old s3 where g: "slot_get sr s = Return (sl, s1)"
    and f: "fn sl s1 = Return (sl', s2)" and rep: "slot_replace sr sl' s2 = Return (old, s3)"
    and d: "drop_all (owned_slot old) s3 = Return s'"
    by (auto simp: slot_change_def bindR_eq_Return)
  from slot_get_same [OF g] obtain c where s1: "same_objects s s1" and c: "cell_at sr s = Return c" "sl = cell_value c"
    by blast
  have s2: "same_objects s s2" and sl': "sl' = upd sl"
    using assms(2) [OF f] s1 same_objects_trans by blast+
  from slot_replace_eq [OF rep] obtain t where t: "k_heap s2 (kptr_inner (fst sr)) = Some (OCapTable t)"
    "unat (snd sr) < length t" "s3 = write_obj (fst sr) (OCapTable (t[unat (snd sr) := AtomicCell_new sl'])) s2"
    by blast
  have ht: "k_heap s (kptr_inner (fst sr)) = Some (OCapTable t)"
    using t(1) s2 by (simp add: same_objects_def)
  then have "sl = cell_value (t ! unat (snd sr))"
    using c t(2) by (auto simp: cell_at_def deref_eqs get_at_def)
  with t s2 sl' drop_all_same [OF d] ht show ?thesis
    by (auto simp: same_objects_def)
qed

section \<open>Well-formed tables\<close>

text \<open>
  Every capability table in the heap has 128 slots, none of which is locked while no operation
  is running.
\<close>

definition caps_wf :: "kstate \<Rightarrow> bool" where
  "caps_wf s \<longleftrightarrow> (\<forall>a t. k_heap s a = Some (OCapTable t) \<longrightarrow> length t = 128 \<and> (\<forall>c \<in> set t. \<not> locked c))"

lemma caps_wf_same: "same_objects s s' \<Longrightarrow> caps_wf s' = caps_wf s"
  by (simp add: caps_wf_def same_objects_def)

lemma caps_wf_write:
  assumes "caps_wf s" and "\<And>t. obj = OCapTable t \<Longrightarrow> length t = 128 \<and> (\<forall>c \<in> set t. \<not> locked c)"
  shows "caps_wf (write_obj p obj s)"
  using assms by (auto simp: caps_wf_def)

lemma RawCapEntry_default_wf: "length RawCapEntry_default = 128 \<and> (\<forall>c \<in> set RawCapEntry_default. \<not> locked c)"
  by (auto simp: RawCapEntry_default_def TrieEntry_default_def AtomicCapSlot_default_def AtomicCell_new_def)

lemma slot_change_wf:
  assumes "caps_wf s" and "slot_change sr fn s = Return s'"
    and "\<And>sl s1 sl' s2. fn sl s1 = Return (sl', s2) \<Longrightarrow> sl' = upd sl \<and> same_objects s1 s2"
  shows "caps_wf s'"
proof -
  from slot_change_eq [of sr fn s s' upd, OF assms(2)] assms(3)
  obtain t where t: "k_heap s (kptr_inner (fst sr)) = Some (OCapTable t)"
    and s': "same_objects (write_obj (fst sr)
        (OCapTable (t[unat (snd sr) := AtomicCell_new (upd (cell_value (t ! unat (snd sr))))])) s) s'"
    by blast
  have "length t = 128 \<and> (\<forall>c \<in> set t. \<not> locked c)"
    using assms(1) t by (auto simp: caps_wf_def)
  then have "caps_wf (write_obj (fst sr)
        (OCapTable (t[unat (snd sr) := AtomicCell_new (upd (cell_value (t ! unat (snd sr))))])) s)"
    using assms(1) by (intro caps_wf_write) (auto simp: AtomicCell_new_def dest!: set_update_subset_insert [THEN subsetD])
  then show ?thesis
    using caps_wf_same [OF s'] by simp
qed

lemma walk_last: "walk ch p ds = Some (q, d) \<Longrightarrow> d = last ds"
  by (induction ds arbitrary: p) (auto split: if_splits option.splits)

section \<open>Properties\<close>

text \<open>
  C18. A capability identifier names a slot by its digits in base 128, least significant digit
  first: a lookup that returns gives the slot reached from the table by following the children
  at all digits but the last, or \<open>NotFound\<close> when a child on the way is missing. It changes no
  object.
\<close>

theorem find_follows_the_digits:
  assumes "find_slot table cap s = Return (r, s')"
  shows "r = (case walk (cap_view s) table (digits 128 (unat (cap_u32 cap))) of
      None \<Rightarrow> Err NotFound | Some (q, d) \<Rightarrow> Ok (q, of_nat d))
    \<and> k_heap s' = k_heap s \<and> k_active s' = k_active s"
  using find_slot_eq [OF assms] by (simp add: same_objects_def)

text \<open>
  C38. Slot 0 of a linked table cannot be named: an identifier of two or more digits has a nonzero
  last digit, so a lookup that leaves the first table never ends at slot 0.
\<close>

theorem child_slot_zero_is_unreachable:
  assumes "find_slot table cap s = Return (Ok (q, off), s')" and "128 \<le> unat (cap_u32 cap)"
  shows "off \<noteq> 0 \<and> off < NUM_SLOTS"
proof -
  let ?ds = "digits 128 (unat (cap_u32 cap))"
  from find_slot_eq [OF assms(1)] obtain d where d: "walk (cap_view s) table ?ds = Some (q, d)" "off = of_nat d"
    by (auto split: option.splits)
  have "d = last ?ds" by (rule walk_last [OF d(1)])
  then have "d \<noteq> 0" and "d < 128"
    using last_digit_nonzero [of 128 "unat (cap_u32 cap)"] assms(2) digits_bounded [of 128 "unat (cap_u32 cap)"] by simp_all
  moreover from this have "unat (of_nat d :: usize) = d"
    by (subst unat_of_nat) simp
  ultimately show ?thesis
    by (auto simp: d(2) word_less_nat_alt word_unat_eq_iff)
qed

text \<open>
  A kernel with a capability table in frame 2 whose slot 5 links to the table in frame 3. The
  counts are large enough for the references that a lookup takes.
\<close>

definition linked_table :: "KPtr \<Rightarrow> RawCapEntry" where
  "linked_table child = RawCapEntry_default[5 := AtomicCell_new \<lparr>slot_child = Some child, slot_resource = ResEmpty\<rparr>]"

definition caps_kstate :: kstate where
  "caps_kstate = (let s = sample_kstate; s = s\<lparr>k_rt := set_entry (k_rt s) (at_frame 2) (mk_entry Kernel 3)\<rparr> in
     write_obj (kptr_to s (at_frame 3)) (OCapTable RawCapEntry_default)
       (write_obj (kptr_to s (at_frame 2)) (OCapTable (linked_table (kptr_to s (at_frame 3)))) s))"

lemma caps_kstate_simps:
  "rt_ok (k_rt caps_kstate)" "k_pmo caps_kstate = VirtAddr 0xFFFF800000000000"
  "direct_mapped caps_kstate (at_frame 2)" "direct_mapped caps_kstate (at_frame 3)"
  "entry (k_rt caps_kstate) (at_frame 2) = Some (mk_entry Kernel 3)"
  "entry (k_rt caps_kstate) (at_frame 3) = Some (mk_entry Kernel 2)"
  "k_heap caps_kstate (kptr_inner (kptr_to caps_kstate (at_frame 2)))
     = Some (OCapTable (linked_table (kptr_to caps_kstate (at_frame 3))))"
  "frame_idx (at_frame 2) = 2" "frame_idx (at_frame 3) = 3"
  unfolding caps_kstate_def Let_def
  by (simp_all add: rt.look_put) (simp_all add: sample_kstate_def kptr_to_def at_frame_def frame_idx_def rt_ok_def
      entry_def entries_def set_entry_def)

lemma caps_kstate_cell:
  "cell_at (kptr_to caps_kstate (at_frame 2), 5) caps_kstate
     = Return (AtomicCell_new \<lparr>slot_child = Some (kptr_to caps_kstate (at_frame 3)), slot_resource = ResEmpty\<rparr>)"
  using RawCapEntry_default_wf
  by (simp add: cell_at_def deref_eqs caps_kstate_simps linked_table_def get_at_def)

text \<open>The lookup of identifier 901, which is 5 + 128 * 7.\<close>

lemma caps_kstate_find:
  "\<exists>s'. find_slot (kptr_to caps_kstate (at_frame 2)) (CapId 901) caps_kstate
     = Return (Ok (kptr_to caps_kstate (at_frame 3), 7), s')"
proof -
  let ?s = caps_kstate and ?p = "kptr_to caps_kstate (at_frame 2)" and ?q = "kptr_to caps_kstate (at_frame 3)"
  let ?s1 = "?s\<lparr>k_rt := set_entry (k_rt ?s) (at_frame 3) (mk_entry Kernel 3)\<rparr>"
  note s = caps_kstate_simps
  have "KPtr_clone ?q ?s = Return (?q, ?s1)"
    using s by (simp add: KPtr_clone_eq)
  then have child: "slot_child_of (?p, 5) ?s = Return (Ok (Some ?q), ?s1)"
    using slot_get_eq [OF caps_kstate_cell]
    by (simp add: slot_child_of_def CapSlot_clone_def AtomicCell_new_def)
  have "entry (k_rt ?s1) (at_frame 2) = Some (mk_entry Kernel 3)"
    using s by (simp add: rt.look_put)
  then obtain s2 where "KPtr_drop TCapTable ?p ?s1 = Return s2"
    using s kptr_to_roundtrip(2) [OF s(3)] by (simp add: KPtr_drop_eq)
  then show ?thesis
    using child by (simp add: find_slot_def TrieEntry_get_usize get_usize_unfold)
qed

theorem find_follows_the_digits_witness:
  "walk (cap_view caps_kstate) (kptr_to caps_kstate (at_frame 2)) (digits 128 901)
     = Some (kptr_to caps_kstate (at_frame 3), 7)"
proof -
  obtain s' where run: "find_slot (kptr_to caps_kstate (at_frame 2)) (CapId 901) caps_kstate
      = Return (Ok (kptr_to caps_kstate (at_frame 3), 7), s')"
    using caps_kstate_find by blast
  have "digits 128 901 = [5, 7]"
    by (simp add: digits.simps)
  then show ?thesis
    using find_follows_the_digits [OF run]
    by (auto simp: of_nat_eq_iff split: option.splits if_splits)
qed

theorem child_slot_zero_is_unreachable_witness:
  "\<exists>q off s'. find_slot (kptr_to caps_kstate (at_frame 2)) (CapId 901) caps_kstate = Return (Ok (q, off), s')
     \<and> off \<noteq> 0 \<and> off < NUM_SLOTS"
proof -
  obtain s' where run: "find_slot (kptr_to caps_kstate (at_frame 2)) (CapId 901) caps_kstate
      = Return (Ok (kptr_to caps_kstate (at_frame 3), 7), s')"
    using caps_kstate_find by blast
  from child_slot_zero_is_unreachable [OF run] run show ?thesis by auto
qed

end
