(* ===== verification/Addrspace.thy ===== *)
theory Addrspace
  imports "HOL-Library.Sublist" Prelude Paging Cells Retype_Entry Retyping Bump Page_Table Kernel_State Kptr Caps
begin

text \<open>
  Address spaces (\<open>arch/x86_64/paging/page_table.rs\<close>): the operations on page tables that live in
  kernel frames. \<open>map_to\<close> walks the four levels of tables for a page, allocates the tables that
  are missing and enters the mapping at the bottom; \<open>clone_kernel\<close> copies the kernel's half of the
  active top-level table.

  An address space is the pointer to its top-level table. \<open>tr\<close> is the translation that the
  processor computes from the tables, for the list of the four indices of an address.
\<close>

section \<open>Definitions\<close>

datatype MapperError = FrameAllocationError | HugeParentEntry | AlreadyMapped RawFrame

definition Addrspace_from_frame :: "RawFrame \<Rightarrow> kstate \<Rightarrow> KPtr run" where
  "Addrspace_from_frame l4_frame s = bindR (to_virtual (k_pmo s) (frame_base l4_frame)) (\<lambda>v. Return (KPtr (as_usize v)))"

text \<open>\<open>Addrspace::get\<close> is not implemented.\<close>

definition Addrspace_get :: "KPtr \<Rightarrow> Page \<Rightarrow> (RawFrame \<times> 'f) option run" where
  "Addrspace_get self page = Panic NotImplemented"

function map_loop ::
    "'f ptf \<Rightarrow> Page \<Rightarrow> RawFrame \<Rightarrow> 'f \<Rightarrow> 'f \<Rightarrow> PageTableLevel option \<Rightarrow> KPtr \<Rightarrow> BumpAllocator \<Rightarrow> kstate \<Rightarrow>
     ((unit, MapperError) result \<times> BumpAllocator \<times> kstate) run" where
  "map_loop F page frame flags parent_flags None table fa s = Return (Ok (), fa, s)"
| "map_loop F page frame flags parent_flags (Some current_level) table fa s =
     bindR (lower current_level) (\<lambda>level.
     bindR (page_table_index (page_base page) current_level) (\<lambda>off.
     bindR (deref_page_table table s) (\<lambda>t.
     bindR (PageTableEntry_get F (AnyPageTable_get t off)) (\<lambda>e. case e of
       Some (f, fl) \<Rightarrow>
         if PageTableLevel.level current_level = 1 then Return (Err (AlreadyMapped f), fa, s)
         else if contains F fl (HUGE_PAGE F) then Return (Err HugeParentEntry, fa, s)
         else bindR (to_virtual (k_pmo s) (frame_base f)) (\<lambda>v.
           map_loop F page frame flags parent_flags level (KPtr (as_usize v)) fa s)
     | None \<Rightarrow>
         if is_bottom current_level then
           bindR (PageTableEntry_set F frame flags (AnyPageTable_get t off)) (\<lambda>(_, e).
           map_loop F page frame flags parent_flags level table fa
             (write_obj table (OPageTable (t[unat (offset_u16 off) := e])) s))
         else
           bindR (alloc_kernel_frame fa (k_rt s)) (\<lambda>(k, fa, g).
           let s = s\<lparr>k_rt := g\<rparr> in
           case k of
             None \<Rightarrow> Return (Err FrameAllocationError, fa, s)
           | Some k \<Rightarrow>
               let new_frame = KernelFrame_into_raw k in
               bindR (to_virtual (k_pmo s) (frame_base new_frame)) (\<lambda>v.
               let s = write_obj (KPtr (as_usize v)) (OPageTable AnyPageTable_new) s in
               bindR (deref_page_table table s) (\<lambda>t.
               bindR (PageTableEntry_set F new_frame (flag_union F parent_flags (PRESENT F)) (AnyPageTable_get t off)) (\<lambda>(_, e).
               map_loop F page frame flags parent_flags level (KPtr (as_usize v)) fa
                 (write_obj table (OPageTable (t[unat (offset_u16 off) := e])) s)))))))))"
  by pat_completeness auto

lemma lower_less:
  "lower l = Return (Some l') \<Longrightarrow> unat (PageTableLevel.level l') < unat (PageTableLevel.level l)"
  by (auto simp: lower_def sub_chk_def PageTableLevel_try_new_def bindR_eq_Return word_le_nat_alt unat_sub_le
      split: if_splits result.splits)

termination map_loop
  by (relation "measure (\<lambda>(F, page, frame, flags, parent_flags, lv, table, fa, s).
        case lv of None \<Rightarrow> 0 | Some l \<Rightarrow> Suc (unat (PageTableLevel.level l)))")
     (auto split: option.splits dest: lower_less)

definition map_to ::
    "'f ptf \<Rightarrow> KPtr \<Rightarrow> Page \<Rightarrow> RawFrame \<Rightarrow> 'f \<Rightarrow> 'f \<Rightarrow> BumpAllocator \<Rightarrow> kstate \<Rightarrow>
     ((unit, MapperError) result \<times> BumpAllocator \<times> kstate) run" where
  "map_to F self page frame flags parent_flags fa s =
     map_loop F page frame flags parent_flags (Some PageTableLevel_top) self fa s"

definition AnyPageTable_current :: "kstate \<Rightarrow> (KPtr \<times> kstate) run" where
  "AnyPageTable_current s =
     bindR (current_raw (k_cr3 s)) (\<lambda>frame.
     bindR (lift_rt (try_as_kernel frame) s) (\<lambda>(r, s).
     bindR (unwrap_ok r) (\<lambda>k.
     bindR (KPtr_from_frame_unchecked k s) (\<lambda>p. Return (p, s)))))"

definition clone_kernel :: "'f ptf \<Rightarrow> kstate \<Rightarrow> (AnyPageTable \<times> kstate) run" where
  "clone_kernel F s =
     bindR (AnyPageTable_current s) (\<lambda>(current, s).
     bindR (deref_page_table current s) (\<lambda>t.
     bindR (clone_kernel_table F t) (\<lambda>new.
     bindR (KPtr_drop TPageTable current s) (\<lambda>s. Return (new, s)))))"

definition new_l4 :: "'f ptf \<Rightarrow> RawFrame \<Rightarrow> kstate \<Rightarrow> ((KPtr, RetypeError) result \<times> kstate) run" where
  "new_l4 F frame s = bindR (clone_kernel F s) (\<lambda>(t, s). KPtr_new frame (OPageTable t) s)"

section \<open>Translation\<close>

text \<open>
  What the processor makes of an entry: the frame bits, whether it maps a huge page, and the
  address of the next table. \<open>tr\<close> follows a list of indices from a table to the entry that ends
  the walk, \<open>pt_node\<close> to the table at the end of a path.
\<close>

definition entry_frame :: "PageTableEntry \<Rightarrow> RawFrame" where
  "entry_frame e = RawFrame (PhysAddr (e AND FRAME_MASK))"

definition huge :: "PageTableEntry \<Rightarrow> bool" where
  "huge e \<longleftrightarrow> e AND 0x80 = 0x80"

definition next_table :: "kstate \<Rightarrow> PageTableEntry \<Rightarrow> usize option" where
  "next_table s e = (if e = 0 \<or> huge e then None else Some (kptr_inner (kptr_to s (entry_frame e))))"

definition pt_slot :: "kstate \<Rightarrow> usize \<Rightarrow> nat \<Rightarrow> PageTableEntry" where
  "pt_slot s a i = (case k_heap s a of Some (OPageTable t) \<Rightarrow> if i < length t then t ! i else 0 | _ \<Rightarrow> 0)"

fun tr :: "kstate \<Rightarrow> usize \<Rightarrow> nat list \<Rightarrow> PageTableEntry option" where
  "tr s a [] = None"
| "tr s a (i # is) = (let e = pt_slot s a i in
     if e = 0 then None else if is = [] \<or> huge e then Some e
     else tr s (kptr_inner (kptr_to s (entry_frame e))) is)"

fun pt_node :: "kstate \<Rightarrow> usize \<Rightarrow> nat list \<Rightarrow> usize option" where
  "pt_node s a [] = Some a"
| "pt_node s a (i # is) = (case next_table s (pt_slot s a i) of None \<Rightarrow> None | Some b \<Rightarrow> pt_node s b is)"

lemma tr_append: "pt_node s a \<rho> = Some b \<Longrightarrow> is \<noteq> [] \<Longrightarrow> tr s a (\<rho> @ is) = tr s b is"
  by (induction \<rho> arbitrary: a) (auto simp: next_table_def Let_def split: option.splits if_splits)

lemma pt_node_append: "pt_node s a (\<rho> @ \<sigma>) = (case pt_node s a \<rho> of None \<Rightarrow> None | Some b \<Rightarrow> pt_node s b \<sigma>)"
  by (induction \<rho> arbitrary: a) (auto split: option.splits)

lemma get_entry:
  assumes "ptf_spec F" and "e \<noteq> 0"
  obtains fl where "PageTableEntry_get F e = Return (Some (entry_frame e, fl))" "contains F fl (HUGE_PAGE F) \<longleftrightarrow> huge e"
proof -
  from PageTableEntry_get_eq(2) [OF assms] obtain fl
    where fl: "PageTableEntry_get F e = Return (Some (entry_frame e, fl))" "bits F fl = e AND FLAGS_MASK"
    by (auto simp: entry_frame_def)
  have "(e AND FLAGS_MASK) AND 0x80 = e AND 0x80"
    by (simp add: and.assoc) (simp add: FLAGS_MASK_def FRAME_MASK_def)
  with fl(2) have "contains F fl (HUGE_PAGE F) \<longleftrightarrow> huge e"
    by (simp add: ptf_specD [OF assms(1)] huge_def)
  with fl(1) that show thesis by blast
qed

section \<open>Trees of tables\<close>

text \<open>
  The user half of an address space is a tree: \<open>own\<close> gives for every table of the tree the path of
  indices that leads to it, so no table is reached in two ways. Each table of the tree is in a
  frame of the direct map that is in use. The upper half of the root belongs to the kernel and
  is left out.
\<close>

definition in_use :: "kstate \<Rightarrow> usize \<Rightarrow> bool" where
  "in_use s a \<longleftrightarrow> (\<exists>f e. a = kptr_inner (kptr_to s f) \<and> direct_mapped s f \<and> entry (k_rt s) f = Some e \<and> \<not> free_entry e)"

definition user_index :: "nat list \<Rightarrow> nat \<Rightarrow> bool" where
  "user_index \<pi> i \<longleftrightarrow> i < 512 \<and> (\<pi> = [] \<longrightarrow> i < 256)"

definition pt_node_ok :: "kstate \<Rightarrow> (usize \<Rightarrow> nat list option) \<Rightarrow> usize \<Rightarrow> nat list \<Rightarrow> bool" where
  "pt_node_ok s own a \<pi> \<longleftrightarrow> length \<pi> \<le> 3 \<and> in_use s a \<and> (\<exists>t. k_heap s a = Some (OPageTable t) \<and> length t = 512)
     \<and> (length \<pi> < 3 \<longrightarrow> (\<forall>i b. user_index \<pi> i \<and> next_table s (pt_slot s a i) = Some b \<longrightarrow> own b = Some (\<pi> @ [i])))"

definition pt_tree :: "kstate \<Rightarrow> usize \<Rightarrow> (usize \<Rightarrow> nat list option) \<Rightarrow> bool" where
  "pt_tree s root own \<longleftrightarrow> own root = Some [] \<and> (\<forall>a \<pi>. own a = Some \<pi> \<longrightarrow> pt_node_ok s own a \<pi>)"

definition user_path :: "nat list \<Rightarrow> bool" where
  "user_path js \<longleftrightarrow> length js = 4 \<and> hd js < 256 \<and> (\<forall>j \<in> set js. j < 512)"

lemma pt_treeD: "pt_tree s root own \<Longrightarrow> own a = Some \<pi> \<Longrightarrow> pt_node_ok s own a \<pi>"
  by (simp add: pt_tree_def)

lemma pt_tree_child:
  assumes "pt_tree s root own" and "own a = Some \<rho>" and "user_path (\<rho> @ i # is)" and "is \<noteq> []" and "next_table s (pt_slot s a i) = Some b"
  shows "own b = Some (\<rho> @ [i])"
proof -
  have "user_index \<rho> i" and "length \<rho> < 3"
    using assms(3,4) by (cases \<rho>; cases "is"; auto simp: user_path_def user_index_def)+
  then show ?thesis
    using pt_treeD [OF assms(1,2)] assms(5) by (auto simp: pt_node_ok_def)
qed

text \<open>
  A step of the mapping: an empty entry of one table of the tree is filled, and the other tables
  of the tree stay as they are.
\<close>

definition fills :: "(usize \<Rightarrow> nat list option) \<Rightarrow> usize \<Rightarrow> nat \<Rightarrow> PageTableEntry \<Rightarrow> kstate \<Rightarrow> kstate \<Rightarrow> bool" where
  "fills own a i e s s' \<longleftrightarrow> k_pmo s' = k_pmo s \<and> pt_slot s a i = 0
     \<and> (\<forall>k. pt_slot s' a k = (if k = i then e else pt_slot s a k))
     \<and> (\<forall>b. own b \<noteq> None \<and> b \<noteq> a \<longrightarrow> k_heap s' b = k_heap s b)"

lemma kptr_to_cong: "k_pmo s' = k_pmo s \<Longrightarrow> kptr_to s' f = kptr_to s f"
  by (simp add: kptr_to_def)

lemma pt_slot_cong: "k_heap s' a = k_heap s a \<Longrightarrow> pt_slot s' a i = pt_slot s a i"
  by (simp add: pt_slot_def)

lemma next_table_cong: "k_pmo s' = k_pmo s \<Longrightarrow> next_table s' e = next_table s e"
  by (simp add: next_table_def kptr_to_def)

lemma fills_slot:
  assumes "fills own a i e s s'" and "own b \<noteq> None" and "b \<noteq> a \<or> k \<noteq> i"
  shows "pt_slot s' b k = pt_slot s b k"
  using assms by (cases "b = a") (auto simp: fills_def intro: pt_slot_cong)

lemma fills_node:
  assumes "fills own a i e s s'" and "pt_tree s root own" and "user_path (\<rho> @ \<sigma> @ ks)" and "ks \<noteq> []"
    and "own b = Some \<rho>" and "pt_node s b \<sigma> = Some c"
  shows "pt_node s' b \<sigma> = Some c"
  using assms(3-6)
proof (induction \<sigma> arbitrary: b \<rho>)
  case (Cons k \<sigma>)
  from Cons.prems(4) obtain d where d: "next_table s (pt_slot s b k) = Some d" "pt_node s d \<sigma> = Some c"
    by (auto split: option.splits)
  have "b \<noteq> a \<or> k \<noteq> i"
    using d(1) assms(1) by (auto simp: fills_def next_table_def)
  then have slot: "pt_slot s' b k = pt_slot s b k"
    using fills_slot [OF assms(1)] Cons.prems(3) by simp
  have pmo: "k_pmo s' = k_pmo s"
    using assms(1) by (simp add: fills_def)
  have "own d = Some (\<rho> @ [k])"
    using pt_tree_child [OF assms(2) Cons.prems(3) _ _ d(1)] Cons.prems(1,2) by simp
  with Cons.IH [of "\<rho> @ [k]" d] Cons.prems d have "pt_node s' d \<sigma> = Some c"
    by simp
  with d(1) show ?case
    by (simp add: slot next_table_cong [OF pmo])
qed simp

definition keeps_nodes :: "usize \<Rightarrow> kstate \<Rightarrow> kstate \<Rightarrow> bool" where
  "keeps_nodes root s s' \<longleftrightarrow> (\<forall>\<sigma> ks c. user_path (\<sigma> @ ks) \<and> ks \<noteq> [] \<and> pt_node s root \<sigma> = Some c \<longrightarrow> pt_node s' root \<sigma> = Some c)"

lemma fills_keeps_nodes: "fills own a i e s s' \<Longrightarrow> pt_tree s root own \<Longrightarrow> keeps_nodes root s s'"
  unfolding keeps_nodes_def by (auto intro: fills_node [where \<rho> = "[]"] simp: pt_tree_def)

lemma fills_elsewhere:
  assumes "fills own a i e s s'" and "pt_tree s root own" and "own a = Some \<pi>" and "own b = Some \<rho>"
    and "user_path (\<rho> @ is)" and "\<not> prefix (\<pi> @ [i]) (\<rho> @ is)"
  shows "tr s' b is = tr s b is"
  using assms(4-6)
proof (induction "is" arbitrary: b \<rho>)
  case (Cons k ks)
  have "b \<noteq> a \<or> k \<noteq> i"
    using Cons.prems(1,3) assms(3) by auto
  then have slot: "pt_slot s' b k = pt_slot s b k"
    using fills_slot [OF assms(1)] Cons.prems(1) by simp
  have pmo: "k_pmo s' = k_pmo s"
    using assms(1) by (simp add: fills_def)
  show ?case
  proof (cases "pt_slot s b k = 0 \<or> ks = [] \<or> huge (pt_slot s b k)")
    case False
    let ?c = "kptr_inner (kptr_to s (entry_frame (pt_slot s b k)))"
    have "own ?c = Some (\<rho> @ [k])"
      using pt_tree_child [OF assms(2) Cons.prems(1,2), of ?c] False by (simp add: next_table_def)
    from Cons.IH [OF this] Cons.prems(2,3) have "tr s' ?c ks = tr s ?c ks"
      by simp
    with False slot show ?thesis
      by (simp add: Let_def kptr_to_cong [OF pmo])
  qed (auto simp: slot Let_def)
qed simp

lemma fills_tr:
  assumes "fills own a i e s s'" and "pt_tree s root own" and "own a = Some \<pi>" and "pt_node s root \<pi> = Some a"
  shows "user_path js \<Longrightarrow> \<not> prefix (\<pi> @ [i]) js \<Longrightarrow> tr s' root js = tr s root js"
    and "user_path (\<pi> @ i # is) \<Longrightarrow> pt_node s' root \<pi> = Some a"
    and "user_path (\<pi> @ i # is) \<Longrightarrow> tr s' root (\<pi> @ i # is) = tr s' a (i # is) \<and> tr s root (\<pi> @ i # is) = None"
proof -
  have root: "own root = Some []"
    using assms(2) by (simp add: pt_tree_def)
  then show "user_path js \<Longrightarrow> \<not> prefix (\<pi> @ [i]) js \<Longrightarrow> tr s' root js = tr s root js"
    using fills_elsewhere [OF assms(1-3) root] by simp
  show node: "pt_node s' root \<pi> = Some a" if "user_path (\<pi> @ i # is)"
    using fills_node [OF assms(1,2), of "[]" \<pi> "i # is" root] assms(4) root that by simp
  have "pt_slot s a i = 0"
    using assms(1) by (simp add: fills_def)
  then show "tr s' root (\<pi> @ i # is) = tr s' a (i # is) \<and> tr s root (\<pi> @ i # is) = None" if "user_path (\<pi> @ i # is)"
    using tr_append [OF node [OF that], of "i # is"] tr_append [OF assms(4), of "i # is"] by simp
qed

lemma pt_node_ok_table:
  assumes "pt_node_ok s own a \<pi>"
  obtains t where "k_heap s a = Some (OPageTable t)" "length t = 512" "\<And>i. i < 512 \<Longrightarrow> pt_slot s a i = t ! i"
  using assms by (auto simp: pt_node_ok_def pt_slot_def)

lemma pt_node_ok_mono:
  assumes "pt_node_ok s own a \<pi>" and "k_heap s' a = k_heap s a" and "k_pmo s' = k_pmo s"
    and "in_use s a \<Longrightarrow> in_use s' a" and "\<And>b \<rho>. own b = Some \<rho> \<Longrightarrow> own' b = Some \<rho>"
  shows "pt_node_ok s' own' a \<pi>"
  using assms by (auto simp: pt_node_ok_def pt_slot_cong [OF assms(2)] next_table_cong [OF assms(3)])

text \<open>Filling an entry of a table of the lowest level.\<close>

lemma map_leaf:
  assumes "pt_tree s root own" and "own a = Some \<pi>" and "pt_node s root \<pi> = Some a" and "user_path (\<pi> @ [i])"
    and "k_heap s a = Some (OPageTable t)" and "t ! i = 0" and "e \<noteq> 0"
    and s': "s' = write_obj (KPtr a) (OPageTable (t[i := e])) s"
  shows "pt_tree s' root own" and "user_path js \<Longrightarrow> tr s' root js = (if js = \<pi> @ [i] then Some e else tr s root js)"
    and "tr s root (\<pi> @ [i]) = None" and "keeps_nodes root s s'"
proof -
  have len: "length t = 512" "length \<pi> = 3" "i < 512"
    using pt_treeD [OF assms(1,2)] assms(4,5) by (auto simp: pt_node_ok_def user_path_def)
  have fills: "fills own a i e s s'"
    using assms(5,6) len by (auto simp: fills_def pt_slot_def s' nth_list_update)
  note f = fills_tr [OF fills assms(1-3)]
  show "pt_tree s' root own"
    unfolding pt_tree_def
  proof (intro conjI allI impI)
    fix b \<rho> assume b: "own b = Some \<rho>"
    have use: "in_use s' c = in_use s c" for c
      by (simp add: in_use_def s')
    show "pt_node_ok s' own b \<rho>"
    proof (cases "b = a")
      case True
      then show ?thesis
        using pt_treeD [OF assms(1,2)] b assms(2) len use by (simp add: pt_node_ok_def s')
    next
      case False
      then show ?thesis
        using use by (intro pt_node_ok_mono [OF pt_treeD [OF assms(1) b]]) (simp_all add: s')
    qed
  qed (use assms(1) in \<open>simp add: pt_tree_def\<close>)
  show "tr s root (\<pi> @ [i]) = None"
    using f(3) [OF assms(4)] by simp
  show "keeps_nodes root s s'"
    by (rule fills_keeps_nodes [OF fills assms(1)])
  show "tr s' root js = (if js = \<pi> @ [i] then Some e else tr s root js)" if js: "user_path js"
  proof (cases "prefix (\<pi> @ [i]) js")
    case True
    then have "js = \<pi> @ [i]"
      using js len(2) by (auto simp: prefix_def user_path_def)
    then show ?thesis
      using f(3) [OF assms(4)] fills assms(7) by (simp add: fills_def Let_def)
  next
    case False
    then show ?thesis
      using f(1) [OF js] by auto
  qed
qed

text \<open>Linking a fresh, empty table to an empty entry.\<close>

definition link_table :: "usize \<Rightarrow> AnyPageTable \<Rightarrow> nat \<Rightarrow> RawFrame \<Rightarrow> PageTableEntry \<Rightarrow> kstate \<Rightarrow> kstate" where
  "link_table a t i f e s = write_obj (KPtr a) (OPageTable (t[i := e])) (write_obj (kptr_to s f) (OPageTable AnyPageTable_new)
     (s\<lparr>k_rt := set_entry (k_rt s) f (mk_entry Kernel 1)\<rparr>))"

lemma link_table_simps:
  "k_pmo (link_table a t i f e s) = k_pmo s" "k_rt (link_table a t i f e s) = set_entry (k_rt s) f (mk_entry Kernel 1)"
  "k_heap (link_table a t i f e s) = (k_heap s)(kptr_inner (kptr_to s f) \<mapsto> OPageTable AnyPageTable_new, a \<mapsto> OPageTable (t[i := e]))"
  "kptr_to (link_table a t i f e s) g = kptr_to s g" "direct_mapped (link_table a t i f e s) g = direct_mapped s g"
  by (simp_all add: link_table_def)

lemma free_not_in_use:
  assumes "direct_mapped s f" and "entry (k_rt s) f = Some x" and "free_entry x"
  shows "\<not> in_use s (kptr_inner (kptr_to s f))"
proof
  assume "in_use s (kptr_inner (kptr_to s f))"
  then obtain g y where g: "kptr_inner (kptr_to s f) = kptr_inner (kptr_to s g)" "direct_mapped s g"
    "entry (k_rt s) g = Some y" "\<not> free_entry y"
    by (auto simp: in_use_def)
  then have "f = g"
    using assms(1) by (intro kptr_to_inj [of s]) (simp_all add: KPtr.expand)
  with g assms show False by simp
qed

lemma link_in_use:
  assumes "direct_mapped s f" and "entry (k_rt s) f = Some x"
  shows "in_use s b \<Longrightarrow> in_use (link_table a t i f e s) b"
    and "in_use (link_table a t i f e s) (kptr_inner (kptr_to s f))"
proof -
  have new: "\<not> free_entry (mk_entry Kernel 1)"
    by (simp add: free_entry_def)
  then show "in_use (link_table a t i f e s) (kptr_inner (kptr_to s f))"
    using assms unfolding in_use_def link_table_simps by (intro exI conjI) (auto simp: rt.look_put)
  assume "in_use s b"
  then obtain g y where "b = kptr_inner (kptr_to s g)" "direct_mapped s g" "entry (k_rt s) g = Some y" "\<not> free_entry y"
    by (auto simp: in_use_def)
  then show "in_use (link_table a t i f e s) b"
    using assms new unfolding in_use_def link_table_simps
    by (intro exI [of _ g] exI [of _ "if frame_idx g = frame_idx f then mk_entry Kernel 1 else y"]) (simp add: rt.look_put)
qed

lemma length_empty_table [simp]: "length AnyPageTable_new = 512"
  by (simp add: AnyPageTable_new_def)

lemma link_fresh:
  assumes "pt_tree s root own" and "direct_mapped s f" and "entry (k_rt s) f = Some x" and "free_entry x"
  shows "own (kptr_inner (kptr_to s f)) = None"
  using free_not_in_use [OF assms(2-4)] pt_treeD [OF assms(1), of "kptr_inner (kptr_to s f)"]
  by (cases "own (kptr_inner (kptr_to s f))") (auto simp: pt_node_ok_def)

lemma link_fills:
  assumes "own a = Some \<pi>" and "own c = None" and c: "c = kptr_inner (kptr_to s f)" and "k_heap s a = Some (OPageTable t)"
    and "length t = 512" and "i < 512" and "t ! i = 0" and e: "e \<noteq> 0" "\<not> huge e" "entry_frame e = f" and s': "s' = link_table a t i f e s"
  shows "fills own a i e s s'" and "pt_slot s' c k = 0" and "next_table s' (pt_slot s' a i) = Some c"
proof -
  have ca: "c \<noteq> a"
    using assms(1,2) by auto
  have heap: "k_heap s' = (k_heap s)(c \<mapsto> OPageTable AnyPageTable_new, a \<mapsto> OPageTable (t[i := e]))" and pmo: "k_pmo s' = k_pmo s"
    by (simp_all add: s' c link_table_simps)
  show fills: "fills own a i e s s'"
    using assms(2,4-7) by (auto simp: fills_def pt_slot_def heap pmo nth_list_update)
  show "pt_slot s' c k = 0"
    using ca by (auto simp: pt_slot_def heap AnyPageTable_new_def)
  show "next_table s' (pt_slot s' a i) = Some c"
    using fills e c by (simp add: fills_def next_table_def kptr_to_cong [OF pmo])
qed

lemma link_tree:
  assumes "pt_tree s root own" and "own a = Some \<pi>" and "length \<pi> < 3" and "own c = None" and "fills own a i e s s'"
    and empty: "\<And>k. pt_slot s' c k = 0" and link: "next_table s' (pt_slot s' a i) = Some c"
    and use: "\<And>b. in_use s b \<Longrightarrow> in_use s' b" "in_use s' c"
    and heap: "k_heap s' c = Some (OPageTable AnyPageTable_new)" "k_heap s' a = Some (OPageTable t')" "length t' = 512"
  shows "pt_tree s' root (own(c \<mapsto> \<pi> @ [i]))"
  unfolding pt_tree_def
proof (intro conjI allI impI)
  have pmo: "k_pmo s' = k_pmo s" and other: "\<And>b. own b \<noteq> None \<Longrightarrow> b \<noteq> a \<Longrightarrow> k_heap s' b = k_heap s b"
    using assms(5) by (simp_all add: fills_def)
  show "(own(c \<mapsto> \<pi> @ [i])) root = Some []"
    using assms(1,4) by (auto simp: pt_tree_def)
  fix b \<rho> assume b: "(own(c \<mapsto> \<pi> @ [i])) b = Some \<rho>"
  consider (new) "b = c" "\<rho> = \<pi> @ [i]" | (here) "b = a" "\<rho> = \<pi>" | (other) "b \<noteq> a" "b \<noteq> c" "own b = Some \<rho>"
    using b assms(2,4) by (cases "b = a"; cases "b = c") auto
  then show "pt_node_ok s' (own(c \<mapsto> \<pi> @ [i])) b \<rho>"
  proof cases
    case new
    then show ?thesis
      using assms(3) use(2) heap(1) empty by (simp add: pt_node_ok_def next_table_def)
  next
    case here
    have "(own(c \<mapsto> \<pi> @ [i])) d = Some (\<pi> @ [k])"
      if "user_index \<pi> k" "next_table s' (pt_slot s' a k) = Some d" for k d
    proof (cases "k = i")
      case False
      then have "next_table s (pt_slot s a k) = Some d"
        using that(2) assms(5) by (simp add: fills_def next_table_cong [OF pmo])
      then have "own d = Some (\<pi> @ [k])"
        using pt_treeD [OF assms(1,2)] that(1) assms(3) by (auto simp: pt_node_ok_def)
      then show ?thesis
        using assms(4) by auto
    qed (use that link in auto)
    then show ?thesis
      using here pt_treeD [OF assms(1,2)] use(1) heap(2,3) by (auto simp: pt_node_ok_def)
  next
    case other': other
    then show ?thesis
      using assms(4) pmo use(1) other by (intro pt_node_ok_mono [OF pt_treeD [OF assms(1) other'(3)]]) auto
  qed
qed

lemma map_link:
  assumes "pt_tree s root own" and "own a = Some \<pi>" and "pt_node s root \<pi> = Some a" and "user_path (\<pi> @ i # is)" and "is \<noteq> []"
    and "k_heap s a = Some (OPageTable t)" and "t ! i = 0"
    and f: "direct_mapped s f" "entry (k_rt s) f = Some x" "free_entry x"
    and e: "e \<noteq> 0" "\<not> huge e" "entry_frame e = f"
    and s': "s' = link_table a t i f e s" and c: "c = kptr_inner (kptr_to s f)"
  shows "pt_tree s' root (own(c \<mapsto> \<pi> @ [i]))" and "pt_node s' root (\<pi> @ [i]) = Some c"
    and "user_path js \<Longrightarrow> tr s' root js = tr s root js"
    and "keeps_nodes root s s'"
proof -
  have len: "length t = 512" "length \<pi> < 3" "i < 512"
    using pt_treeD [OF assms(1,2)] assms(4-6) by (cases "is"; auto simp: pt_node_ok_def user_path_def)+
  have fresh: "own c = None"
    using link_fresh [OF assms(1) f] by (simp add: c)
  note link = link_fills [OF assms(2) fresh c assms(6) len(1,3) assms(7) e s']
  note fl = fills_tr [OF link(1) assms(1-3)]
  show "pt_tree s' root (own(c \<mapsto> \<pi> @ [i]))"
    using link_in_use [OF f(1,2)] assms(2) fresh len(1)
    by (intro link_tree [where t' = "t[i := e]", OF assms(1,2) len(2) fresh link]) (auto simp: s' c link_table_simps)
  show "pt_node s' root (\<pi> @ [i]) = Some c"
    using fl(2) [OF assms(4)] link(3) by (simp add: pt_node_append)
  show "keeps_nodes root s s'"
    by (rule fills_keeps_nodes [OF link(1) assms(1)])
  show "tr s' root js = tr s root js" if js: "user_path js"
  proof (cases "prefix (\<pi> @ [i]) js")
    case True
    then obtain ks where ks: "js = \<pi> @ i # ks"
      by (auto simp: prefix_def)
    then have "ks \<noteq> []"
      using js len(2) by (auto simp: user_path_def)
    then have "tr s' a (i # ks) = None"
      using link(2,3) e(2) by (cases ks) (auto simp: Let_def next_table_def split: if_splits)
    then show ?thesis
      using fl(3) js ks by simp
  qed (use fl(1) [OF js] in simp)
qed

section \<open>The mapping loop\<close>

definition alloc_ready :: "kstate \<Rightarrow> BumpAllocator \<Rightarrow> bool" where
  "alloc_ready s fa \<longleftrightarrow> rt_ok (k_rt s) \<and> length (entries (k_rt s)) < 2 ^ 40
     \<and> unat (bump_index fa) \<le> length (entries (k_rt s)) \<and> (\<forall>i < length (entries (k_rt s)). direct_mapped s (frame_no i))"

definition level_of :: "nat \<Rightarrow> PageTableLevel" where
  "level_of n = PageTableLevel (of_nat n)"

definition page_path :: "VirtAddr \<Rightarrow> nat list" where
  "page_path v = List.map (\<lambda>x. unat (offset_u16 x)) [p4_index v, p3_index v, p2_index v, p1_index v]"

lemma level_step:
  assumes "page_path v = \<pi> @ i # is"
  shows "\<exists>off. page_table_index v (level_of (length (i # is))) = Return off \<and> unat (offset_u16 off) = i"
    and "lower (level_of (length (i # is))) = Return (if is = [] then None else Some (level_of (length is)))"
    and "PageTableLevel.level (level_of (length (i # is))) = 1 \<longleftrightarrow> is = []"
proof -
  have "length (page_path v) = length (\<pi> @ i # is)"
    using assms by simp
  then have "length is \<le> 3"
    by (simp add: page_path_def)
  then have n: "length is = 0 \<or> length is = 1 \<or> length is = 2 \<or> length is = 3"
    by linarith
  then show "\<exists>off. page_table_index v (level_of (length (i # is))) = Return off \<and> unat (offset_u16 off) = i"
    using assms
    by (auto simp: level_of_def page_path_def page_table_index_eq length_Suc_conv numeral_2_eq_2 numeral_3_eq_3
        Cons_eq_append_conv)
  show "lower (level_of (length (i # is))) = Return (if is = [] then None else Some (level_of (length is)))"
    using n by (auto simp: level_of_def lower_eq)
  show "PageTableLevel.level (level_of (length (i # is))) = 1 \<longleftrightarrow> is = []"
    using n by (auto simp: level_of_def)
qed

declare map_loop.simps(2) [simp del]

lemma map_loop_present:
  assumes "ptf_spec F" and "page_path (page_base page) = \<pi> @ i # is" and "k_heap s a = Some (OPageTable t)" and "t ! i \<noteq> 0"
  shows "map_loop F page frame flags pf (Some (level_of (length (i # is)))) (KPtr a) fa s =
    (if is = [] then Return (Err (AlreadyMapped (entry_frame (t ! i))), fa, s)
     else if huge (t ! i) then Return (Err HugeParentEntry, fa, s)
     else bindR (to_virtual (k_pmo s) (frame_base (entry_frame (t ! i)))) (\<lambda>v.
       map_loop F page frame flags pf (Some (level_of (length is))) (KPtr (as_usize v)) fa s))"
proof -
  define l where "l = level_of (length (i # is))"
  note l = level_step [OF assms(2), folded l_def]
  obtain off where off: "page_table_index (page_base page) l = Return off" "unat (offset_u16 off) = i"
    using l(1) by blast
  obtain fl where fl: "PageTableEntry_get F (t ! i) = Return (Some (entry_frame (t ! i), fl))"
    "contains F fl (HUGE_PAGE F) \<longleftrightarrow> huge (t ! i)"
    by (rule get_entry [OF assms(1,4)])
  show ?thesis
    unfolding l_def [symmetric] using off fl assms(3) l(2,3)
    by (subst map_loop.simps(2)) (simp add: deref_eqs AnyPageTable_get_def)
qed

lemma map_loop_leaf:
  assumes "ptf_spec F" and "page_path (page_base page) = \<pi> @ [i]" and "k_heap s a = Some (OPageTable t)" and "t ! i = 0"
  shows "map_loop F page frame flags pf (Some (level_of (length [i]))) (KPtr a) fa s =
    Return (Ok (), fa, write_obj (KPtr a) (OPageTable (t[i := mk_pte F frame flags])) s)"
proof -
  define l where "l = level_of (length [i])"
  note l = level_step [OF assms(2), folded l_def]
  obtain off where off: "page_table_index (page_base page) l = Return off" "unat (offset_u16 off) = i"
    using l(1) by blast
  show ?thesis
    unfolding l_def [symmetric] using off assms(3,4) l(2,3)
    by (subst map_loop.simps(2))
       (simp add: deref_eqs AnyPageTable_get_def PageTableEntry_set_eq [OF assms(1)] PageTableEntry_get_eq(1) [OF assms(1)] is_bottom_def)
qed

lemma map_loop_alloc:
  assumes "ptf_spec F" and "page_path (page_base page) = \<pi> @ i # is" and "is \<noteq> []" and "k_heap s a = Some (OPageTable t)"
    and "t ! i = 0" and ready: "alloc_ready s fa" and use: "in_use s a"
  shows "map_loop F page frame flags pf (Some (level_of (length (i # is)))) (KPtr a) fa s =
    (case first_from free_entry (unat (bump_index fa)) (entries (k_rt s)) of
       None \<Rightarrow> Return (Err FrameAllocationError, \<lparr>bump_index = of_nat (length (entries (k_rt s)))\<rparr>, s)
     | Some n \<Rightarrow> map_loop F page frame flags pf (Some (level_of (length is))) (kptr_to s (frame_no n)) \<lparr>bump_index = of_nat n\<rparr>
         (link_table a t i (frame_no n) (mk_pte F (frame_no n) (flag_union F pf (PRESENT F))) s))"
proof -
  define l where "l = level_of (length (i # is))"
  note l = level_step [OF assms(2), folded l_def]
  obtain off where off: "page_table_index (page_base page) l = Return off" "unat (offset_u16 off) = i"
    using l(1) by blast
  note r = ready [unfolded alloc_ready_def]
  have alloc: "alloc_kernel_frame fa (k_rt s) = Return (case first_from free_entry (unat (bump_index fa)) (entries (k_rt s)) of
      Some i \<Rightarrow> (Some (KernelFrame (frame_no i)), \<lparr>bump_index = of_nat i\<rparr>, set_entry (k_rt s) (frame_no i) (mk_entry Kernel 1))
    | None \<Rightarrow> (None, \<lparr>bump_index = of_nat (length (entries (k_rt s)))\<rparr>, k_rt s))"
    unfolding alloc_kernel_frame_def by (rule kernel_source.loop_eq) (use r in auto)
  show ?thesis
  proof (cases "first_from free_entry (unat (bump_index fa)) (entries (k_rt s))")
    case None
    then show ?thesis
      unfolding l_def [symmetric] using off alloc assms(3-5) l(2,3)
      by (subst map_loop.simps(2)) (simp add: deref_eqs AnyPageTable_get_def PageTableEntry_get_eq(1) [OF assms(1)] is_bottom_def)
  next
    case (Some n)
    then have n: "n < length (entries (k_rt s))" "free_entry (entries (k_rt s) ! n)" "n < 2 ^ 40"
      using r by (auto simp: first_from_Some_iff)
    have dm: "direct_mapped s (frame_no n)" and e: "entry (k_rt s) (frame_no n) = Some (entries (k_rt s) ! n)"
      using r n by (simp_all add: entry_def)
    have "a \<noteq> kptr_inner (kptr_to s (frame_no n))"
      using free_not_in_use [OF dm e n(2)] use by auto
    then show ?thesis
      unfolding l_def [symmetric] using Some off alloc assms(3-5) l(2,3) direct_mapped_virtual(1) [OF dm]
      by (subst map_loop.simps(2)) (simp add: deref_eqs AnyPageTable_get_def PageTableEntry_get_eq(1) [OF assms(1)]
          PageTableEntry_set_eq [OF assms(1)] is_bottom_def KernelFrame_into_raw_def link_table_def Let_def)
  qed
qed

text \<open>What a run of the loop has done, relative to the state it started from.\<close>

definition outcome :: "(unit, MapperError) result \<Rightarrow> PageTableEntry option \<Rightarrow> bool" where
  "outcome r old \<longleftrightarrow> (case r of
     Ok _ \<Rightarrow> old = None
   | Err FrameAllocationError \<Rightarrow> old = None
   | Err HugeParentEntry \<Rightarrow> (\<exists>e. old = Some e \<and> huge e)
   | Err (AlreadyMapped f) \<Rightarrow> (\<exists>e. old = Some e \<and> f = entry_frame e))"

text \<open>
  What a run leaves alone: frames in use stay in use, no frame becomes untyped, and objects in
  frames in use that are not tables of the tree do not change.
\<close>

definition no_new_untyped :: "kstate \<Rightarrow> kstate \<Rightarrow> bool" where
  "no_new_untyped s s' \<longleftrightarrow> (\<forall>e \<in> set (entries (k_rt s')). state_of e = Untyped \<longrightarrow> e \<in> set (entries (k_rt s)))"

lemma no_new_untyped_refl: "k_rt s' = k_rt s \<Longrightarrow> no_new_untyped s s'"
  by (simp add: no_new_untyped_def)

lemma no_new_untyped_trans: "no_new_untyped s s1 \<Longrightarrow> no_new_untyped s1 s' \<Longrightarrow> no_new_untyped s s'"
  by (simp add: no_new_untyped_def)

lemma no_new_untyped_set:
  assumes "k_rt s' = set_entry (k_rt s) f e" and "state_of e \<noteq> Untyped"
  shows "no_new_untyped s s'"
  using assms by (auto simp: no_new_untyped_def dest!: set_update_subset_insert [THEN subsetD])

definition kept :: "(usize \<Rightarrow> nat list option) \<Rightarrow> kstate \<Rightarrow> kstate \<Rightarrow> bool" where
  "kept own s s' \<longleftrightarrow> k_pmo s' = k_pmo s \<and> k_active s' = k_active s \<and> k_cr3 s' = k_cr3 s
     \<and> length (entries (k_rt s')) = length (entries (k_rt s)) \<and> no_new_untyped s s' \<and> (\<forall>a. in_use s a \<longrightarrow> in_use s' a)
     \<and> (\<forall>a. in_use s a \<and> own a = None \<longrightarrow> k_heap s' a = k_heap s a)"

lemma kept_refl [simp]: "kept own s s"
  by (simp add: kept_def no_new_untyped_refl)

lemma kept_trans:
  assumes "kept own s s1" and "kept own1 s1 s'" and "\<And>a. in_use s a \<Longrightarrow> own1 a = own a"
  shows "kept own s s'"
  using assms by (auto simp: kept_def intro: no_new_untyped_trans)

definition mapped ::
    "usize \<Rightarrow> (usize \<Rightarrow> nat list option) \<Rightarrow> nat list \<Rightarrow> PageTableEntry \<Rightarrow> kstate \<Rightarrow> (unit, MapperError) result \<Rightarrow>
     BumpAllocator \<Rightarrow> kstate \<Rightarrow> bool" where
  "mapped root own path e s r fa' s' \<longleftrightarrow> alloc_ready s' fa' \<and> kept own s s'
     \<and> (\<exists>own'. pt_tree s' root own' \<and> (\<forall>a. in_use s a \<longrightarrow> own' a = own a)) \<and> outcome r (tr s root path)
     \<and> (\<forall>js. user_path js \<longrightarrow> tr s' root js = (if r = Ok () \<and> js = path then Some e else tr s root js))"

lemma mapped_trans:
  assumes "mapped root own1 path e s1 r fa' s'" and "user_path path" and "\<And>js. user_path js \<Longrightarrow> tr s1 root js = tr s root js"
    and "kept own s s1" and "\<And>a. in_use s a \<Longrightarrow> own1 a = own a"
  shows "mapped root own path e s r fa' s'"
proof -
  from assms(1) obtain own' where own': "pt_tree s' root own'" "\<And>a. in_use s1 a \<Longrightarrow> own' a = own1 a"
    by (auto simp: mapped_def)
  have "own' a = own a" if "in_use s a" for a
    using own'(2) assms(4,5) that by (simp add: kept_def)
  moreover have "kept own s s'"
    using assms(1,4,5) by (auto simp: mapped_def intro: kept_trans)
  ultimately show ?thesis
    using assms(1-3) own'(1) by (auto simp: mapped_def)
qed

lemma kept_link:
  assumes "direct_mapped s f" and "entry (k_rt s) f = Some x" and "free_entry x" and "own a = Some \<pi>"
  shows "kept own s (link_table a t i f e s)"
proof -
  have "b \<noteq> kptr_inner (kptr_to s f)" if "in_use s b" for b
    using free_not_in_use [OF assms(1-3)] that by auto
  moreover have "no_new_untyped s (link_table a t i f e s)"
    by (rule no_new_untyped_set [OF link_table_simps(2)]) simp
  ultimately show ?thesis
    using link_in_use(1) [OF assms(1,2)] assms(4) by (auto simp: kept_def link_table_simps) (simp_all add: link_table_def)
qed

lemma kept_leaf:
  assumes "own a = Some \<pi>"
  shows "kept own s (write_obj (KPtr a) obj s)"
  using assms by (auto simp: kept_def in_use_def no_new_untyped_refl)

text \<open>The free frames that the allocator can still reach.\<close>

definition free_count :: "kstate \<Rightarrow> BumpAllocator \<Rightarrow> nat" where
  "free_count s fa = length (filter free_entry (drop (unat (bump_index fa)) (entries (k_rt s))))"

lemma free_count_None:
  assumes "first_from free_entry (unat (bump_index fa)) (entries (k_rt s)) = None"
  shows "free_count s fa = 0"
proof -
  have "\<not> free_entry x" if "x \<in> set (drop (unat (bump_index fa)) (entries (k_rt s)))" for x
    using that assms by (auto simp: first_from_None_iff in_set_conv_nth)
  then show ?thesis
    by (simp add: free_count_def filter_empty_conv)
qed

lemma free_filter_Some:
  assumes "first_from P n xs = Some i" and "\<not> P e"
  shows "length (filter P (drop n xs)) = Suc (length (filter P (drop i (xs[i := e]))))"
proof -
  have i: "n \<le> i" "i < length xs" "P (xs ! i)" "\<And>j. n \<le> j \<Longrightarrow> j < i \<Longrightarrow> \<not> P (xs ! j)"
    using assms(1) by (auto simp: first_from_Some_iff)
  have "drop n xs = take (i - n) (drop n xs) @ drop i xs"
    using i(1) by (metis append_take_drop_id drop_drop le_add_diff_inverse2)
  moreover have "filter P (take (i - n) (drop n xs)) = []"
    using i by (auto simp: filter_empty_conv in_set_conv_nth)
  ultimately have "filter P (drop n xs) = filter P (drop i xs)"
    by (metis append_Nil filter_append)
  moreover have "drop i xs = xs ! i # drop (Suc i) xs" and "drop i (xs[i := e]) = e # drop (Suc i) xs"
    using i(2) by (simp_all add: Cons_nth_drop_Suc drop_update_swap flip: Cons_nth_drop_Suc)
  ultimately show ?thesis
    using i(3) assms(2) by simp
qed

lemma free_count_link:
  assumes "first_from free_entry (unat (bump_index fa)) (entries (k_rt s)) = Some n" and "n < 2 ^ 40"
  shows "free_count s fa = Suc (free_count (link_table a t i (frame_no n) e s) \<lparr>bump_index = of_nat n\<rparr>)"
  using free_filter_Some [OF assms(1), of "mk_entry Kernel 1"] assms(2)
  by (simp add: free_count_def link_table_simps unat_of_nat_lt free_entry_def)

text \<open>
  The tables that a path needs below the top, the number of tables of a set that an address space
  lacks, and what a run may cost: every frame that it takes becomes a table of the set, and it
  fails only when there are fewer frames than tables to add.
\<close>

definition tables_of :: "nat list \<Rightarrow> nat list set" where
  "tables_of path = {\<rho>. \<rho> \<noteq> [] \<and> strict_prefix \<rho> path}"

definition user_tables :: "nat list set \<Rightarrow> bool" where
  "user_tables T \<longleftrightarrow> finite T \<and> (\<forall>\<rho> \<in> T. \<exists>js. user_path js \<and> strict_prefix \<rho> js)"

definition missing :: "kstate \<Rightarrow> usize \<Rightarrow> nat list set \<Rightarrow> nat" where
  "missing s root T = card {\<rho> \<in> T. pt_node s root \<rho> = None}"

definition spends :: "usize \<Rightarrow> nat list \<Rightarrow> BumpAllocator \<Rightarrow> kstate \<Rightarrow> (unit, MapperError) result \<Rightarrow> BumpAllocator \<Rightarrow> kstate \<Rightarrow> bool" where
  "spends root path fa s r fa' s' \<longleftrightarrow> (\<forall>T. user_tables T \<and> tables_of path \<subseteq> T \<longrightarrow>
     missing s' root T + free_count s fa \<le> missing s root T + free_count s' fa'
     \<and> (r = Err FrameAllocationError \<longrightarrow> free_count s fa < missing s root T))"

lemma tables_of_path:
  assumes "length path = 4"
  shows "finite (tables_of path)" and "card (tables_of path) \<le> 3" and "user_path path \<Longrightarrow> user_tables (tables_of path)"
    and "tables_of path = (\<lambda>k. take k path) ` {1, 2, 3}"
proof -
  show eq: "tables_of path = (\<lambda>k. take k path) ` {1, 2, 3}"
  proof (intro set_eqI iffI)
    fix \<rho> assume "\<rho> \<in> tables_of path"
    then obtain ks where ks: "path = \<rho> @ ks" "ks \<noteq> []" "\<rho> \<noteq> []"
      by (auto simp: tables_of_def strict_prefix_def prefix_def)
    then have "length \<rho> \<noteq> 0" "length \<rho> < 4"
      using assms by (cases ks; simp)+
    then have "length \<rho> = 1 \<or> length \<rho> = 2 \<or> length \<rho> = 3"
      by linarith
    then show "\<rho> \<in> (\<lambda>k. take k path) ` {1, 2, 3}"
      using ks(1) by (intro image_eqI [of _ _ "length \<rho>"]) auto
  next
    fix \<rho> assume "\<rho> \<in> (\<lambda>k. take k path) ` {1, 2, 3}"
    then obtain k where "\<rho> = take k path" "0 < k" "k < 4" by auto
    then show "\<rho> \<in> tables_of path"
      using assms take_is_prefix [of k path] by (auto simp: tables_of_def strict_prefix_def dest: arg_cong [of _ _ length])
  qed
  show "finite (tables_of path)" and fin: "card (tables_of path) \<le> 3"
    unfolding eq by (simp, rule order.trans [OF card_image_le]) simp_all
  then show "user_path path \<Longrightarrow> user_tables (tables_of path)"
    by (auto simp: user_tables_def eq) (use eq in \<open>auto simp: tables_of_def\<close>)
qed

lemma missing_mono:
  assumes "user_tables T" and "keeps_nodes root s s'"
  shows "{\<rho> \<in> T. pt_node s' root \<rho> = None} \<subseteq> {\<rho> \<in> T. pt_node s root \<rho> = None}" and "missing s' root T \<le> missing s root T"
proof -
  have "pt_node s root \<rho> = None" if "\<rho> \<in> T" "pt_node s' root \<rho> = None" for \<rho>
  proof -
    from assms(1) that(1) obtain js where "user_path js" "strict_prefix \<rho> js"
      by (auto simp: user_tables_def)
    then obtain ks where "user_path (\<rho> @ ks)" "ks \<noteq> []"
      by (auto simp: strict_prefix_def prefix_def)
    with assms(2) that(2) show ?thesis
      by (cases "pt_node s root \<rho>") (auto simp: keeps_nodes_def)
  qed
  then show sub: "{\<rho> \<in> T. pt_node s' root \<rho> = None} \<subseteq> {\<rho> \<in> T. pt_node s root \<rho> = None}"
    by blast
  then show "missing s' root T \<le> missing s root T"
    using assms(1) by (auto simp: missing_def user_tables_def intro!: card_mono)
qed

lemma missing_link:
  assumes "user_tables T" and "keeps_nodes root s s'"
    and "\<rho> \<in> T" and "pt_node s root \<rho> = None" and "pt_node s' root \<rho> \<noteq> None"
  shows "missing s' root T < missing s root T"
proof -
  have "\<rho> \<in> {\<rho> \<in> T. pt_node s root \<rho> = None}" and "\<rho> \<notin> {\<rho> \<in> T. pt_node s' root \<rho> = None}"
    using assms(3-5) by simp_all
  with missing_mono(1) [OF assms(1,2)]
  have "{\<rho> \<in> T. pt_node s' root \<rho> = None} \<subset> {\<rho> \<in> T. pt_node s root \<rho> = None}"
    by blast
  then show ?thesis
    unfolding missing_def using assms(1) by (intro psubset_card_mono) (simp_all add: user_tables_def)
qed

lemma missing_pos: "user_tables T \<Longrightarrow> \<rho> \<in> T \<Longrightarrow> pt_node s root \<rho> = None \<Longrightarrow> 0 < missing s root T"
  by (auto simp: missing_def user_tables_def card_gt_0_iff)

lemma below_table: "ks \<noteq> [] \<Longrightarrow> \<pi> @ [i] \<in> tables_of (\<pi> @ i # ks)"
  by (auto simp: tables_of_def strict_prefix_def prefix_def)

lemma empty_slot_node: "pt_node s root \<pi> = Some a \<Longrightarrow> pt_slot s a i = 0 \<Longrightarrow> pt_node s root (\<pi> @ [i]) = None"
  by (simp add: pt_node_append next_table_def)

lemma spends_none [simp]: "r \<noteq> Err FrameAllocationError \<Longrightarrow> spends root path fa s r fa s"
  by (simp add: spends_def)

lemma spends_link:
  assumes "spends root path fa1 s1 r fa' s'" and "free_count s fa = Suc (free_count s1 fa1)"
    and "\<And>T. user_tables T \<Longrightarrow> tables_of path \<subseteq> T \<Longrightarrow> missing s1 root T < missing s root T"
  shows "spends root path fa s r fa' s'"
  using assms unfolding spends_def by fastforce

lemma alloc_ready_link:
  assumes "alloc_ready s fa" and "n < length (entries (k_rt s))"
  shows "alloc_ready (link_table a t i f e s) \<lparr>bump_index = of_nat n\<rparr>"
  using assms by (auto simp: alloc_ready_def link_table_simps unat_of_nat_lt)

lemma kptr_to_base: "kptr_to s f = kptr_to s g \<Longrightarrow> f = g"
  by (simp add: kptr_to_def RawFrame.expand PhysAddr.expand)

lemma link_entry:
  assumes "ptf_spec F" and "frame_ok f" and "bits F pf AND 0x80 = 0"
  shows "mk_pte F f (flag_union F pf (PRESENT F)) \<noteq> 0" and "\<not> huge (mk_pte F f (flag_union F pf (PRESENT F)))"
    and "entry_frame (mk_pte F f (flag_union F pf (PRESENT F))) = f"
proof -
  let ?e = "mk_pte F f (flag_union F pf (PRESENT F))"
  note m = mk_pte_masks [OF assms(1,2), of "flag_union F pf (PRESENT F)"]
  have b: "bits F (flag_union F pf (PRESENT F)) = bits F pf OR 1"
    by (simp add: ptf_specD [OF assms(1)])
  have "bit (bits F pf OR 1) 0"
    by (simp add: bit_or_iff)
  then have "bits F pf OR 1 \<noteq> 0"
    by auto
  then show "?e \<noteq> 0"
    using m(2) b by auto
  have "?e AND 0x80 = (?e AND FLAGS_MASK) AND 0x80"
    by (simp add: and.assoc) (simp add: FLAGS_MASK_def FRAME_MASK_def)
  also have "\<dots> = 0"
    using assms(3) by (simp add: m(2) b bit.conj_disj_distrib2)
  finally show "\<not> huge ?e"
    by (simp add: huge_def)
  show "entry_frame ?e = f"
    using m(1) by (cases f) (simp add: entry_frame_def)
qed

lemma present_step:
  assumes "pt_tree s root own" and "own a = Some \<pi>" and "pt_node s root \<pi> = Some a" and "user_path (\<pi> @ i # ks)" and "ks \<noteq> []"
    and "pt_slot s a i = e" and "e \<noteq> 0" and "\<not> huge e" and b: "b = kptr_inner (kptr_to s (entry_frame e))"
  shows "own b = Some (\<pi> @ [i])" and "pt_node s root (\<pi> @ [i]) = Some b" and "direct_mapped s (entry_frame e)"
proof -
  have nxt: "next_table s (pt_slot s a i) = Some b"
    using assms(6-8) by (simp add: b next_table_def)
  show own: "own b = Some (\<pi> @ [i])"
    using pt_tree_child [OF assms(1,2,4,5) nxt] .
  then obtain f where "b = kptr_inner (kptr_to s f)" "direct_mapped s f"
    using pt_treeD [OF assms(1) own] by (auto simp: pt_node_ok_def in_use_def)
  then show "direct_mapped s (entry_frame e)"
    using kptr_to_base [of s "entry_frame e" f] by (simp add: b KPtr.expand)
  show "pt_node s root (\<pi> @ [i]) = Some b"
    using assms(3) nxt by (simp add: pt_node_append)
qed

text \<open>The claim about the loop, for a table at any level.\<close>

definition loop_maps :: "'f ptf \<Rightarrow> Page \<Rightarrow> RawFrame \<Rightarrow> 'f \<Rightarrow> 'f \<Rightarrow> usize \<Rightarrow> nat list \<Rightarrow> bool" where
  "loop_maps F page frame flags pf root is \<longleftrightarrow> (\<forall>\<pi> a fa s own.
     alloc_ready s fa \<and> pt_tree s root own \<and> own a = Some \<pi> \<and> pt_node s root \<pi> = Some a \<and> page_path (page_base page) = \<pi> @ is
     \<longrightarrow> (\<exists>r fa' s'. map_loop F page frame flags pf (Some (level_of (length is))) (KPtr a) fa s = Return (r, fa', s')
       \<and> mapped root own (\<pi> @ is) (mk_pte F frame flags) s r fa' s'
       \<and> spends root (\<pi> @ is) fa s r fa' s'))"

lemma loop_mapsI:
  assumes "user_path (page_path (page_base page))"
    and "\<And>\<pi> a fa s own t. alloc_ready s fa \<Longrightarrow> pt_tree s root own \<Longrightarrow> own a = Some \<pi> \<Longrightarrow> pt_node s root \<pi> = Some a \<Longrightarrow>
      page_path (page_base page) = \<pi> @ i # ks \<Longrightarrow> user_path (\<pi> @ i # ks) \<Longrightarrow> k_heap s a = Some (OPageTable t) \<Longrightarrow>
      pt_slot s a i = t ! i \<Longrightarrow> in_use s a \<Longrightarrow> tr s root (\<pi> @ i # ks) = tr s a (i # ks) \<Longrightarrow>
      \<exists>r fa' s'. map_loop F page frame flags pf (Some (level_of (length (i # ks)))) (KPtr a) fa s = Return (r, fa', s')
        \<and> mapped root own (\<pi> @ i # ks) (mk_pte F frame flags) s r fa' s'
        \<and> spends root (\<pi> @ i # ks) fa s r fa' s'"
  shows "loop_maps F page frame flags pf root (i # ks)"
  unfolding loop_maps_def
proof (intro allI impI, elim conjE)
  fix \<pi> a fa s own
  assume *: "alloc_ready s fa" "pt_tree s root own" "own a = Some \<pi>" "pt_node s root \<pi> = Some a" "page_path (page_base page) = \<pi> @ i # ks"
  note ok = pt_treeD [OF *(2,3)]
  obtain t where t: "k_heap s a = Some (OPageTable t)" "\<And>i. i < 512 \<Longrightarrow> pt_slot s a i = t ! i"
    by (rule pt_node_ok_table [OF ok]) blast
  show "\<exists>r fa' s'. map_loop F page frame flags pf (Some (level_of (length (i # ks)))) (KPtr a) fa s = Return (r, fa', s')
        \<and> mapped root own (\<pi> @ i # ks) (mk_pte F frame flags) s r fa' s'
        \<and> spends root (\<pi> @ i # ks) fa s r fa' s'"
    using assms(1) ok tr_append [OF *(4), of "i # ks"]
    by (intro assms(2) [OF *, of t]) (auto simp: *(5) t user_path_def pt_node_ok_def)
qed

lemma loop_maps_leaf:
  assumes "ptf_spec F" and "mk_pte F frame flags \<noteq> 0" and "user_path (page_path (page_base page))"
  shows "loop_maps F page frame flags pf root [i]"
proof (rule loop_mapsI [OF assms(3)])
  fix \<pi> a fa s own t
  assume *: "alloc_ready s fa" "pt_tree s root own" "own a = Some \<pi>" "pt_node s root \<pi> = Some a" "page_path (page_base page) = \<pi> @ [i]"
    "user_path (\<pi> @ [i])" "k_heap s a = Some (OPageTable t)" "pt_slot s a i = t ! i" "tr s root (\<pi> @ [i]) = tr s a [i]"
  show "\<exists>r fa' s'. map_loop F page frame flags pf (Some (level_of (length [i]))) (KPtr a) fa s = Return (r, fa', s')
        \<and> mapped root own (\<pi> @ [i]) (mk_pte F frame flags) s r fa' s'
        \<and> spends root (\<pi> @ [i]) fa s r fa' s'"
  proof (cases "t ! i = 0")
    case True
    let ?s = "write_obj (KPtr a) (OPageTable (t[i := mk_pte F frame flags])) s"
    note leaf = map_leaf [OF *(2-4,6,7) True assms(2) refl]
    have "alloc_ready ?s fa"
      using *(1) by (simp add: alloc_ready_def)
    moreover have "spends root (\<pi> @ [i]) fa s (Ok ()) fa ?s"
      using missing_mono(2) [OF _ leaf(4)] by (simp add: spends_def free_count_def)
    ultimately show ?thesis
      unfolding map_loop_leaf [OF assms(1) *(5,7) True] using kept_leaf [where own = own, OF *(3)] leaf(1-3) by (auto simp: mapped_def outcome_def)
  next
    case False
    then show ?thesis
      unfolding map_loop_present [OF assms(1) *(5,7) False] using * by (auto simp: mapped_def outcome_def Let_def)
  qed
qed

lemma loop_maps_step:
  assumes "ptf_spec F" and "bits F pf AND 0x80 = 0" and "user_path (page_path (page_base page))"
    and "ks \<noteq> []" and IH: "loop_maps F page frame flags pf root ks"
  shows "loop_maps F page frame flags pf root (i # ks)"
proof (rule loop_mapsI [OF assms(3)])
  fix \<pi> a fa s own t
  assume *: "alloc_ready s fa" "pt_tree s root own" "own a = Some \<pi>" "pt_node s root \<pi> = Some a" "page_path (page_base page) = \<pi> @ i # ks"
    "user_path (\<pi> @ i # ks)" "k_heap s a = Some (OPageTable t)" "pt_slot s a i = t ! i" "in_use s a" "tr s root (\<pi> @ i # ks) = tr s a (i # ks)"
  show "\<exists>r fa' s'. map_loop F page frame flags pf (Some (level_of (length (i # ks)))) (KPtr a) fa s = Return (r, fa', s')
        \<and> mapped root own (\<pi> @ i # ks) (mk_pte F frame flags) s r fa' s'
        \<and> spends root (\<pi> @ i # ks) fa s r fa' s'"
  proof (cases "t ! i = 0")
    case False
    note run = map_loop_present [OF assms(1) *(5,7) False]
    show ?thesis
    proof (cases "huge (t ! i)")
      case True
      then show ?thesis
        unfolding run using False * assms(4) by (auto simp: mapped_def outcome_def Let_def)
    next
      case small: False
      note st = present_step [OF *(2-4,6) assms(4) *(8) False small refl]
      from IH [unfolded loop_maps_def, rule_format, OF conjI [OF *(1) conjI [OF *(2) conjI [OF st(1) conjI [OF st(2)]]]]]
      show ?thesis
        unfolding run using *(5) assms(4) small by (fastforce simp: direct_mapped_virtual(1) [OF st(3)])
    qed
  next
    case True
    note run = map_loop_alloc [OF assms(1) *(5) assms(4) *(7) True *(1,9)]
    have gap: "pt_node s root (\<pi> @ [i]) = None"
      using empty_slot_node [OF *(4)] *(8) True by simp
    show ?thesis
    proof (cases "first_from free_entry (unat (bump_index fa)) (entries (k_rt s))")
      case None
      let ?fa = "\<lparr>bump_index = of_nat (length (entries (k_rt s)))\<rparr> :: BumpAllocator"
      have "spends root (\<pi> @ i # ks) fa s (Err FrameAllocationError) ?fa s"
        using free_count_None [OF None] missing_pos [OF _ _ gap] below_table [OF assms(4)] by (auto simp: spends_def)
      then show ?thesis
        unfolding run using * True None assms(4)
        by (auto simp: mapped_def outcome_def alloc_ready_def unat_of_nat_lt)
    next
      case (Some n)
      have n: "n < length (entries (k_rt s))" "free_entry (entries (k_rt s) ! n)" "n < 2 ^ 40"
        using *(1) Some by (auto simp: first_from_Some_iff alloc_ready_def)
      have f: "direct_mapped s (frame_no n)" "entry (k_rt s) (frame_no n) = Some (entries (k_rt s) ! n)" "frame_ok (frame_no n)"
        using *(1) n by (auto simp: entry_def alloc_ready_def direct_mapped_def)
      note link = map_link [OF *(2-4,6) assms(4) *(7) True f(1,2) n(2) link_entry [OF assms(1) f(3) assms(2)] refl refl]
      have kept: "kept own s (link_table a t i (frame_no n) (mk_pte F (frame_no n) (flag_union F pf (PRESENT F))) s)"
        by (rule kept_link [where own = own, OF f(1,2) n(2) *(3)])
      have own: "(own(kptr_inner (kptr_to s (frame_no n)) \<mapsto> \<pi> @ [i])) b = own b" if "in_use s b" for b
        using free_not_in_use [OF f(1,2) n(2)] that by auto
      let ?s = "link_table a t i (frame_no n) (mk_pte F (frame_no n) (flag_union F pf (PRESENT F))) s"
      let ?fa = "\<lparr>bump_index = of_nat n\<rparr> :: BumpAllocator"
      from IH [unfolded loop_maps_def, rule_format,
          OF conjI [OF alloc_ready_link [OF *(1) n(1)] conjI [OF link(1) conjI [OF _ conjI [OF link(2)]]]]] *(5)
      obtain r fa' s' where below:
        "map_loop F page frame flags pf (Some (level_of (length ks))) (kptr_to s (frame_no n)) ?fa ?s = Return (r, fa', s')"
        and m: "mapped root (own(kptr_inner (kptr_to s (frame_no n)) \<mapsto> \<pi> @ [i])) ((\<pi> @ [i]) @ ks) (mk_pte F frame flags) ?s r fa' s'"
        and sp: "spends root (\<pi> @ i # ks) ?fa ?s r fa' s'"
        by fastforce
      have "mapped root own (\<pi> @ i # ks) (mk_pte F frame flags) s r fa' s'"
        using mapped_trans [OF _ *(6) link(3) kept own] m by fastforce
      moreover have "spends root (\<pi> @ i # ks) fa s r fa' s'"
        using missing_link [OF _ link(4) _ gap] link(2) below_table [OF assms(4)] by (intro spends_link [OF sp free_count_link [OF Some n(3)]]) auto
      ultimately show ?thesis
        unfolding run using Some below by simp
    qed
  qed
qed

lemma page_path_length: "length (page_path v) = 4"
  by (simp add: page_path_def)

lemma page_path_user:
  assumes "page_ok p" and "unat (as_usize (page_base p)) < 2 ^ 47"
  shows "user_path (page_path (page_base p))"
proof -
  have "is_lower_half (p4_index (page_base p))"
    using assms by (subst is_lower_half_p4) (simp_all add: page_ok_def)
  then have "unat (offset_u16 (p4_index (page_base p))) < 256"
    by (simp add: is_lower_half_def word_less_nat_alt)
  then show ?thesis
    by (simp add: user_path_def page_path_def) (simp add: p_index_values)
qed

lemma page_path_inj:
  assumes "page_ok p" and "page_ok q" and "page_path (page_base p) = page_path (page_base q)"
  shows "p = q"
proof -
  have "unat (offset_u16 x) = unat (offset_u16 y) \<Longrightarrow> x = y" for x y
    by (metis PageTableOffset.expand word_eq_unatI)
  with assms show ?thesis
    by (intro page_indices_inj) (auto simp: page_path_def)
qed

lemma map_to_mapped:
  assumes "ptf_spec F" and "alloc_ready s fa" and "pt_tree s root own" and "page_ok page"
    and "unat (as_usize (page_base page)) < 2 ^ 47" and "mk_pte F frame flags \<noteq> 0" and "bits F pf AND 0x80 = 0"
  shows "\<exists>r fa' s'. map_to F (KPtr root) page frame flags pf fa s = Return (r, fa', s')
    \<and> mapped root own (page_path (page_base page)) (mk_pte F frame flags) s r fa' s'
    \<and> spends root (page_path (page_base page)) fa s r fa' s'"
proof -
  let ?path = "page_path (page_base page)"
  note user = page_path_user [OF assms(4,5)]
  obtain i j k l where path: "?path = [i, j, k, l]"
    by (auto simp: page_path_def)
  have "loop_maps F page frame flags pf root ?path"
    unfolding path by (intro loop_maps_step [OF assms(1,7) user _ loop_maps_step [OF assms(1,7) user _
        loop_maps_step [OF assms(1,7) user _ loop_maps_leaf [OF assms(1,6) user]]]]) simp_all
  from this [unfolded loop_maps_def, rule_format, of s fa own root "[]"] assms(2,3)
  show ?thesis
    by (auto simp: page_path_length map_to_def PageTableLevel_top_def level_of_def pt_tree_def)
qed

lemma spends_three:
  assumes "spends root path fa s (Err FrameAllocationError) fa' s'" and "user_path path"
  shows "free_count s fa < 3"
proof -
  have len: "length path = 4"
    using assms(2) by (simp add: user_path_def)
  note t = tables_of_path [OF len]
  have "free_count s fa < missing s root (tables_of path)"
    using assms(1) t(3) [OF assms(2)] by (simp add: spends_def)
  also have "\<dots> \<le> card (tables_of path)"
    unfolding missing_def using t(1) by (intro card_mono) auto
  finally show ?thesis
    using t(2) by simp
qed

text \<open>Creating an address space while the current table has references.\<close>

lemma new_l4_eq:
  assumes "ptf_spec F" and "rt_ok (k_rt s)" and "current_raw (k_cr3 s) = Return fc" and "direct_mapped s fc"
    and "entry (k_rt s) fc = Some (mk_entry Kernel n)" and "n < 16382"
    and "k_heap s (kptr_inner (kptr_to s fc)) = Some (OPageTable t)" and "length t = 512"
    and "direct_mapped s f" and "entry (k_rt s) f = Some (mk_entry Untyped 0)"
  shows "new_l4 F f s = (if n = 0 then Panic UnwrapErr
    else Return (Ok (kptr_to s f), write_obj (kptr_to s f) (OPageTable (replicate 256 0 @ drop 256 t))
      (s\<lparr>k_rt := set_entry (set_entry (k_rt s) fc (mk_entry Kernel (n - 1))) f (mk_entry Kernel 1)\<rparr>)))"
    and "frame_idx f \<noteq> frame_idx fc"
proof -
  let ?s1 = "s\<lparr>k_rt := set_entry (k_rt s) fc (mk_entry Kernel (Suc n))\<rparr>"
  let ?s2 = "s\<lparr>k_rt := set_entry (k_rt s) fc (mk_entry Kernel (n - 1))\<rparr>"
  show idx: "frame_idx f \<noteq> frame_idx fc"
  proof
    assume "frame_idx f = frame_idx fc"
    from rt.look_number [OF this, of "k_rt s"] have "state_of (mk_entry Kernel n) = state_of (mk_entry Untyped 0)"
      using assms(5,10) by simp
    then show False using assms(6) by simp
  qed
  have "try_as_kernel fc (k_rt s) = Return (Ok (KernelFrame fc), set_entry (k_rt s) fc (mk_entry Kernel (Suc n)))"
    using assms(2,5,6) by (simp add: try_as_kernel_eq)
  then have current: "AnyPageTable_current s = Return (kptr_to s fc, ?s1)"
    using assms(3) kptr_to_roundtrip(1) [of ?s1 fc] assms(4) by (simp add: AnyPageTable_current_def lift_rt_def)
  have table: "deref_page_table (kptr_to s fc) ?s1 = Return t"
    using assms(7) by (simp add: deref_eqs)
  have "KPtr_frame (kptr_to s fc) ?s1 = Return fc"
    using kptr_to_roundtrip(2) [OF assms(4)] by simp
  then have drop: "KPtr_drop TPageTable (kptr_to s fc) ?s1 = (if n = 0 then Panic UnwrapErr else Return ?s2)"
    using assms(2,5,6) by (subst KPtr_drop_eq [of _ _ fc "mk_entry Kernel (Suc n)"]) (auto simp: rt.look_put)
  have "entry (k_rt ?s2) f = Some (mk_entry Untyped 0)"
    using assms(5,10) idx by (simp add: rt.look_put)
  then have new: "KPtr_new f obj ?s2
      = Return (Ok (kptr_to s f), write_obj (kptr_to s f) obj (?s2\<lparr>k_rt := set_entry (k_rt ?s2) f (mk_entry Kernel 1)\<rparr>))" for obj
    using assms(2,9) KPtr_new_eq [of ?s2 f "mk_entry Untyped 0" obj] by simp
  show "new_l4 F f s = (if n = 0 then Panic UnwrapErr
    else Return (Ok (kptr_to s f), write_obj (kptr_to s f) (OPageTable (replicate 256 0 @ drop 256 t))
      (s\<lparr>k_rt := set_entry (set_entry (k_rt s) fc (mk_entry Kernel (n - 1))) f (mk_entry Kernel 1)\<rparr>)))"
    using current table drop new
    by (cases "n = 0") (simp_all add: new_l4_def clone_kernel_def clone_kernel_table_eq [OF assms(1,8)])
qed

section \<open>Properties\<close>

text \<open>
  C2. \<open>map_to\<close> maps a page and nothing else. In an address space whose user half is a tree of
  tables, it always returns; afterwards the user half is a tree again. On success the entry for
  the page, which was empty before, holds the frame and the flags, and the entry for every other
  page of user space is what it was. On an error no translation changes, although tables may have been added:
  \<open>AlreadyMapped\<close> names the frame that the page is mapped to, and \<open>HugeParentEntry\<close> is reported for
  a page inside a huge page. The allocation fails only when fewer than three free frames are left,
  one for each table below the top.
\<close>

theorem map_to_maps_the_page:
  assumes "ptf_spec F" and "alloc_ready s fa" and "\<exists>own. pt_tree s root own" and "page_ok page"
    and "unat (as_usize (page_base page)) < 2 ^ 47" and "frame_ok frame" and "mk_pte F frame flags \<noteq> 0" and "bits F pf AND 0x80 = 0"
  shows "\<exists>r fa' s'. map_to F (KPtr root) page frame flags pf fa s = Return (r, fa', s')
    \<and> alloc_ready s' fa' \<and> (\<exists>own. pt_tree s' root own) \<and> outcome r (tr s root (page_path (page_base page)))
    \<and> (\<forall>q. page_ok q \<and> unat (as_usize (page_base q)) < 2 ^ 47 \<longrightarrow>
        tr s' root (page_path (page_base q)) = (if r = Ok () \<and> q = page then Some (mk_pte F frame flags)
          else tr s root (page_path (page_base q))))
    \<and> (r = Err FrameAllocationError \<longrightarrow> free_count s fa < 3)
    \<and> PageTableEntry_get F (mk_pte F frame flags) = Return (Some (frame, flags))"
proof -
  let ?path = "page_path (page_base page)"
  from assms(3) obtain own where "pt_tree s root own"
    by blast
  from map_to_mapped [OF assms(1,2) this assms(4,5,7,8)]
  obtain r fa' s' where run: "map_to F (KPtr root) page frame flags pf fa s = Return (r, fa', s')"
    and m: "mapped root own ?path (mk_pte F frame flags) s r fa' s'"
    and few: "r = Err FrameAllocationError \<longrightarrow> free_count s fa < 3"
    using spends_three [OF _ page_path_user [OF assms(4,5)]] by blast
  have "tr s' root (page_path (page_base q)) = (if r = Ok () \<and> q = page then Some (mk_pte F frame flags)
      else tr s root (page_path (page_base q)))" if "page_ok q" "unat (as_usize (page_base q)) < 2 ^ 47" for q
    using m page_path_user [OF that] page_path_inj [OF that(1) assms(4)] by (auto simp: mapped_def)
  then show ?thesis
    using run m few get_mk_pte [OF assms(1,6,7)] by (auto simp: mapped_def)
qed

text \<open>A kernel with an empty top-level table in frame 2.\<close>

definition map_kstate :: kstate where
  "map_kstate = write_obj (kptr_to sample_kstate (at_frame 2)) (OPageTable AnyPageTable_new) sample_kstate"

lemma map_kstate_tree: "\<exists>own. pt_tree map_kstate (kptr_inner (kptr_to sample_kstate (at_frame 2))) own"
proof (rule exI [of _ "[kptr_inner (kptr_to sample_kstate (at_frame 2)) \<mapsto> []]"])
  let ?a = "kptr_inner (kptr_to sample_kstate (at_frame 2))"
  have "in_use map_kstate ?a"
    unfolding in_use_def
    by (rule exI [of _ "at_frame 2"], rule exI [of _ "mk_entry Kernel 1"]) (simp add: map_kstate_def free_entry_def)
  moreover have "pt_slot map_kstate ?a i = 0" for i
    by (simp add: pt_slot_def map_kstate_def AnyPageTable_new_def)
  ultimately show "pt_tree map_kstate ?a [?a \<mapsto> []]"
    by (auto simp: pt_tree_def pt_node_ok_def map_kstate_def next_table_def)
qed

lemma sample_frames_mapped:
  assumes "i < 4"
  shows "direct_mapped sample_kstate (frame_no i)"
proof -
  have "unat (of_nat (4096 * i) :: u64) = 4096 * i"
    using assms by (intro unat_frame_no) simp
  moreover have "4096 * i < 2 ^ 52" and "4096 * i \<le> 16384"
    using assms by simp_all
  ultimately show ?thesis
    unfolding direct_mapped_def frame_ok_def frame_no_def
    by (simp add: sample_kstate_def pmo_ok_def FRAME_SIZE_def word_mod_4096_iff)
qed

lemma map_kstate_ready: "alloc_ready map_kstate BumpAllocator_new"
proof -
  have "length (entries (k_rt sample_kstate)) = 4"
    by (simp add: sample_kstate_def entries_def)
  then show ?thesis
    using sample_frames_mapped by (simp add: alloc_ready_def map_kstate_def BumpAllocator_new_def)
qed

theorem map_to_maps_the_page_witness:
  "\<exists>r fa' s'. map_to word_ptf (kptr_to sample_kstate (at_frame 2)) (Page (VirtAddr 0x400000)) (at_frame 3) (to_flags 7) (to_flags 7)
      BumpAllocator_new map_kstate = Return (r, fa', s')
    \<and> (r = Ok () \<longleftrightarrow> tr s' (kptr_inner (kptr_to sample_kstate (at_frame 2))) [0, 0, 2, 0] \<noteq> None)"
proof -
  have path: "page_path (VirtAddr 0x400000) = [0, 0, 2, 0]"
    by (simp add: page_path_def p_index_values)
  have old: "tr map_kstate (kptr_inner (kptr_to sample_kstate (at_frame 2))) [0, 0, 2, 0] = None"
    by (simp add: pt_slot_def map_kstate_def AnyPageTable_new_def)
  have flags: "bits word_ptf (to_flags 7) = 7"
    by (simp add: word_ptf_def flag_bits_to_flags FRAME_MASK_def)
  then have pte: "mk_pte word_ptf (at_frame 3) (to_flags 7) \<noteq> 0"
    by (simp add: mk_pte_def at_frame_def)
  have page: "page_ok (Page (VirtAddr 0x400000))" and f: "frame_ok (at_frame 3)"
    by (simp_all add: page_ok_def canonical_def PAGE_SIZE_def frame_ok_def at_frame_def FRAME_SIZE_def)
  obtain r fa' s' where run: "map_to word_ptf (kptr_to sample_kstate (at_frame 2)) (Page (VirtAddr 0x400000)) (at_frame 3)
      (to_flags 7) (to_flags 7) BumpAllocator_new map_kstate = Return (r, fa', s')"
    and tr: "\<And>q. page_ok q \<and> unat (as_usize (page_base q)) < 2 ^ 47 \<Longrightarrow>
      tr s' (kptr_inner (kptr_to sample_kstate (at_frame 2))) (page_path (page_base q))
        = (if r = Ok () \<and> q = Page (VirtAddr 0x400000) then Some (mk_pte word_ptf (at_frame 3) (to_flags 7))
          else tr map_kstate (kptr_inner (kptr_to sample_kstate (at_frame 2))) (page_path (page_base q)))"
    using map_to_maps_the_page [OF word_ptf_spec map_kstate_ready map_kstate_tree page _ f pte, of "to_flags 7"] flags by auto
  from tr [of "Page (VirtAddr 0x400000)"] page old run show ?thesis
    by (auto simp: path simp del: tr.simps split: if_splits)
qed

text \<open>
  C30. Creating an address space costs the current one a reference. \<open>new_l4\<close> on an untyped frame gives
  a table with the kernel's half of the current table and an empty user half, but the pointer to
  the current table that it takes and drops gives back two references. With the one reference
  that boot gives the current table this leaves none, and the next \<open>new_l4\<close> panics.
\<close>

theorem new_l4_costs_the_current_table:
  assumes "ptf_spec F" and "rt_ok (k_rt s)" and "current_raw (k_cr3 s) = Return fc" and "direct_mapped s fc"
    and "entry (k_rt s) fc = Some (mk_entry Kernel n)" and "n < 16382"
    and "k_heap s (kptr_inner (kptr_to s fc)) = Some (OPageTable t)" and "length t = 512"
    and "direct_mapped s f" and "entry (k_rt s) f = Some (mk_entry Untyped 0)"
  shows "if n = 0 then new_l4 F f s = Panic UnwrapErr
    else \<exists>p s'. new_l4 F f s = Return (Ok p, s') \<and> deref_page_table p s' = Return (replicate 256 0 @ drop 256 t)
      \<and> entry (k_rt s') fc = Some (mk_entry Kernel (n - 1)) \<and> k_cr3 s' = k_cr3 s"
  using new_l4_eq [OF assms] assms(5,10)
  by (cases "n = 0") (simp_all add: deref_eqs rt.look_put rt.look_put_None)

theorem new_l4_costs_the_current_table_witness:
  "\<exists>p s'. new_l4 word_ptf (at_frame 0) map_kstate = Return (Ok p, s')
     \<and> entry (k_rt s') (at_frame 2) = Some (mk_entry Kernel 0)"
proof -
  have "current_raw (k_cr3 map_kstate) = Return (at_frame 2)"
    by (simp add: current_raw_def map_kstate_def PhysAddr_new_eq RawFrame_from_start_address_def
        RawFrame_try_from_start_address_def FRAME_SIZE_def at_frame_def) (simp add: sample_kstate_def)
  moreover have "k_heap map_kstate (kptr_inner (kptr_to map_kstate (at_frame 2))) = Some (OPageTable AnyPageTable_new)"
    by (simp add: map_kstate_def)
  ultimately show ?thesis
    using new_l4_costs_the_current_table [OF word_ptf_spec, of map_kstate "at_frame 2" 1 AnyPageTable_new "at_frame 0"]
    by (auto simp: map_kstate_def)
qed

end
