(* ===== verification/Component.thy ===== *)
theory Component
  imports Prelude Paging Cells Retype_Entry Retyping Page_Table Trie Kapi Exec Kernel_State Kptr Caps Addrspace
begin

text \<open>
  Threads and what they may do (\<open>kernel/src/component.rs\<close>) and the entry of a system call
  (\<open>kernel/src/syscall.rs\<close>): the active thread, dispatching to another one, and \<open>exercise_cap\<close>,
  which looks up the capability that a system call names and performs the operation on it.

  A call that dispatches a thread does not return to its caller; its outcome is the context that
  the processor resumes. Pointers that the abandoned callers hold are then never dropped. The
  argument \<open>m\<close> is the interrupt stack, from which a system call reads the context to save.
\<close>

section \<open>Definitions\<close>

datatype 'a flow = Done 'a | Resumed ExecCtx

definition UNTYPED_MEMORY_OFFSET :: usize where "UNTYPED_MEMORY_OFFSET = 0x0000700000000000"

definition component_init :: "kstate \<Rightarrow> kstate run" where
  "component_init s =
     (let threads = CoreLocal_new_with (\<lambda>_. RefCell_new None) in
      bindR (OnceCell_set threads (k_active s)) (\<lambda>(r, a).
      bindR (unwrap_ok r) (\<lambda>_. Return (s\<lparr>k_active := a\<rparr>))))"

definition Thread_new_with_ctx :: "ExecCtx \<Rightarrow> KPtr \<Rightarrow> Thread" where
  "Thread_new_with_ctx ctx resources = \<lparr>exec_ctx = ctx, thread_resources = resources\<rparr>"

definition Thread_new :: "Regs \<Rightarrow> KPtr \<Rightarrow> KPtr \<Rightarrow> kstate \<Rightarrow> Thread run" where
  "Thread_new regs l4_table resources s =
     bindR (KPtr_into_raw l4_table s) (\<lambda>f. Return (Thread_new_with_ctx (ExecCtx_new f regs) resources))"

text \<open>The cell of the active thread on this core.\<close>

definition active_cell :: "kstate \<Rightarrow> KPtr option RefCell run" where
  "active_cell s = bindR (OnceCell_get (k_active s)) (\<lambda>o1. bindR (unwrap o1) CoreLocal_get)"

definition set_active :: "KPtr option RefCell \<Rightarrow> kstate \<Rightarrow> kstate" where
  "set_active c s = s\<lparr>k_active := (k_active s)\<lparr>once_value := map_option (CoreLocal_put c) (once_value (k_active s))\<rparr>\<rparr>"

definition Thread_current :: "kstate \<Rightarrow> (KPtr option \<times> kstate) run" where
  "Thread_current s =
     bindR (active_cell s) (\<lambda>c.
     bindR (borrow c) (\<lambda>v. case v of
       None \<Rightarrow> Return (None, s)
     | Some p \<Rightarrow> bindR (KPtr_clone p s) (\<lambda>(q, s). Return (Some q, s))))"

definition save_regs :: "(Regs \<Rightarrow> Regs) \<Rightarrow> KPtr \<Rightarrow> kstate \<Rightarrow> kstate run" where
  "save_regs save_state current s =
     bindR (deref_thread current s) (\<lambda>t.
     Return (write_obj current (OThread (t\<lparr>exec_ctx := (exec_ctx t)\<lparr>ctx_regs := save_state (ctx_regs (exec_ctx t))\<rparr>\<rparr>)) s))"

definition Thread_dispatch :: "KPtr \<Rightarrow> (Regs \<Rightarrow> Regs) \<Rightarrow> kstate \<Rightarrow> ('a flow \<times> kstate) run" where
  "Thread_dispatch this save_state s =
     bindR (active_cell s) (\<lambda>c.
     bindR (borrow_mut c) (\<lambda>(current, c).
     let s = set_active c s in
     bindR (case current of None \<Rightarrow> Return s | Some cur \<Rightarrow> save_regs save_state cur s) (\<lambda>s.
     bindR (KPtr_clone this s) (\<lambda>(q, s).
     bindR (case current of None \<Rightarrow> Return s | Some old \<Rightarrow> KPtr_drop TThread old s) (\<lambda>s.
     let s = set_active (end_borrow_mut (Some q) c) s in
     bindR (deref_thread this s) (\<lambda>t.
     Return (Resumed (exec_ctx t), s)))))))"

definition Thread_addrspace :: "Thread \<Rightarrow> kstate \<Rightarrow> KPtr run" where
  "Thread_addrspace th s = Addrspace_from_frame (ctx_l4_frame (exec_ctx th)) s"

text \<open>
  Leaving \<open>exercise_cap\<close> with an error: the pointers that are still owned are dropped, the table or
  thread the capability names first and then the child pointer of the looked-up slot.
\<close>

definition leave :: "(ktype \<times> KPtr) list \<Rightarrow> 'r \<Rightarrow> kstate \<Rightarrow> ('r flow \<times> kstate) run" where
  "leave ps r s = bindR (drop_all ps s) (\<lambda>s. Return (Done r, s))"

definition link_op ::
    "Thread \<Rightarrow> KPtr \<Rightarrow> (ktype \<times> KPtr) list \<Rightarrow> SlotId \<Rightarrow> CapId \<Rightarrow> kstate \<Rightarrow> ((usize, CapError) result flow \<times> kstate) run" where
  "link_op th table rest slot other_table_cap s =
     bindR (KPtr_clone (thread_resources th) s) (\<lambda>(res, s).
     bindR (get_resource_as try_from_cap_entry res other_table_cap s) (\<lambda>(r, s). case r of
       Err e \<Rightarrow> leave ((TCapTable, table) # rest) (Err e) s
     | Ok other_table \<Rightarrow>
         bindR (slot_change (index_slot table slot) (\<lambda>cap s.
             bindR (case slot_child cap of None \<Rightarrow> Return s | Some p \<Rightarrow> KPtr_drop TCapTable p s) (\<lambda>s.
             Return (cap\<lparr>slot_child := Some other_table\<rparr>, s))) s) (\<lambda>s.
         leave ((TCapTable, table) # rest) (Ok 0) s)))"

definition unlink_op ::
    "KPtr \<Rightarrow> (ktype \<times> KPtr) list \<Rightarrow> SlotId \<Rightarrow> kstate \<Rightarrow> ((usize, CapError) result flow \<times> kstate) run" where
  "unlink_op table rest slot s =
     bindR (slot_change (index_slot table slot) (\<lambda>cap s.
         bindR (case slot_child cap of None \<Rightarrow> Return s | Some p \<Rightarrow> KPtr_drop TCapTable p s) (\<lambda>s.
         Return (cap\<lparr>slot_child := None\<rparr>, s))) s) (\<lambda>s.
     leave ((TCapTable, table) # rest) (Ok 0) s)"

text \<open>
  \<open>Construct\<close> checks the region, asks the address space for the frame at the region, builds a kernel
  object in that frame and puts the capability to it into the slot. \<open>construct_resource\<close> is the
  \<open>match\<close> on the kind of object; pointers that an early return abandons are dropped in the reverse
  order of their declaration.
\<close>

definition construct_resource ::
    "'f ptf \<Rightarrow> Thread \<Rightarrow> ConstructArgs \<Rightarrow> RawFrame \<Rightarrow> kstate \<Rightarrow> ((Resource, CapError) result \<times> kstate) run" where
  "construct_resource F th kind frame s = (case kind of
     ConstructCapTable \<Rightarrow>
       bindR (KPtr_new frame (OCapTable RawCapEntry_default) s) (\<lambda>(r, s). case r of
         Err _ \<Rightarrow> Return (Err InvalidArgument, s)
       | Ok p \<Rightarrow> Return (Ok (ResCapEntry p), s))
   | ConstructThread entry_point stack_pointer cap_table page_table \<Rightarrow>
       let regs = Regs_default\<lparr>control := \<lparr>rflags = 0x202, rsp = stack_pointer, rip = entry_point\<rparr>\<rparr> in
       bindR (KPtr_clone (thread_resources th) s) (\<lambda>(res, s).
       bindR (get_resource_as try_from_cap_entry res cap_table s) (\<lambda>(r, s). case r of
         Err e \<Rightarrow> Return (Err e, s)
       | Ok cap_table \<Rightarrow>
           bindR (KPtr_clone (thread_resources th) s) (\<lambda>(res, s).
           bindR (get_resource_as try_from_page_table res page_table s) (\<lambda>(r, s). case r of
             Err e \<Rightarrow> bindR (KPtr_drop TCapTable cap_table s) (\<lambda>s. Return (Err e, s))
           | Ok (page_table, flags) \<Rightarrow>
               if NOT (cap_level flags) = 4 then
                 bindR (drop_all [(TPageTable, page_table), (TCapTable, cap_table)] s) (\<lambda>s. Return (Err InvalidArgument, s))
               else
                 bindR (Thread_new regs page_table cap_table s) (\<lambda>t.
                 bindR (KPtr_new frame (OThread t) s) (\<lambda>(r, s). case r of
                   Err _ \<Rightarrow> Return (Err InvalidArgument, s)
                 | Ok p \<Rightarrow> Return (Ok (ResThread p), s)))))))
   | ConstructPageTable lvl \<Rightarrow>
       if lvl > 4 \<or> lvl = 0 then Return (Err InvalidArgument, s) else
       bindR (if lvl = 4 then clone_kernel F s else Return (AnyPageTable_new, s)) (\<lambda>(t, s).
       bindR (KPtr_new frame (OPageTable t) s) (\<lambda>(r, s). case r of
         Err _ \<Rightarrow> Return (Err InvalidArgument, s)
       | Ok p \<Rightarrow> Return (Ok (ResPageTable p (PageCapFlags lvl)), s))))"

definition construct_op ::
    "'f ptf \<Rightarrow> Thread \<Rightarrow> KPtr \<Rightarrow> (ktype \<times> KPtr) list \<Rightarrow> ConstructArgs \<Rightarrow> usize \<Rightarrow> SlotId \<Rightarrow> kstate \<Rightarrow>
     ((usize, CapError) result flow \<times> kstate) run" where
  "construct_op F th table rest kind region slot s =
     bindR (memory_limit (k_rt s)) (\<lambda>limit.
     if region > limit then leave ((TCapTable, table) # rest) (Err InvalidArgument) s else
     bindR (add_chk region UNTYPED_MEMORY_OFFSET) (\<lambda>page_address.
     case VirtAddr_try_new page_address of
       Err _ \<Rightarrow> leave ((TCapTable, table) # rest) (Err InvalidArgument) s
     | Ok v \<Rightarrow> (case Page_try_from_start_address v of
         Err _ \<Rightarrow> leave ((TCapTable, table) # rest) (Err InvalidArgument) s
       | Ok page \<Rightarrow>
           bindR (Thread_addrspace th s) (\<lambda>l4.
           bindR (Addrspace_get l4 page) (\<lambda>m. case m of
             None \<Rightarrow> leave ((TCapTable, table) # rest) (Err InvalidArgument) s
           | Some (frame, flags) \<Rightarrow>
               if \<not> contains F flags (PRESENT F) then leave ((TCapTable, table) # rest) (Err InvalidArgument) s else
               bindR (construct_resource F th kind frame s) (\<lambda>(r, s). case r of
                 Err e \<Rightarrow> leave ((TCapTable, table) # rest) (Err e) s
               | Ok resource \<Rightarrow>
                   bindR (slot_change (index_slot table slot) (\<lambda>cap s.
                       bindR (drop_all (owned_resource (slot_resource cap)) s) (\<lambda>s.
                       Return (cap\<lparr>slot_resource := resource\<rparr>, s))) s) (\<lambda>s.
                   leave ((TCapTable, table) # rest) (Ok 0) s)))))))"

definition cap_table_op ::
    "'f ptf \<Rightarrow> num_enum \<Rightarrow> Thread \<Rightarrow> KPtr \<Rightarrow> (ktype \<times> KPtr) list \<Rightarrow> SyscallArgs \<Rightarrow> kstate \<Rightarrow>
     ((usize, CapError) result flow \<times> kstate) run" where
  "cap_table_op F N th table rest args s =
     bindR (CapTableOp_from_args N NUM_SLOTS args) (\<lambda>operation. case operation of
       Err _ \<Rightarrow> leave ((TCapTable, table) # rest) (Err InvalidArgument) s
     | Ok (Link slot other_table_cap) \<Rightarrow> link_op th table rest slot other_table_cap s
     | Ok (Unlink slot) \<Rightarrow> unlink_op table rest slot s
     | Ok (Construct kind region slot) \<Rightarrow> construct_op F th table rest kind region slot s
     | Ok (DropCap slot) \<Rightarrow> Panic NotImplemented
     | Ok (CopyCap slot other_table_cap other_slot) \<Rightarrow> Panic NotImplemented)"

definition thread_op ::
    "num_enum \<Rightarrow> (nat \<Rightarrow> u64) \<Rightarrow> KPtr \<Rightarrow> (ktype \<times> KPtr) list \<Rightarrow> SyscallArgs \<Rightarrow> kstate \<Rightarrow>
     ((usize, CapError) result flow \<times> kstate) run" where
  "thread_op N m thread rest args s =
     bindR (ThreadOp_from_args N args) (\<lambda>operation. case operation of
       Err _ \<Rightarrow> leave ((TThread, thread) # rest) (Err InvalidArgument) s
     | Ok Activate \<Rightarrow> Thread_dispatch thread (SyscallCtx_save_state (SyscallCtx_current m)) s
     | Ok ChangeAffinity \<Rightarrow> Panic NotImplemented)"

definition exercise_cap ::
    "'f ptf \<Rightarrow> num_enum \<Rightarrow> (nat \<Rightarrow> u64) \<Rightarrow> Thread \<Rightarrow> CapId \<Rightarrow> SyscallArgs \<Rightarrow> kstate \<Rightarrow>
     ((usize, CapError) result flow \<times> kstate) run" where
  "exercise_cap F N m th capability args s =
     bindR (KPtr_clone (thread_resources th) s) (\<lambda>(res, s).
     bindR (find_slot res capability s) (\<lambda>(r, s). case r of
       Err e \<Rightarrow> Return (Done (Err e), s)
     | Ok sr \<Rightarrow>
         bindR (slot_get sr s) (\<lambda>(slot, s).
         bindR (KPtr_drop TCapTable (fst sr) s) (\<lambda>s.
         let rest = (case slot_child slot of None \<Rightarrow> [] | Some p \<Rightarrow> [(TCapTable, p)]) in
         case slot_resource slot of
           ResEmpty \<Rightarrow> leave rest (Err NotFound) s
         | ResCapEntry table \<Rightarrow> cap_table_op F N th table rest args s
         | ResThread thread \<Rightarrow> thread_op N m thread rest args s
         | ResPageTable table flags \<Rightarrow> Panic NotImplemented))))"

text \<open>The handler of a system call; \<open>result.try_into()\<close> fails for values that are no \<open>isize\<close>.\<close>

definition syscall_handle ::
    "'f ptf \<Rightarrow> num_enum \<Rightarrow> (nat \<Rightarrow> u64) \<Rightarrow> usize \<Rightarrow> usize \<Rightarrow> usize \<Rightarrow> usize \<Rightarrow> usize \<Rightarrow> usize \<Rightarrow> kstate \<Rightarrow>
     (isize flow \<times> kstate) run" where
  "syscall_handle F N m a b c d e f s =
     bindR (Thread_current s) (\<lambda>(t, s).
     bindR (unwrap t) (\<lambda>thread.
     case u32_try_from a of
       Err _ \<Rightarrow> leave [(TThread, thread)] (to_errno InvalidArgument) s
     | Ok cap \<Rightarrow>
         bindR (deref_thread thread s) (\<lambda>th.
         bindR (exercise_cap F N m th (CapId cap) (SyscallArgs_new b c d e f) s) (\<lambda>(r, s). case r of
           Resumed ctx \<Rightarrow> Return (Resumed ctx, s)
         | Done (Err err) \<Rightarrow> leave [(TThread, thread)] (to_errno err) s
         | Done (Ok res) \<Rightarrow>
             bindR (if unat res < 2 ^ 63 then Return res else Panic UnwrapErr) (\<lambda>v.
             leave [(TThread, thread)] v s)))))"

section \<open>What a system call may change\<close>

text \<open>The thread that runs.\<close>

definition active_thread :: "kstate \<Rightarrow> KPtr option" where
  "active_thread s = (case active_cell s of Return c \<Rightarrow> refcell_value c | Panic _ \<Rightarrow> None)"

text \<open>
  The resources for which a thread holds a capability, at any depth below its own table. A system
  call of the thread may replace the child of one slot of such a table by no child or by such a
  table, the saved registers of a thread, and the active thread by such a thread.
\<close>

definition holds :: "kstate \<Rightarrow> Thread \<Rightarrow> Resource \<Rightarrow> bool" where
  "holds s th r \<longleftrightarrow> (\<exists>ds q d sl. walk (cap_view s) (thread_resources th) ds = Some (q, d)
     \<and> slot_of s (q, of_nat d) = Some sl \<and> slot_resource sl = r)"

definition relinked :: "kstate \<Rightarrow> Thread \<Rightarrow> RawCapEntry \<Rightarrow> RawCapEntry \<Rightarrow> bool" where
  "relinked s th t t' \<longleftrightarrow> (\<exists>i ch. i < length t \<and> (\<forall>p. ch = Some p \<longrightarrow> holds s th (ResCapEntry p))
     \<and> t' = t[i := AtomicCell_new ((cell_value (t ! i))\<lparr>slot_child := ch\<rparr>)])"

definition may_become :: "kstate \<Rightarrow> Thread \<Rightarrow> usize \<Rightarrow> kobj option \<Rightarrow> kobj option \<Rightarrow> bool" where
  "may_become s th a obj obj' \<longleftrightarrow> obj' = obj
     \<or> (\<exists>t t'. obj = Some (OCapTable t) \<and> obj' = Some (OCapTable t') \<and> holds s th (ResCapEntry (KPtr a)) \<and> relinked s th t t')
     \<or> (\<exists>t c. obj = Some (OThread t) \<and> obj' = Some (OThread (t\<lparr>exec_ctx := (exec_ctx t)\<lparr>ctx_regs := c\<rparr>\<rparr>)))"

definition heap_authorised :: "kstate \<Rightarrow> Thread \<Rightarrow> kstate \<Rightarrow> bool" where
  "heap_authorised s th s' \<longleftrightarrow> k_pmo s' = k_pmo s \<and> k_cr3 s' = k_cr3 s
     \<and> (\<forall>a. may_become s th a (k_heap s a) (k_heap s' a))"

definition authorised :: "kstate \<Rightarrow> Thread \<Rightarrow> kstate \<Rightarrow> bool" where
  "authorised s th s' \<longleftrightarrow> heap_authorised s th s'
     \<and> (k_active s' = k_active s \<or> (\<exists>p. holds s th (ResThread p) \<and> active_thread s' = Some p))"

lemma same_authorised: "same_objects s s' \<Longrightarrow> authorised s th s'"
  by (simp add: same_objects_def authorised_def heap_authorised_def may_become_def)

lemma holds_same: "same_objects s s' \<Longrightarrow> holds s' = holds s"
  by (simp add: holds_def fun_eq_iff slot_of_same cap_view_same)

lemma authorised_before: "same_objects s s1 \<Longrightarrow> authorised s1 th s' \<Longrightarrow> authorised s th s'"
  by (simp add: authorised_def heap_authorised_def may_become_def relinked_def holds_same) (simp add: same_objects_def)

lemma active_same: "k_active s' = k_active s \<Longrightarrow> active_thread s' = active_thread s"
  by (simp add: active_thread_def active_cell_def)

lemma authorised_after: "authorised s th s1 \<Longrightarrow> same_objects s1 s' \<Longrightarrow> authorised s th s'"
  by (auto simp: authorised_def heap_authorised_def same_objects_def dest!: active_same)

lemma leave_same: "leave ps r s = Return (r', s') \<Longrightarrow> same_objects s s' \<and> r' = Done r"
  by (auto simp: leave_def bindR_eq_Return dest: drop_all_same)

lemma drop_child_same:
  "(case c of None \<Rightarrow> Return s | Some p \<Rightarrow> KPtr_drop TCapTable p s) = Return s' \<Longrightarrow> same_objects s s'"
  by (auto split: option.splits dest: KPtr_drop_same)

lemma found_slot_holds:
  assumes "find_slot (thread_resources th) cap s = Return (Ok sr, s1)" and "slot_get sr s1 = Return (sl, s2)"
  shows "same_objects s s2 \<and> holds s th (slot_resource sl)"
proof -
  from find_slot_eq [OF assms(1)] obtain q d
    where w: "walk (cap_view s) (thread_resources th) (digits 128 (unat (cap_u32 cap))) = Some (q, d)"
      and sr: "sr = (q, of_nat d)" and s1: "same_objects s s1"
    by (auto split: option.splits)
  from slot_get_same [OF assms(2)] obtain c where c: "cell_at sr s1 = Return c" "sl = cell_value c" "same_objects s1 s2"
    by blast
  then have "slot_of s (q, of_nat d) = Some sl"
    using cell_at_slot_of [OF c(1)] slot_of_same [OF s1] by (simp add: sr)
  with w c(3) s1 show ?thesis
    by (auto simp: holds_def intro: same_objects_trans)
qed

lemma get_resource_as_holds:
  assumes "get_resource_as try_into (thread_resources th) cap s = Return (r, s')"
  shows "same_objects s s' \<and> (\<forall>x. r = Ok x \<longrightarrow> (\<exists>res. holds s th res \<and> try_into res = Ok x))"
proof -
  from assms obtain r1 s1 where f: "find_slot (thread_resources th) cap s = Return (r1, s1)"
    by (auto simp: get_resource_as_def get_capability_def bindR_eq_Return)
  have s1: "same_objects s s1"
    using find_slot_eq [OF f] by simp
  show ?thesis
  proof (cases r1)
    case (Ok sr)
    with assms f obtain sl s2 where g: "slot_get sr s1 = Return (sl, s2)"
      by (auto simp: get_resource_as_def get_capability_def bindR_eq_Return)
    have h: "same_objects s s2" "holds s th (slot_resource sl)"
      using found_slot_holds [OF f [unfolded Ok] g] by auto
    from assms f g Ok obtain s3 s4 where d: "KPtr_drop TCapTable (fst sr) s2 = Return s3"
      and t: "(case try_into (slot_resource sl) of
            Ok x \<Rightarrow> Return (Ok x, s3)
          | Err _ \<Rightarrow> bindR (drop_all (owned_resource (slot_resource sl)) s3) (\<lambda>s. Return (Err InvalidArgument, s))) = Return (r, s4)"
      and e: "(case slot_child sl of None \<Rightarrow> Return s4 | Some p \<Rightarrow> KPtr_drop TCapTable p s4) = Return s'"
      by (auto simp: get_resource_as_def get_capability_def bindR_eq_Return)
    have "same_objects s3 s4 \<and> (\<forall>x. r = Ok x \<longrightarrow> try_into (slot_resource sl) = Ok x)"
      using t by (cases "try_into (slot_resource sl)") (auto simp: bindR_eq_Return dest: drop_all_same)
    with h KPtr_drop_same [OF d] drop_child_same [OF e] show ?thesis
      by (blast intro: same_objects_trans)
  next
    case (Err e)
    with assms f s1 show ?thesis
      by (auto simp: get_resource_as_def get_capability_def bindR_eq_Return)
  qed
qed

lemma change_child_authorised:
  assumes "slot_change (index_slot table slot) (\<lambda>cap s.
      bindR (case slot_child cap of None \<Rightarrow> Return s | Some p \<Rightarrow> KPtr_drop TCapTable p s) (\<lambda>s.
      Return (cap\<lparr>slot_child := ch\<rparr>, s))) s = Return s'"
    and "holds s th (ResCapEntry table)" and "\<And>p. ch = Some p \<Longrightarrow> holds s th (ResCapEntry p)"
  shows "authorised s th s'"
proof -
  let ?sr = "index_slot table slot"
  have "\<exists>t. k_heap s (kptr_inner (fst ?sr)) = Some (OCapTable t) \<and> unat (snd ?sr) < length t
      \<and> same_objects (write_obj (fst ?sr)
          (OCapTable (t[unat (snd ?sr) := AtomicCell_new ((cell_value (t ! unat (snd ?sr)))\<lparr>slot_child := ch\<rparr>)])) s) s'"
    by (rule slot_change_eq [OF assms(1)]) (auto simp: bindR_eq_Return dest: drop_child_same)
  then obtain t where t: "k_heap s (kptr_inner table) = Some (OCapTable t)" "unat (snd ?sr) < length t"
    and s': "same_objects (write_obj table
        (OCapTable (t[unat (snd ?sr) := AtomicCell_new ((cell_value (t ! unat (snd ?sr)))\<lparr>slot_child := ch\<rparr>)])) s) s'"
    by (auto simp: index_slot_def TrieEntry_index_def)
  have "authorised s th (write_obj table
        (OCapTable (t[unat (snd ?sr) := AtomicCell_new ((cell_value (t ! unat (snd ?sr)))\<lparr>slot_child := ch\<rparr>)])) s)"
    using t assms(2,3) by (auto simp: authorised_def heap_authorised_def may_become_def relinked_def)
  then show ?thesis
    using s' by (rule authorised_after)
qed

lemma link_op_authorised:
  assumes "link_op th table rest slot cap s = Return (r, s')" and "holds s th (ResCapEntry table)"
  shows "authorised s th s'"
proof -
  from assms(1) obtain q s1 r2 s2 where c: "KPtr_clone (thread_resources th) s = Return (q, s1)"
    and g: "get_resource_as try_from_cap_entry q cap s1 = Return (r2, s2)"
    by (auto simp: link_op_def bindR_eq_Return)
  have s1: "same_objects s s1" and q: "q = thread_resources th"
    using KPtr_clone_same [OF c] by simp_all
  note h = get_resource_as_holds [OF g [unfolded q]]
  have s2: "same_objects s s2"
    using s1 h same_objects_trans by blast
  show ?thesis
  proof (cases r2)
    case (Ok p)
    with h obtain res where "holds s1 th res" "try_from_cap_entry res = Ok p" by blast
    then have p: "holds s2 th (ResCapEntry p)"
      by (cases res) (simp_all add: holds_same [OF s1] holds_same [OF s2])
    from assms(1) c g Ok obtain s3 where ch: "slot_change (index_slot table slot) (\<lambda>cap s.
        bindR (case slot_child cap of None \<Rightarrow> Return s | Some p \<Rightarrow> KPtr_drop TCapTable p s) (\<lambda>s.
        Return (cap\<lparr>slot_child := Some p\<rparr>, s))) s2 = Return s3"
      and l: "leave ((TCapTable, table) # rest) (Ok 0) s3 = Return (r, s')"
      by (auto simp: link_op_def bindR_eq_Return)
    have "authorised s2 th s3"
      by (rule change_child_authorised [OF ch]) (use assms(2) p in \<open>simp_all add: holds_same [OF s2]\<close>)
    then show ?thesis
      using leave_same [OF l] s2 authorised_before authorised_after by blast
  next
    case (Err e)
    with assms(1) c g have "leave ((TCapTable, table) # rest) (Err e) s2 = Return (r, s')"
      by (simp add: link_op_def)
    from leave_same [OF this] s2 show ?thesis
      by (blast intro: same_authorised same_objects_trans)
  qed
qed

lemma unlink_op_authorised:
  assumes "unlink_op table rest slot s = Return (r, s')" and "holds s th (ResCapEntry table)"
  shows "authorised s th s'"
proof -
  from assms(1) obtain s3 where ch: "slot_change (index_slot table slot) (\<lambda>cap s.
      bindR (case slot_child cap of None \<Rightarrow> Return s | Some p \<Rightarrow> KPtr_drop TCapTable p s) (\<lambda>s.
      Return (cap\<lparr>slot_child := None\<rparr>, s))) s = Return s3"
    and l: "leave ((TCapTable, table) # rest) (Ok 0) s3 = Return (r, s')"
    by (auto simp: unlink_op_def bindR_eq_Return)
  from change_child_authorised [OF ch assms(2)] leave_same [OF l] show ?thesis
    using authorised_after by blast
qed

lemma construct_op_same:
  assumes "construct_op F th table rest kind region slot s = Return (r, s')"
  shows "same_objects s s'"
proof -
  have "\<exists>e. leave ((TCapTable, table) # rest) (Err e) s = Return (r, s')"
  proof (cases "add_chk region UNTYPED_MEMORY_OFFSET")
    case (Return v)
    with assms show ?thesis
      by (cases "VirtAddr_try_new v"; cases "Page_try_from_start_address (case VirtAddr_try_new v of Ok a \<Rightarrow> a)")
         (auto simp: construct_op_def Addrspace_get_def bindR_eq_Return split: if_splits)
  qed (use assms in \<open>auto simp: construct_op_def bindR_eq_Return split: if_splits\<close>)
  then show ?thesis
    by (auto dest: leave_same)
qed

lemma cap_table_op_authorised:
  assumes "cap_table_op F N th table rest args s = Return (r, s')" and "holds s th (ResCapEntry table)"
  shows "authorised s th s'"
proof (cases "CapTableOp_from_args N NUM_SLOTS args")
  case (Return op)
  with assms show ?thesis
    by (cases op)
       (auto simp: cap_table_op_def split: CapTableOp.splits
         intro: link_op_authorised unlink_op_authorised same_authorised dest: construct_op_same leave_same)
qed (use assms in \<open>simp add: cap_table_op_def\<close>)

lemma set_active_simps [simp]:
  "k_heap (set_active c s) = k_heap s" "k_rt (set_active c s) = k_rt s" "k_pmo (set_active c s) = k_pmo s"
  "k_cr3 (set_active c s) = k_cr3 s"
  by (simp_all add: set_active_def)

lemma active_cell_set_active:
  assumes "active_cell s = Return c" and "k_active s' = k_active s"
  shows "active_cell (set_active c' s') = Return c'"
proof -
  from assms(1) obtain o1 where o1: "OnceCell_get (k_active s) = Return o1" "bindR (unwrap o1) CoreLocal_get = Return c"
    by (auto simp: active_cell_def bindR_eq_Return)
  then obtain l where g: "OnceCell_get (k_active s) = Return (Some l)" and l: "core_values l \<noteq> []"
    by (cases o1) (auto simp: CoreLocal_get_def split: list.splits)
  then have "OnceCell_get (k_active (set_active c' s')) = Return (Some (CoreLocal_put c' l))"
    using assms(2)
    by (auto simp: set_active_def OnceCell_get_def OnceCell_get_unchecked_def bindR_eq_Return
        split: if_splits option.splits)
  moreover have "CoreLocal_get (CoreLocal_put c' l) = Return c'"
    using l by (cases "core_values l") (simp_all add: CoreLocal_get_def CoreLocal_put_def)
  ultimately show ?thesis
    by (simp add: active_cell_def)
qed

lemma KPtr_drop_keeps: "KPtr_drop t p s = Return s' \<Longrightarrow> k_heap s' = k_heap s \<and> k_pmo s' = k_pmo s \<and> k_cr3 s' = k_cr3 s \<and> k_active s' = k_active s"
  by (auto simp: same_objects_def dest!: KPtr_drop_same)

lemma KPtr_clone_keeps: "KPtr_clone p s = Return (q, s') \<Longrightarrow> q = p \<and> k_heap s' = k_heap s \<and> k_pmo s' = k_pmo s \<and> k_cr3 s' = k_cr3 s \<and> k_active s' = k_active s"
  by (auto simp: same_objects_def dest!: KPtr_clone_same)

lemma Thread_dispatch_eq:
  assumes "Thread_dispatch this sv s = Return (r, s')"
  shows "active_thread s' = Some this" and "k_pmo s' = k_pmo s" and "k_cr3 s' = k_cr3 s"
    and "\<exists>th. k_heap s' (kptr_inner this) = Some (OThread th) \<and> r = Resumed (exec_ctx th)"
    and "case active_thread s of None \<Rightarrow> k_heap s' = k_heap s
      | Some old \<Rightarrow> (\<exists>t. k_heap s (kptr_inner old) = Some (OThread t) \<and> k_heap s' = (k_heap s)(kptr_inner old \<mapsto>
          OThread (t\<lparr>exec_ctx := (exec_ctx t)\<lparr>ctx_regs := sv (ctx_regs (exec_ctx t))\<rparr>\<rparr>)))"
proof -
  from assms obtain c current c' s1 q s2 s3 t where 0: "active_cell s = Return c" "borrow_mut c = Return (current, c')"
    and 1: "(case current of None \<Rightarrow> Return (set_active c' s) | Some cur \<Rightarrow> save_regs sv cur (set_active c' s)) = Return s1"
    and 2: "KPtr_clone this s1 = Return (q, s2)"
    and 3: "(case current of None \<Rightarrow> Return s2 | Some old \<Rightarrow> KPtr_drop TThread old s2) = Return s3"
    and 4: "s' = set_active (end_borrow_mut (Some q) c') s3"
    and 5: "deref_thread this s' = Return t" "r = Resumed (exec_ctx t)"
    by (auto simp: Thread_dispatch_def Let_def bindR_eq_Return)
  have cur: "active_thread s = current"
    using 0 by (auto simp: active_thread_def borrow_mut_def split: if_splits)
  note clone = KPtr_clone_keeps [OF 2]
  have s3: "k_heap s3 = k_heap s2 \<and> k_pmo s3 = k_pmo s2 \<and> k_cr3 s3 = k_cr3 s2 \<and> k_active s3 = k_active s2"
    using 3 by (cases current) (auto dest: KPtr_drop_keeps)
  have s1: "k_pmo s1 = k_pmo s" "k_cr3 s1 = k_cr3 s" "k_active s1 = k_active (set_active c' s)"
    using 1 by (cases current; auto simp: save_regs_def bindR_eq_Return)+
  from active_cell_set_active [OF active_cell_set_active [OF 0(1) refl], of s3]
  show "active_thread s' = Some this"
    using s3 s1 clone by (simp add: active_thread_def 4 end_borrow_mut_def)
  show "k_pmo s' = k_pmo s" and "k_cr3 s' = k_cr3 s"
    using s3 s1 clone by (simp_all add: 4)
  show "\<exists>th. k_heap s' (kptr_inner this) = Some (OThread th) \<and> r = Resumed (exec_ctx th)"
    using 5 by (auto simp: deref_eqs split: option.splits kobj.splits)
  show "case active_thread s of None \<Rightarrow> k_heap s' = k_heap s
      | Some old \<Rightarrow> (\<exists>t. k_heap s (kptr_inner old) = Some (OThread t) \<and> k_heap s' = (k_heap s)(kptr_inner old \<mapsto>
          OThread (t\<lparr>exec_ctx := (exec_ctx t)\<lparr>ctx_regs := sv (ctx_regs (exec_ctx t))\<rparr>\<rparr>)))"
    using 1 s3 clone unfolding cur
    by (cases current) (auto simp: 4 save_regs_def deref_eqs bindR_eq_Return split: option.splits kobj.splits)
qed

lemma Thread_dispatch_authorised:
  assumes "Thread_dispatch this sv s = Return (r, s')" and "holds s th (ResThread this)"
  shows "authorised s th s'"
proof -
  note d = Thread_dispatch_eq [OF assms(1)]
  have "may_become s th a (k_heap s a) (k_heap s' a)" for a
  proof (cases "active_thread s")
    case (Some old)
    with d(5) obtain t where "k_heap s (kptr_inner old) = Some (OThread t)" "k_heap s' = (k_heap s)(kptr_inner old \<mapsto>
        OThread (t\<lparr>exec_ctx := (exec_ctx t)\<lparr>ctx_regs := sv (ctx_regs (exec_ctx t))\<rparr>\<rparr>))"
      by auto
    then show ?thesis
      by (cases "a = kptr_inner old") (simp_all add: may_become_def, blast)
  qed (use d(5) in \<open>simp add: may_become_def\<close>)
  then show ?thesis
    using d(1-3) assms(2) by (auto simp: authorised_def heap_authorised_def)
qed

lemma thread_op_authorised:
  assumes "thread_op N m p rest args s = Return (r, s')" and "holds s th (ResThread p)"
  shows "authorised s th s'"
proof (cases "ThreadOp_from_args N args")
  case (Return op)
  with assms show ?thesis
    by (cases op)
       (auto simp: thread_op_def split: ThreadOp.splits
         intro: Thread_dispatch_authorised same_authorised dest: leave_same)
qed (use assms in \<open>simp add: thread_op_def\<close>)

lemma exercise_cap_authorised:
  assumes "exercise_cap F N m th cap args s = Return (r, s')"
  shows "authorised s th s'"
proof -
  from assms obtain q s1 r1 s2 where c: "KPtr_clone (thread_resources th) s = Return (q, s1)"
    and f: "find_slot q cap s1 = Return (r1, s2)"
    by (auto simp: exercise_cap_def bindR_eq_Return)
  have s1: "same_objects s s1" and q: "q = thread_resources th"
    using KPtr_clone_same [OF c] by simp_all
  show ?thesis
  proof (cases r1)
    case (Err e)
    with assms c f have "s' = s2"
      by (simp add: exercise_cap_def)
    with find_slot_eq [OF f] s1 show ?thesis
      by (blast intro: same_authorised same_objects_trans)
  next
    case (Ok sr)
    with assms c f obtain sl s3 s4 rest where g: "slot_get sr s2 = Return (sl, s3)"
      and d: "KPtr_drop TCapTable (fst sr) s3 = Return s4"
      and rest: "rest = (case slot_child sl of None \<Rightarrow> [] | Some p \<Rightarrow> [(TCapTable, p)])"
      and op: "(case slot_resource sl of
           ResEmpty \<Rightarrow> leave rest (Err NotFound) s4
         | ResCapEntry table \<Rightarrow> cap_table_op F N th table rest args s4
         | ResThread thread \<Rightarrow> thread_op N m thread rest args s4
         | ResPageTable table flags \<Rightarrow> Panic NotImplemented) = Return (r, s')"
      by (auto simp: exercise_cap_def bindR_eq_Return Let_def)
    have h: "same_objects s1 s3" "holds s1 th (slot_resource sl)"
      using found_slot_holds [OF f [unfolded Ok q] g] by auto
    have s4: "same_objects s s4"
      using s1 h(1) KPtr_drop_same [OF d] same_objects_trans by blast
    have "authorised s4 th s'"
      using op h(2)
      by (auto simp: holds_same [OF s1] holds_same [OF s4] split: Resource.splits
          intro: cap_table_op_authorised thread_op_authorised same_authorised dest: leave_same)
    with s4 show ?thesis
      by (rule authorised_before)
  qed
qed

lemma Thread_current_same:
  assumes "Thread_current s = Return (t, s')"
  shows "t = active_thread s \<and> same_objects s s'"
  using assms
  by (auto simp: Thread_current_def active_thread_def borrow_def bindR_eq_Return split: if_splits option.splits
      dest!: KPtr_clone_same)

lemma syscall_handle_authorised:
  assumes "syscall_handle F N m a b c d e f s = Return (r, s')" and "active_thread s = Some p"
    and "k_heap s (kptr_inner p) = Some (OThread th)"
  shows "authorised s th s'"
proof -
  from assms(1) obtain t s1 where cur: "Thread_current s = Return (t, s1)"
    by (auto simp: syscall_handle_def bindR_eq_Return)
  from Thread_current_same [OF cur] assms(2) have t: "t = Some p" and s1: "same_objects s s1"
    by simp_all
  show ?thesis
  proof (cases "u32_try_from a")
    case (Ok cap)
    have th: "deref_thread p s1 = Return th"
      using assms(3) s1 by (simp add: deref_eqs same_objects_def)
    from assms(1) cur t Ok th obtain r2 s2
      where x: "exercise_cap F N m th (CapId cap) (SyscallArgs_new b c d e f) s1 = Return (r2, s2)"
        and k: "(case r2 of
           Resumed ctx \<Rightarrow> Return (Resumed ctx, s2)
         | Done (Err err) \<Rightarrow> leave [(TThread, p)] (to_errno err) s2
         | Done (Ok res) \<Rightarrow>
             bindR (if unat res < 2 ^ 63 then Return res else Panic UnwrapErr) (\<lambda>v.
             leave [(TThread, p)] v s2)) = Return (r, s')"
      by (auto simp: syscall_handle_def bindR_eq_Return)
    have s2: "s' = s2 \<or> (\<exists>v. leave [(TThread, p)] v s2 = Return (r, s'))"
    proof (cases r2)
      case (Done res)
      with k show ?thesis by (cases res) (auto split: if_splits)
    qed (use k in simp)
    from exercise_cap_authorised [OF x] have "authorised s th s2"
      using s1 authorised_before by blast
    with s2 show ?thesis
      using leave_same authorised_after by metis
  next
    case (Err x)
    with assms(1) cur t have "leave [(TThread, p)] (to_errno InvalidArgument) s1 = Return (r, s')"
      by (simp add: syscall_handle_def)
    with s1 show ?thesis
      using leave_same same_authorised same_objects_trans by metis
  qed
qed

section \<open>Well-typed kernels\<close>

text \<open>
  Every pointer that an object owns leads to an object of the type the pointer has, the active
  thread is a thread, and the capability tables are well-formed.
\<close>

definition has_type :: "kstate \<Rightarrow> ktype \<Rightarrow> KPtr \<Rightarrow> bool" where
  "has_type s t p \<longleftrightarrow> (\<exists>obj. k_heap s (kptr_inner p) = Some obj \<and> kobj_type obj = t)"

definition well_typed :: "kstate \<Rightarrow> bool" where
  "well_typed s \<longleftrightarrow> caps_wf s
     \<and> (\<forall>a obj t p. k_heap s a = Some obj \<and> (t, p) \<in> set (owned obj) \<longrightarrow> has_type s t p)
     \<and> (\<forall>p. active_thread s = Some p \<longrightarrow> has_type s TThread p)"

lemma well_typedD:
  assumes "well_typed s"
  shows "caps_wf s" and "k_heap s a = Some obj \<Longrightarrow> (t, p) \<in> set (owned obj) \<Longrightarrow> has_type s t p"
    and "active_thread s = Some p \<Longrightarrow> has_type s TThread p"
  using assms by (auto simp: well_typed_def)

lemma slot_of_Some:
  "slot_of s sr = Some sl \<longleftrightarrow> (\<exists>t. k_heap s (kptr_inner (fst sr)) = Some (OCapTable t)
     \<and> unat (snd sr) < length t \<and> sl = cell_value (t ! unat (snd sr)))"
  by (auto simp: slot_of_def split: option.splits kobj.splits)

lemma holds_typed:
  assumes "well_typed s" and "holds s th r" and "(t, p) \<in> set (owned_resource r)"
  shows "has_type s t p"
proof -
  from assms(2) obtain q i u where "k_heap s (kptr_inner q) = Some (OCapTable u)" "i < length u"
      "slot_resource (cell_value (u ! i)) = r"
    by (auto simp: holds_def slot_of_Some)
  moreover from this assms(3) have "(t, p) \<in> set (owned (OCapTable u))"
    by (auto simp: owned_slot_def)
  ultimately show ?thesis
    using well_typedD(2) [OF assms(1)] by blast
qed

lemma heap_authorised_types: "heap_authorised s th s' \<Longrightarrow> has_type s' t p = has_type s t p"
  by (auto simp: heap_authorised_def may_become_def has_type_def) (metis kobj_type.simps option.inject)+

lemma relinked_owned:
  assumes "relinked s th t t'" and "x \<in> set (owned (OCapTable t'))"
  shows "x \<in> set (owned (OCapTable t)) \<or> (\<exists>p. x = (TCapTable, p) \<and> holds s th (ResCapEntry p))"
proof -
  from assms(1) obtain i ch where i: "i < length t" and ch: "\<And>p. ch = Some p \<Longrightarrow> holds s th (ResCapEntry p)"
    and t': "t' = t[i := AtomicCell_new ((cell_value (t ! i))\<lparr>slot_child := ch\<rparr>)]"
    by (auto simp: relinked_def)
  from assms(2) obtain c where c: "c \<in> set t'" "x \<in> set (owned_slot (cell_value c))"
    by auto
  with t' set_update_subset_insert consider "c \<in> set t" | "c = AtomicCell_new ((cell_value (t ! i))\<lparr>slot_child := ch\<rparr>)"
    by fastforce
  then show ?thesis
  proof cases
    case 2
    with c(2) ch have "x \<in> set (owned_slot (cell_value (t ! i))) \<or> (\<exists>p. x = (TCapTable, p) \<and> holds s th (ResCapEntry p))"
      by (auto simp: owned_slot_def AtomicCell_new_def split: option.splits)
    with i show ?thesis
      by (auto dest: nth_mem)
  qed (use c in auto)
qed

lemma relinked_wf:
  assumes "relinked s th t t'" and "length t = 128 \<and> (\<forall>c \<in> set t. \<not> locked c)"
  shows "length t' = 128 \<and> (\<forall>c \<in> set t'. \<not> locked c)"
  using assms
  by (auto simp: relinked_def AtomicCell_new_def dest!: set_update_subset_insert [THEN subsetD])

lemma authorised_well_typed:
  assumes "well_typed s" and "authorised s th s'"
  shows "well_typed s'"
proof -
  have heap: "heap_authorised s th s'"
    using assms(2) by (simp add: authorised_def)
  note types = heap_authorised_types [OF heap]
  have step: "may_become s th a (k_heap s a) (k_heap s' a)" for a
    using heap by (simp add: heap_authorised_def)
  have obj: "(\<forall>(t, p) \<in> set (owned obj). has_type s t p)
      \<and> (\<forall>t. obj = OCapTable t \<longrightarrow> length t = 128 \<and> (\<forall>c \<in> set t. \<not> locked c))" if h: "k_heap s' a = Some obj" for a obj
  proof -
    consider (same) "k_heap s a = Some obj"
      | (relink) u u' where "k_heap s a = Some (OCapTable u)" "obj = OCapTable u'" "relinked s th u u'"
      | (regs) u where "k_heap s a = Some (OThread u)" "\<exists>c. obj = OThread (u\<lparr>exec_ctx := c\<rparr>)"
      using step [of a] h by (auto simp: may_become_def)
    then show ?thesis
    proof cases
      case same
      then show ?thesis
        using well_typedD(1,2) [OF assms(1)] by (auto simp: caps_wf_def)
    next
      case relink
      have "has_type s t p" if x: "(t, p) \<in> set (owned obj)" for t p
        using relinked_owned [OF relink(3), of "(t, p)"] x relink well_typedD(2) [OF assms(1) relink(1)]
          holds_typed [OF assms(1), of th "ResCapEntry p"] by (auto simp del: owned.simps)
      moreover have "length u = 128 \<and> (\<forall>c \<in> set u. \<not> locked c)"
        using well_typedD(1) [OF assms(1)] relink(1) by (auto simp: caps_wf_def)
      ultimately show ?thesis
        using relinked_wf [OF relink(3)] relink(2) by (auto simp del: owned.simps)
    next
      case regs
      then show ?thesis
        using well_typedD(2) [OF assms(1) regs(1)] by auto
    qed
  qed
  have act: "has_type s TThread p" if "active_thread s' = Some p" for p
  proof (cases "k_active s' = k_active s")
    case True
    from active_same [OF True] that show ?thesis
      by (intro well_typedD(3) [OF assms(1)]) simp
  next
    case False
    with assms(2) that have "holds s th (ResThread p)"
      unfolding authorised_def by (elim conjE disjE exE) simp_all
    from holds_typed [OF assms(1) this] show ?thesis by simp
  qed
  show ?thesis
    unfolding well_typed_def caps_wf_def types using obj act by blast
qed

section \<open>Calls on an empty slot\<close>

text \<open>
  A thread in frame \<open>ft\<close> with the capability table in frame \<open>fr\<close>, referenced \<open>nt\<close> and \<open>nr\<close> times,
  that runs and whose slot \<open>i\<close> is empty.
\<close>

definition running :: "kstate \<Rightarrow> RawFrame \<Rightarrow> RawFrame \<Rightarrow> nat \<Rightarrow> nat \<Rightarrow> Thread \<Rightarrow> nat \<Rightarrow> bool" where
  "running s ft fr nt nr th i \<longleftrightarrow> rt_ok (k_rt s) \<and> direct_mapped s ft \<and> direct_mapped s fr
     \<and> frame_idx ft \<noteq> frame_idx fr \<and> entry (k_rt s) ft = Some (mk_entry Kernel nt)
     \<and> entry (k_rt s) fr = Some (mk_entry Kernel nr) \<and> nt < 16383 \<and> nr < 16383
     \<and> k_heap s (kptr_inner (kptr_to s ft)) = Some (OThread th) \<and> thread_resources th = kptr_to s fr
     \<and> (\<exists>c. active_cell s = Return c \<and> \<not> refcell_mut c \<and> refcell_value c = Some (kptr_to s ft))
     \<and> i < 128 \<and> (\<exists>c. cell_at (kptr_to s fr, of_nat i) s = Return c \<and> \<not> locked c \<and> cell_value c = CapSlot_default)"

lemma active_cell_rt [simp]: "active_cell (s\<lparr>k_rt := g\<rparr>) = active_cell s"
  by (simp add: active_cell_def)

lemma cell_at_rt [simp]: "cell_at sr (s\<lparr>k_rt := g\<rparr>) = cell_at sr s"
  by (simp add: cell_at_def deref_eqs)

lemma KPtr_clone_count:
  assumes "rt_ok (k_rt s)" and "direct_mapped s f" and "entry (k_rt s) f = Some (mk_entry Kernel n)" and "n < 16383"
  shows "KPtr_clone (kptr_to s f) s
    = Return (kptr_to s f, s\<lparr>k_rt := set_entry (k_rt s) f (mk_entry Kernel (Suc n))\<rparr>)"
  using assms by (simp add: KPtr_clone_eq)

lemma KPtr_drop_count:
  assumes "rt_ok (k_rt s)" and "direct_mapped s f" and "entry (k_rt s) f = Some (mk_entry Kernel n)" and "n \<le> 16383"
  shows "KPtr_drop t (kptr_to s f) s = (if n < 2 then Panic UnwrapErr
    else Return (s\<lparr>k_rt := set_entry (k_rt s) f (mk_entry Kernel (n - 2))\<rparr>))"
  using assms kptr_to_roundtrip(2) [OF assms(2)] by (simp add: KPtr_drop_eq)

lemma exercise_empty_slot:
  assumes "running s ft fr nt nr th i"
  shows "exercise_cap F N m th (CapId (of_nat i)) args s = (if nr = 0 then Panic UnwrapErr
    else Return (Done (Err NotFound),
      s\<lparr>k_rt := set_entry (set_entry (k_rt s) fr (mk_entry Kernel (Suc nr))) fr (mk_entry Kernel (nr - 1))\<rparr>))"
proof -
  let ?s1 = "s\<lparr>k_rt := set_entry (k_rt s) fr (mk_entry Kernel (Suc nr))\<rparr>"
  let ?sr = "(kptr_to s fr, of_nat i :: usize)"
  note r = assms [unfolded running_def]
  from r obtain c where c: "cell_at ?sr s = Return c" "\<not> locked c" "cell_value c = CapSlot_default"
    by blast
  have clone: "KPtr_clone (thread_resources th) s = Return (kptr_to s fr, ?s1)"
    using r by (simp add: KPtr_clone_count)
  have "unat (of_nat i :: u32) = i"
    using r by (subst unat_of_nat) simp
  then have find: "find_slot (kptr_to s fr) (CapId (of_nat i)) ?s1 = Return (Ok ?sr, ?s1)"
    using r by (subst find_slot_low) (simp_all add: word_unat_eq_iff unsigned_ucast_eq take_bit_eq_mod unat_of_nat)
  have get: "slot_get ?sr ?s1 = Return (CapSlot_default, ?s1)"
    using c by (subst slot_get_eq [of _ _ c]) (simp_all add: CapSlot_clone_def CapSlot_default_def)
  have drop: "KPtr_drop TCapTable (kptr_to s fr) ?s1 = (if nr = 0 then Panic UnwrapErr
      else Return (?s1\<lparr>k_rt := set_entry (k_rt ?s1) fr (mk_entry Kernel (nr - 1))\<rparr>))"
    using r KPtr_drop_count [of ?s1 fr "Suc nr" TCapTable] by (simp add: rt.look_put_same Suc_less_eq2)
  show ?thesis
    using clone find get drop
    by (simp add: exercise_cap_def CapSlot_default_def Let_def leave_def)
qed

lemma running_rt:
  assumes "running s ft fr nt nr th i" and "rt_ok g" and "entry g ft = Some (mk_entry Kernel nt')"
    and "entry g fr = Some (mk_entry Kernel nr')" and "nt' < 16383" and "nr' < 16383"
  shows "running (s\<lparr>k_rt := g\<rparr>) ft fr nt' nr' th i"
  using assms by (simp add: running_def)

lemma syscall_empty_slot:
  assumes "running s ft fr nt nr th i" and "1 \<le> nt" and "nt < 16382"
  shows "if nr = 0 then syscall_handle F N m (of_nat i) b c d e f s = Panic UnwrapErr
    else \<exists>s'. syscall_handle F N m (of_nat i) b c d e f s = Return (Done (to_errno NotFound), s')
      \<and> running s' ft fr (nt - 1) (nr - 1) th i"
proof -
  note r = assms(1) [unfolded running_def]
  let ?g1 = "set_entry (k_rt s) ft (mk_entry Kernel (Suc nt))"
  let ?g2 = "set_entry (set_entry ?g1 fr (mk_entry Kernel (Suc nr))) fr (mk_entry Kernel (nr - 1))"
  have e: "entry ?g1 ft = Some (mk_entry Kernel (Suc nt))" "entry ?g1 fr = Some (mk_entry Kernel nr)"
    using r by (simp_all add: rt.look_put)
  have s1: "running (s\<lparr>k_rt := ?g1\<rparr>) ft fr (Suc nt) nr th i"
    using r e assms(3) by (intro running_rt [OF assms(1)]) simp_all
  have cur: "Thread_current s = Return (Some (kptr_to s ft), s\<lparr>k_rt := ?g1\<rparr>)"
    using r by (auto simp: Thread_current_def borrow_def KPtr_clone_count)
  have "unat (of_nat i :: usize) = i"
    using r by (subst unat_of_nat) simp
  then have id: "u32_try_from (of_nat i) = Ok (of_nat i)"
    using r by (simp add: u32_try_from_def word_unat_eq_iff unsigned_ucast_eq take_bit_eq_mod unat_of_nat)
  have th: "deref_thread (kptr_to s ft) (s\<lparr>k_rt := ?g1\<rparr>) = Return th"
    using r by (simp add: deref_eqs)
  note call = exercise_empty_slot [OF s1, of F N m "SyscallArgs_new b c d e f", simplified]
  show ?thesis
  proof (cases "nr = 0")
    case True
    then show ?thesis
      using cur id th call by (simp add: syscall_handle_def)
  next
    case False
    have e2: "entry ?g2 ft = Some (mk_entry Kernel (Suc nt))" "entry ?g2 fr = Some (mk_entry Kernel (nr - 1))"
      using r e by (simp_all add: rt.look_put)
    let ?s' = "s\<lparr>k_rt := set_entry ?g2 ft (mk_entry Kernel (nt - 1))\<rparr>"
    have "drop_all [(TThread, kptr_to s ft)] (s\<lparr>k_rt := ?g2\<rparr>) = Return ?s'"
      using r e2 assms(2,3) KPtr_drop_count [of "s\<lparr>k_rt := ?g2\<rparr>" ft "Suc nt" TThread] by (simp add: KPtr_drop_def)
    moreover have "running ?s' ft fr (nt - 1) (nr - 1) th i"
      using r e2 by (intro running_rt [OF assms(1)]) (simp_all add: rt.look_put less_imp_diff_less)
    ultimately show ?thesis
      using False cur id th call by (simp add: syscall_handle_def leave_def)
  qed
qed

section \<open>Properties\<close>


text \<open>A kernel that runs the thread in frame 3, whose capability table in frame 2 is empty.\<close>

definition call_thread :: Thread where
  "call_thread = \<lparr>exec_ctx = sample_ctx, thread_resources = kptr_to sample_kstate (at_frame 2)\<rparr>"

definition call_kstate :: kstate where
  "call_kstate =
     (write_obj (kptr_to sample_kstate (at_frame 3)) (OThread call_thread)
       (write_obj (kptr_to sample_kstate (at_frame 2)) (OCapTable RawCapEntry_default) sample_kstate))
     \<lparr>k_active := \<lparr>once_value = Some \<lparr>core_values = [RefCell_new (Some (kptr_to sample_kstate (at_frame 3)))]\<rparr>, once_init = 2\<rparr>\<rparr>"

lemma call_pointers:
  "kptr_inner (kptr_to sample_kstate (at_frame 2)) \<noteq> kptr_inner (kptr_to sample_kstate (at_frame 3))" "frame_idx (at_frame 3) \<noteq> frame_idx (at_frame 2)"
  by (simp_all add: kptr_to_def sample_kstate_def at_frame_def frame_idx_def)

lemma call_simps [simp]:
  "k_rt call_kstate = k_rt sample_kstate" "kptr_to call_kstate f = kptr_to sample_kstate f"
  "direct_mapped call_kstate f = direct_mapped sample_kstate f"
  "active_thread call_kstate = Some (kptr_to sample_kstate (at_frame 3))"
  "active_cell call_kstate = Return (RefCell_new (Some (kptr_to sample_kstate (at_frame 3))))"
  "k_heap call_kstate (kptr_inner (kptr_to sample_kstate (at_frame 3))) = Some (OThread call_thread)"
  "k_heap call_kstate (kptr_inner (kptr_to sample_kstate (at_frame 2))) = Some (OCapTable RawCapEntry_default)"
  using call_pointers
  by (simp_all add: call_kstate_def active_thread_def active_cell_def OnceCell_get_def OnceCell_get_unchecked_def
      CoreLocal_get_def RefCell_new_def)

lemma call_running: "running call_kstate (at_frame 3) (at_frame 2) 2 1 call_thread 9"
proof -
  have "RawCapEntry_default ! 9 = AtomicCell_new CapSlot_default"
    by (simp add: RawCapEntry_default_def TrieEntry_default_def AtomicCapSlot_default_def)
  then show ?thesis
    using call_pointers RawCapEntry_default_wf
    by (simp add: running_def RefCell_new_def cell_at_def deref_eqs get_at_def call_thread_def AtomicCell_new_def)
qed


text \<open>
  C10. System calls keep the kernel well-typed: when every pointer owned by a kernel object leads to
  an object of its type and the capability tables have 128 unlocked slots, this still holds after
  a system call that returns or dispatches.
\<close>

theorem syscalls_keep_types:
  assumes "well_typed s" and "syscall_handle F N m a b c d e f s = Return (r, s')"
  shows "well_typed s'"
proof -
  obtain t s1 where cur: "Thread_current s = Return (t, s1)" and t: "t \<noteq> None"
    using assms(2) by (auto simp: syscall_handle_def bindR_eq_Return)
  then obtain p where p: "active_thread s = Some p"
    using Thread_current_same [OF cur] by auto
  from well_typedD(3) [OF assms(1) p] obtain th where "k_heap s (kptr_inner p) = Some (OThread th)"
    by (auto simp: has_type_def) (metis kobj_type.simps ktype.distinct kobj.exhaust)
  from syscall_handle_authorised [OF assms(2) p this] show ?thesis
    by (rule authorised_well_typed [OF assms(1)])
qed

lemma call_well_typed: "well_typed call_kstate"
proof -
  have heap: "k_heap call_kstate a = Some obj \<Longrightarrow> a = kptr_inner (kptr_to sample_kstate (at_frame 3)) \<and> obj = OThread call_thread
      \<or> a = kptr_inner (kptr_to sample_kstate (at_frame 2)) \<and> obj = OCapTable RawCapEntry_default" for a obj
    by (auto simp: call_kstate_def sample_kstate_def split: if_splits)
  have "owned (OCapTable RawCapEntry_default) = []"
    by (auto simp: RawCapEntry_default_def TrieEntry_default_def AtomicCapSlot_default_def AtomicCell_new_def
        CapSlot_default_def owned_slot_def)
  then show ?thesis
    using heap RawCapEntry_default_wf
    by (auto simp: well_typed_def caps_wf_def has_type_def call_thread_def dest!: heap)
qed

theorem syscalls_keep_types_witness:
  "\<exists>s'. syscall_handle word_ptf derived_num_enum (\<lambda>_. 0) 9 0 0 0 0 0 call_kstate = Return (Done (to_errno NotFound), s')
     \<and> well_typed s'"
proof -
  obtain s' where run: "syscall_handle word_ptf derived_num_enum (\<lambda>_. 0) 9 0 0 0 0 0 call_kstate
      = Return (Done (to_errno NotFound), s')"
    using syscall_empty_slot [OF call_running, of word_ptf derived_num_enum "\<lambda>_. 0" 0 0 0 0 0] by auto
  from syscalls_keep_types [OF call_well_typed run] run show ?thesis by auto
qed

text \<open>
  A thread whose capability table has one reference, as every new thread has, stops the kernel
  with its second system call: the first call on an empty slot returns \<open>NotFound\<close>, but the pointer
  cloned for the lookup gives back two references, and the second call panics.
\<close>

lemma second_syscall_panics:
  assumes "running s ft fr nt 1 th i" and "2 \<le> nt" and "nt < 16382"
  shows "\<exists>s'. syscall_handle F N m (of_nat i) b c d e f s = Return (Done (to_errno NotFound), s')
    \<and> syscall_handle F N m (of_nat i) b c d e f s' = Panic UnwrapErr"
proof -
  obtain s' where "syscall_handle F N m (of_nat i) b c d e f s = Return (Done (to_errno NotFound), s')"
    and s': "running s' ft fr (nt - 1) 0 th i"
    using syscall_empty_slot [OF assms(1), of F N m b c d e f] assms(2,3) by auto
  then show ?thesis
    using syscall_empty_slot [OF s', of F N m b c d e f] assms(2,3) by auto
qed

text \<open>
  C16. Dispatching a thread makes it the active one and resumes its saved context; the registers of
  the thread that was active are saved first, so a thread that dispatches itself resumes with the
  registers just saved. No other object changes.
\<close>

theorem dispatch_switches_threads:
  assumes "Thread_dispatch this sv s = Return (r, s')"
  shows "active_thread s' = Some this
    \<and> (\<exists>th. k_heap s' (kptr_inner this) = Some (OThread th) \<and> r = Resumed (exec_ctx th))
    \<and> (case active_thread s of None \<Rightarrow> k_heap s' = k_heap s
      | Some old \<Rightarrow> (\<exists>t. k_heap s (kptr_inner old) = Some (OThread t) \<and> k_heap s' = (k_heap s)(kptr_inner old \<mapsto>
          OThread (t\<lparr>exec_ctx := (exec_ctx t)\<lparr>ctx_regs := sv (ctx_regs (exec_ctx t))\<rparr>\<rparr>))))"
  using Thread_dispatch_eq [OF assms] by blast

lemma call_dispatch: "\<exists>r s'. Thread_dispatch (kptr_to sample_kstate (at_frame 3)) sv call_kstate = Return (r, s')"
proof -
  let ?p = "kptr_to sample_kstate (at_frame 3)"
  let ?c = "(RefCell_new (Some ?p))\<lparr>refcell_mut := True\<rparr>"
  obtain s1 where s1: "save_regs sv ?p (set_active ?c call_kstate) = Return s1" "k_rt s1 = k_rt sample_kstate"
      "k_pmo s1 = k_pmo sample_kstate" "\<exists>t. k_heap s1 (kptr_inner ?p) = Some (OThread t)"
    by (simp add: save_regs_def deref_eqs) (simp add: call_kstate_def)
  have dm: "kptr_to s1 (at_frame 3) = ?p" "direct_mapped s1 (at_frame 3)"
    using s1(3) sample_kstate_simps(4) by (simp_all add: kptr_to_def direct_mapped_def)
  let ?s2 = "s1\<lparr>k_rt := set_entry (k_rt s1) (at_frame 3) (mk_entry Kernel 3)\<rparr>"
  have clone: "KPtr_clone ?p s1 = Return (?p, ?s2)"
    using KPtr_clone_count [of s1 "at_frame 3" 2] dm s1(2) by (simp add: eval_nat_numeral)
  have drop: "KPtr_drop TThread ?p ?s2 = Return (?s2\<lparr>k_rt := set_entry (k_rt ?s2) (at_frame 3) (mk_entry Kernel 1)\<rparr>)"
    using KPtr_drop_count [of ?s2 "at_frame 3" 3 TThread] dm s1(2) by (simp add: rt.look_put)
  show ?thesis
    using s1 clone drop by (auto simp: Thread_dispatch_def borrow_mut_def RefCell_new_def Let_def deref_eqs)
qed

theorem dispatch_switches_threads_witness:
  "\<exists>(r :: unit flow) s'. Thread_dispatch (kptr_to sample_kstate (at_frame 3)) NoopSaver_save_state call_kstate = Return (r, s')
     \<and> active_thread s' = Some (kptr_to sample_kstate (at_frame 3))"
proof -
  obtain r :: "unit flow" and s' where run: "Thread_dispatch (kptr_to sample_kstate (at_frame 3)) NoopSaver_save_state call_kstate = Return (r, s')"
    using call_dispatch by blast
  from dispatch_switches_threads [OF run] run show ?thesis by auto
qed

end
