(* ===== verification/Boot.thy ===== *)
theory Boot
  imports Prelude Paging Cells Retype_Entry Retyping Bump Page_Table Exec Kernel_State Kptr Caps Addrspace Component
begin

text \<open>
  Starting the boot component (\<open>arch/x86_64/bootup.rs\<close> and \<open>kmain\<close> of \<open>main.rs\<close>): the segments of
  an ELF program are copied into fresh user frames and mapped, then its stack and all of physical
  memory are mapped, and the first thread is created and dispatched.

  The headers are read by the crate \<open>goblin\<close>. Its functions and constants are the fields of the
  record \<open>goblin\<close>, an argument of the definitions that use them. A frame of user memory is an
  object of 4096 bytes at its address in the direct map.
\<close>

unbundle bit_operations_syntax

section \<open>Definitions\<close>

record ProgramHeader =
  p_type :: u32
  p_flags :: u32
  p_offset :: u64
  p_vaddr :: u64
  p_filesz :: u64
  p_memsz :: u64

record ElfHeader =
  e_entry :: u64
  e_phoff :: u64
  e_phentsize :: u16
  e_phnum :: u16

record goblin =
  SIZEOF_EHDR :: nat
  ALIGN_PHDR :: usize
  PT_LOAD :: u32
  PF_R :: u32
  PF_W :: u32
  PF_X :: u32
  header_from_bytes :: "u8 list \<Rightarrow> ElfHeader"
  program_headers :: "u8 list \<Rightarrow> u64 \<Rightarrow> u16 \<Rightarrow> ProgramHeader list"

text \<open>The bytes of a program and the address where they are.\<close>

record program =
  prog_addr :: usize
  prog_bytes :: "u8 list"

definition segment_flags :: "goblin \<Rightarrow> 'f ptf \<Rightarrow> u32 \<Rightarrow> 'f" where
  "segment_flags G F flags =
     (let pflags = flag_union F (PRESENT F) (USER_ACCESSIBLE F);
          pflags = (if flags AND PF_W G \<noteq> 0 then flag_union F pflags (WRITABLE F) else pflags) in
      if flags AND PF_X G = 0 then flag_union F pflags (NO_EXECUTE F) else pflags)"

text \<open>Zeroing a page and copying bytes into it at an offset.\<close>

definition page_bytes :: "u8 list \<Rightarrow> nat \<Rightarrow> nat \<Rightarrow> nat \<Rightarrow> u8 list" where
  "page_bytes prog foff voff count =
     (let zero = replicate 4096 0 in take voff zero @ take count (drop foff prog) @ drop (voff + count) zero)"

function segment_loop ::
    "goblin \<Rightarrow> 'f ptf \<Rightarrow> program \<Rightarrow> ProgramHeader \<Rightarrow> KPtr \<Rightarrow> u64 \<Rightarrow> u64 \<Rightarrow> u64 \<Rightarrow> u64 \<Rightarrow> BumpAllocator \<Rightarrow> kstate \<Rightarrow>
     (BumpAllocator \<times> kstate) run" where
  "segment_loop G F prog header address_space vend fend vcurrent fcurrent fa s =
     (if \<not> vcurrent < vend then Return (fa, s) else
      bindR (alloc_user_frame fa (k_rt s)) (\<lambda>(u, fa, g).
      let s = s\<lparr>k_rt := g\<rparr> in
      bindR (unwrap u) (\<lambda>u.
      let frame = UserFrame_into_raw u in
      bindR (VirtAddr_new vcurrent) (\<lambda>v.
      bindR (Page_containing_address v) (\<lambda>page.
      bindR (assert (p_flags header AND PF_R G \<noteq> 0)) (\<lambda>_.
      bindR (map_to F address_space page frame (segment_flags G F (p_flags header))
          (flag_union F (WRITABLE F) (USER_ACCESSIBLE F)) fa s) (\<lambda>(r, fa, s).
      bindR (unwrap_ok r) (\<lambda>_.
      bindR (to_virtual (k_pmo s) (frame_base frame)) (\<lambda>offset_page.
      bindR (sub_chk fend fcurrent) (\<lambda>left.
      bindR (sub_chk PAGE_SIZE (vcurrent mod PAGE_SIZE)) (\<lambda>room.
      let count = min left room;
          s = write_obj (KPtr (as_usize offset_page))
            (OBytes (page_bytes (prog_bytes prog) (unat fcurrent) (unat (vcurrent mod PAGE_SIZE)) (unat count))) s in
      bindR (add_chk vcurrent room) (\<lambda>vcurrent.
      bindR (add_chk fcurrent count) (\<lambda>fcurrent.
      segment_loop G F prog header address_space vend fend vcurrent fcurrent fa s)))))))))))))"
  by pat_completeness auto

lemma room_pos:
  assumes "sub_chk PAGE_SIZE (v mod PAGE_SIZE) = Return room"
  shows "unat room = 4096 - unat v mod 4096" and "0 < unat room"
proof -
  have "unat (v mod PAGE_SIZE) = unat v mod 4096"
    by (simp add: PAGE_SIZE_def unat_mod)
  with assms show "unat room = 4096 - unat v mod 4096"
    by (auto simp: sub_chk_eq_Return unat_sub_le PAGE_SIZE_def)
  then show "0 < unat room" by simp
qed

termination segment_loop
  by (relation "measure (\<lambda>(G, F, prog, header, as, vend, fend, vcurrent, fcurrent, fa, s). unat vend - unat vcurrent)")
     (auto simp: word_less_nat_alt add_chk_eq_Return dest!: room_pos)

declare segment_loop.simps [simp del]

definition Segment_load ::
    "goblin \<Rightarrow> 'f ptf \<Rightarrow> program \<Rightarrow> ProgramHeader \<Rightarrow> KPtr \<Rightarrow> BumpAllocator \<Rightarrow> kstate \<Rightarrow> (BumpAllocator \<times> kstate) run" where
  "Segment_load G F prog header address_space fa s =
     bindR (add_chk (p_vaddr header) (p_memsz header)) (\<lambda>vend.
     bindR (add_chk (p_offset header) (p_filesz header)) (\<lambda>fend.
     bindR (assert (vend \<le> 0xFFFF800000000000)) (\<lambda>_.
     bindR (assert (unat fend \<le> length (prog_bytes prog))) (\<lambda>_.
     bindR (assert (p_memsz header \<ge> p_filesz header)) (\<lambda>_.
     segment_loop G F prog header address_space vend fend (p_vaddr header) (p_offset header) fa s)))))"

primrec load_segments ::
    "goblin \<Rightarrow> 'f ptf \<Rightarrow> program \<Rightarrow> KPtr \<Rightarrow> ProgramHeader list \<Rightarrow> BumpAllocator \<Rightarrow> kstate \<Rightarrow> (BumpAllocator \<times> kstate) run" where
  "load_segments G F prog address_space [] fa s = Return (fa, s)"
| "load_segments G F prog address_space (ph # phdrs) fa s =
     bindR (if p_type ph = PT_LOAD G then Segment_load G F prog ph address_space fa s else Return (fa, s)) (\<lambda>(fa, s).
     load_segments G F prog address_space phdrs fa s)"

text \<open>The loops over the stack pages and over the frames of physical memory, by their indices.\<close>

primrec map_stack ::
    "'f ptf \<Rightarrow> KPtr \<Rightarrow> usize \<Rightarrow> usize list \<Rightarrow> BumpAllocator \<Rightarrow> kstate \<Rightarrow> (BumpAllocator \<times> kstate) run" where
  "map_stack F address_space stack_top [] fa s = Return (fa, s)"
| "map_stack F address_space stack_top (i # is) fa s =
     bindR (alloc_user_frame fa (k_rt s)) (\<lambda>(u, fa, g).
     let s = s\<lparr>k_rt := g\<rparr> in
     bindR (unwrap u) (\<lambda>u.
     bindR (add_chk i 1) (\<lambda>n.
     bindR (mul_chk PAGE_SIZE n) (\<lambda>below.
     bindR (sub_chk stack_top below) (\<lambda>addr.
     bindR (VirtAddr_new addr) (\<lambda>v.
     bindR (Page_from_start_address v) (\<lambda>page.
     bindR (map_to F address_space page (UserFrame_into_raw u)
         (flag_union F (flag_union F (flag_union F (PRESENT F) (WRITABLE F)) (USER_ACCESSIBLE F)) (NO_EXECUTE F))
         (flag_union F (WRITABLE F) (USER_ACCESSIBLE F)) fa s) (\<lambda>(r, fa, s).
     bindR (unwrap_ok r) (\<lambda>_.
     map_stack F address_space stack_top is fa s)))))))))"

primrec map_untyped ::
    "'f ptf \<Rightarrow> KPtr \<Rightarrow> usize \<Rightarrow> u64 list \<Rightarrow> BumpAllocator \<Rightarrow> kstate \<Rightarrow> (BumpAllocator \<times> kstate) run" where
  "map_untyped F address_space untyped_memory_offset [] fa s = Return (fa, s)"
| "map_untyped F address_space untyped_memory_offset (i # is) fa s =
     bindR (mul_chk i FRAME_SIZE) (\<lambda>a.
     bindR (PhysAddr_new a) (\<lambda>pa.
     bindR (RawFrame_from_start_address pa) (\<lambda>frame.
     bindR (add_chk (as_u64 (frame_base frame)) untyped_memory_offset) (\<lambda>b.
     bindR (VirtAddr_new b) (\<lambda>v.
     bindR (Page_from_start_address v) (\<lambda>page.
     bindR (map_to F address_space page frame (PRESENT F) (PRESENT F) fa s) (\<lambda>(r, fa, s).
     bindR (unwrap_ok r) (\<lambda>_.
     map_untyped F address_space untyped_memory_offset is fa s))))))))"

record Process =
  proc_entry :: u64
  proc_rsp :: u64
  proc_l4_table :: KPtr

definition Process_load ::
    "goblin \<Rightarrow> 'f ptf \<Rightarrow> program \<Rightarrow> usize \<Rightarrow> usize \<Rightarrow> usize \<Rightarrow> kstate \<Rightarrow> (Process \<times> kstate) run" where
  "Process_load G F prog stack_pages untyped_memory_offset untyped_memory_length s =
     bindR (assert (untyped_memory_offset mod PAGE_SIZE = 0)) (\<lambda>_.
     bindR (assert (untyped_memory_length mod PAGE_SIZE = 0)) (\<lambda>_.
     bindR (add_chk untyped_memory_offset untyped_memory_length) (\<lambda>top.
     bindR (assert (top < 0xFFFF800000000000)) (\<lambda>_.
     bindR (assert (prog_addr prog mod 16 = 0)) (\<lambda>_.
     bindR (alloc_untyped_frame BumpAllocator_new (k_rt s)) (\<lambda>(f, fa, g).
     let s = s\<lparr>k_rt := g\<rparr> in
     bindR (unwrap f) (\<lambda>l4_frame.
     bindR (new_l4 F l4_frame s) (\<lambda>(r, s).
     bindR (unwrap_ok r) (\<lambda>l4_table.
     bindR (if SIZEOF_EHDR G \<le> length (prog_bytes prog) then Return (take (SIZEOF_EHDR G) (prog_bytes prog))
            else Panic IndexOutOfBounds) (\<lambda>ehdr.
     let header = header_from_bytes G ehdr in
     bindR (mul_chk (ucast (e_phentsize header)) (ucast (e_phnum header))) (\<lambda>size.
     bindR (add_chk (e_phoff header) size) (\<lambda>phend.
     bindR (assert (unat phend < length (prog_bytes prog))) (\<lambda>_.
     bindR (assert ((prog_addr prog + e_phoff header) mod ALIGN_PHDR G = 0)) (\<lambda>_.
     bindR (load_segments G F prog l4_table (program_headers G (prog_bytes prog) (e_phoff header) (e_phnum header)) fa s) (\<lambda>(fa, s).
     bindR (map_stack F l4_table untyped_memory_offset (List.map of_nat [0..<unat stack_pages]) fa s) (\<lambda>(fa, s).
     bindR (map_untyped F l4_table untyped_memory_offset
         (List.map of_nat [0..<unat (untyped_memory_length div PAGE_SIZE)]) fa s) (\<lambda>(fa, s).
     Return (\<lparr>proc_entry = e_entry header, proc_rsp = untyped_memory_offset, proc_l4_table = l4_table\<rparr>, s))))))))))))))))))"

definition into_exec :: "Process \<Rightarrow> kstate \<Rightarrow> ExecCtx run" where
  "into_exec self s =
     bindR (KPtr_into_raw (proc_l4_table self) s) (\<lambda>f.
     Return (ExecCtx_new f (Regs_default\<lparr>control := \<lparr>rflags = 0x202, rsp = proc_rsp self, rip = proc_entry self\<rparr>\<rparr>)))"

text \<open>The body of \<open>kmain\<close> after the initialisation; \<open>start_thread\<close> is its part after the program is loaded.\<close>

definition start_thread :: "ExecCtx \<Rightarrow> kstate \<Rightarrow> ('a flow \<times> kstate) run" where
  "start_thread booter s =
     bindR (alloc_untyped_frame BumpAllocator_new (k_rt s)) (\<lambda>(f, fa, g).
     let s = s\<lparr>k_rt := g\<rparr> in
     bindR (unwrap f) (\<lambda>frame.
     bindR (KPtr_new frame (OCapTable RawCapEntry_default) s) (\<lambda>(r, s).
     bindR (unwrap_ok r) (\<lambda>resources.
     bindR (alloc_untyped_frame fa (k_rt s)) (\<lambda>(f, fa, g).
     let s = s\<lparr>k_rt := g\<rparr> in
     bindR (unwrap f) (\<lambda>frame.
     bindR (KPtr_new frame (OThread (Thread_new_with_ctx booter resources)) s) (\<lambda>(r, s).
     bindR (unwrap_ok r) (\<lambda>thread.
     Thread_dispatch thread NoopSaver_save_state s))))))))"

definition kmain :: "goblin \<Rightarrow> 'f ptf \<Rightarrow> program \<Rightarrow> kstate \<Rightarrow> ('a flow \<times> kstate) run" where
  "kmain G F proc s =
     bindR (memory_limit (k_rt s)) (\<lambda>limit.
     bindR (Process_load G F proc 10 UNTYPED_MEMORY_OFFSET limit s) (\<lambda>(process, s).
     bindR (into_exec process s) (\<lambda>booter.
     start_thread booter s)))"

section \<open>Frames that are not tables\<close>

lemma tr_own_cong:
  assumes "pt_tree s root own" and "k_pmo s' = k_pmo s" and "\<And>b. own b \<noteq> None \<Longrightarrow> k_heap s' b = k_heap s b"
    and "own b = Some \<rho>" and "user_path (\<rho> @ is)"
  shows "tr s' b is = tr s b is"
  using assms(4,5)
proof (induction "is" arbitrary: b \<rho>)
  case (Cons k ks)
  have slot: "pt_slot s' b k = pt_slot s b k"
    using assms(3) Cons.prems(1) by (intro pt_slot_cong) simp
  show ?case
  proof (cases "pt_slot s b k = 0 \<or> ks = [] \<or> huge (pt_slot s b k)")
    case False
    let ?c = "kptr_inner (kptr_to s (entry_frame (pt_slot s b k)))"
    have "own ?c = Some (\<rho> @ [k])"
      using pt_tree_child [OF assms(1) Cons.prems, of ?c] False by (simp add: next_table_def)
    from Cons.IH [OF this] Cons.prems(2) have "tr s' ?c ks = tr s ?c ks"
      by simp
    with False slot show ?thesis
      by (simp add: Let_def kptr_to_cong [OF assms(2)])
  qed (auto simp: slot Let_def)
qed simp

lemma pt_tree_cong:
  assumes "pt_tree s root own" and "k_pmo s' = k_pmo s" and "\<And>b. own b \<noteq> None \<Longrightarrow> k_heap s' b = k_heap s b"
    and "\<And>b. in_use s b \<Longrightarrow> in_use s' b"
  shows "pt_tree s' root own"
  unfolding pt_tree_def
proof (intro conjI allI impI)
  fix a \<pi> assume "own a = Some \<pi>"
  then show "pt_node_ok s' own a \<pi>"
    using assms(2-4) by (intro pt_node_ok_mono [OF pt_treeD [OF assms(1)]]) auto
qed (use assms(1) in \<open>simp add: pt_tree_def\<close>)

lemma tr_root_cong:
  assumes "pt_tree s root own" and "k_pmo s' = k_pmo s" and "\<And>b. own b \<noteq> None \<Longrightarrow> k_heap s' b = k_heap s b" and "user_path js"
  shows "tr s' root js = tr s root js"
  by (rule tr_own_cong [OF assms(1-3), of root "[]"]) (use assms in \<open>auto simp: pt_tree_def\<close>)

text \<open>Taking a user frame.\<close>

lemma take_user_frame:
  assumes "alloc_ready s fa" and "pt_tree s root own" and "alloc_user_frame fa (k_rt s) = Return (Some u, fa', g)"
    and s': "s' = s\<lparr>k_rt := g\<rparr>" and c: "c = kptr_inner (kptr_to s (user_raw u))"
  shows "alloc_ready s' fa'" and "pt_tree s' root own" and "kept own s s'" and "in_use s' c" and "own c = None"
    and "direct_mapped s (user_raw u)" and "\<not> in_use s c" and "user_path js \<Longrightarrow> tr s' root js = tr s root js"
proof -
  note r = assms(1) [unfolded alloc_ready_def]
  from assms(3) obtain n where n: "first_from free_entry (unat (bump_index fa)) (entries (k_rt s)) = Some n"
    and u: "u = UserFrame (frame_no n)" "fa' = \<lparr>bump_index = of_nat n\<rparr>" "g = set_entry (k_rt s) (frame_no n) (mk_entry User 1)"
    using user_source.loop_eq [of "k_rt s" fa] r by (auto simp: alloc_user_frame_def split: option.splits)
  have lt: "n < length (entries (k_rt s))" "n < 2 ^ 40" "free_entry (entries (k_rt s) ! n)"
    using n r by (auto simp: first_from_Some_iff)
  show dm: "direct_mapped s (user_raw u)"
    using r lt(1) by (simp add: u(1))
  have e: "entry (k_rt s) (user_raw u) = Some (entries (k_rt s) ! n)"
    using lt by (simp add: u(1) entry_def)
  show free: "\<not> in_use s c"
    using free_not_in_use [OF dm e lt(3)] by (simp add: c)
  show "own c = None"
    using free pt_treeD [OF assms(2), of c] by (cases "own c") (auto simp: pt_node_ok_def)
  have new: "\<not> free_entry (mk_entry User 1)"
    by (simp add: free_entry_def)
  have use: "in_use s b \<Longrightarrow> in_use s' b" for b
  proof -
    assume "in_use s b"
    then obtain f x where f: "b = kptr_inner (kptr_to s f)" "direct_mapped s f" "entry (k_rt s) f = Some x" "\<not> free_entry x"
      by (auto simp: in_use_def)
    then show "in_use s' b"
      using new e lt(2) unfolding in_use_def
      by (intro exI [of _ f] exI [of _ "if frame_idx f = n then mk_entry User 1 else x"])
         (simp add: s' u rt.look_put)
  qed
  show "in_use s' c"
    unfolding in_use_def using dm e new
    by (intro exI [of _ "user_raw u"] exI [of _ "mk_entry User 1"]) (simp add: s' u c rt.look_put)
  show "alloc_ready s' fa'"
    using r lt by (auto simp: alloc_ready_def s' u unat_of_nat_lt)
  show "pt_tree s' root own"
    by (rule pt_tree_cong [OF assms(2)]) (auto simp: s' use [unfolded s'])
  have "no_new_untyped s s'"
    by (rule no_new_untyped_set [of _ _ "frame_no n" "mk_entry User 1"]) (simp_all add: s' u(3))
  then show "kept own s s'"
    using use by (auto simp: kept_def s' u)
  show "user_path js \<Longrightarrow> tr s' root js = tr s root js"
    by (rule tr_root_cong [OF assms(2)]) (simp_all add: s')
qed

text \<open>Writing a frame that is not a table.\<close>

lemma write_data:
  assumes "alloc_ready s fa" and "pt_tree s root own" and "own c = None" and s': "s' = write_obj (KPtr c) obj s"
  shows "alloc_ready s' fa" and "pt_tree s' root own" and "in_use s' b = in_use s b"
    and "user_path js \<Longrightarrow> tr s' root js = tr s root js"
proof -
  show use: "in_use s' b = in_use s b" for b
    by (simp add: in_use_def s')
  show "alloc_ready s' fa"
    using assms(1) by (simp add: alloc_ready_def s')
  show "pt_tree s' root own"
    by (rule pt_tree_cong [OF assms(2)]) (use assms(3) use in \<open>auto simp: s'\<close>)
  show "user_path js \<Longrightarrow> tr s' root js = tr s root js"
    by (rule tr_root_cong [OF assms(2)]) (use assms(3) in \<open>auto simp: s'\<close>)
qed

section \<open>The bytes that a process sees\<close>

definition addr_path :: "nat \<Rightarrow> nat list" where
  "addr_path x = [x div 2 ^ 39 mod 512, x div 2 ^ 30 mod 512, x div 2 ^ 21 mod 512, x div 2 ^ 12 mod 512]"

lemma page_path_addr: "page_path v = addr_path (unat (as_usize v))"
  by (simp only: page_path_def addr_path_def p_index_values list.map)

lemma addr_path_page:
  assumes "x div 4096 = y div 4096"
  shows "addr_path x = addr_path y"
proof -
  have "z div 2 ^ 39 = z div 4096 div 2 ^ 27" "z div 2 ^ 30 = z div 4096 div 2 ^ 18" "z div 2 ^ 21 = z div 4096 div 2 ^ 9"
    "z div 2 ^ 12 = z div 4096" for z :: nat
    by (simp_all add: div_mult2_eq [symmetric])
  then show ?thesis
    unfolding addr_path_def by (simp only: assms)
qed

lemma addr_path_user: "x < 2 ^ 47 \<Longrightarrow> user_path (addr_path x)"
  by (auto simp: user_path_def addr_path_def div_less_iff_less_mult mod_less_divisor intro: le_less_trans [OF mod_less_eq_dividend])

lemma addr_path_inj:
  assumes "addr_path x = addr_path y" and "x < 2 ^ 47" and "y < 2 ^ 47"
  shows "x div 4096 = y div 4096"
proof -
  have same: "z div 4096 * 4096 div 2 ^ k = z div 2 ^ k" if "12 \<le> k" for z k :: nat
  proof -
    have "(2 :: nat) ^ k = 4096 * 2 ^ (k - 12)"
      using power_add [of "2 :: nat" 12 "k - 12"] that by simp
    then show ?thesis
      by (simp add: div_mult2_eq)
  qed
  have pages: "z div 4096 * 4096 div 2 ^ 12 = z div 2 ^ 12" "z div 4096 * 4096 div 2 ^ 21 = z div 2 ^ 21"
    "z div 4096 * 4096 div 2 ^ 30 = z div 2 ^ 30" "z div 4096 * 4096 div 2 ^ 39 = z div 2 ^ 39" for z :: nat
    by (rule same, simp)+
  have "(x div 4096 * 4096) mod 2 ^ 48 = (y div 4096 * 4096) mod 2 ^ 48"
    using assms(1) unfolding addr_path_def list.inject
    by (intro page_digits) (simp_all only: pages mod_mult_self2_is_0)
  moreover have "z div 4096 * 4096 < 2 ^ 48" if "z < 2 ^ 47" for z :: nat
    using that by (intro le_less_trans [OF div_times_less_eq_dividend]) simp
  ultimately show ?thesis
    using assms(2,3) by simp
qed

text \<open>
  The byte at an address and the flags it is mapped with, by way of a frame that is in use and is
  not a table.
\<close>

definition shows_byte :: "'f ptf \<Rightarrow> (usize \<Rightarrow> nat list option) \<Rightarrow> kstate \<Rightarrow> usize \<Rightarrow> nat \<Rightarrow> 'f \<Rightarrow> u8 \<Rightarrow> bool" where
  "shows_byte F own s root x fl b \<longleftrightarrow> (\<exists>f bs. tr s root (addr_path x) = Some (mk_pte F f fl) \<and> frame_ok f
     \<and> in_use s (kptr_inner (kptr_to s f)) \<and> own (kptr_inner (kptr_to s f)) = None
     \<and> k_heap s (kptr_inner (kptr_to s f)) = Some (OBytes bs) \<and> x mod 4096 < length bs \<and> bs ! (x mod 4096) = b)"

lemma shows_byte_kept:
  assumes "shows_byte F own s root x fl b" and "kept own s s'" and "\<And>a. in_use s a \<Longrightarrow> own' a = own a"
    and "tr s' root (addr_path x) = tr s root (addr_path x)"
  shows "shows_byte F own' s' root x fl b"
proof -
  have "kptr_to s' f = kptr_to s f" for f
    using assms(2) by (simp add: kept_def kptr_to_def)
  with assms show ?thesis
    by (auto simp: shows_byte_def kept_def)
qed

lemma shows_byte_frame:
  assumes "ptf_spec F" and "shows_byte F own s root x fl b" and "tr s root (addr_path x) = Some (mk_pte F f fl)" and "frame_ok f"
  shows "in_use s (kptr_inner (kptr_to s f))"
proof -
  from assms(2,3) obtain g where g: "mk_pte F f fl = mk_pte F g fl" "frame_ok g" "in_use s (kptr_inner (kptr_to s g))"
    by (auto simp: shows_byte_def)
  have "as_u64 (frame_base f) = as_u64 (frame_base g)"
    using mk_pte_masks(1) [OF assms(1,4), of fl] mk_pte_masks(1) [OF assms(1) g(2), of fl] g(1) by simp
  then have "f = g"
    by (intro RawFrame.expand PhysAddr.expand)
  with g(3) show ?thesis by simp
qed

lemma shows_byte_write:
  assumes "shows_byte F own s root x fl b" and "alloc_ready s fa" and "pt_tree s root own" and "own c = None" and "x < 2 ^ 47"
    and s': "s' = write_obj (KPtr c) obj s"
    and "\<And>f. tr s root (addr_path x) = Some (mk_pte F f fl) \<Longrightarrow> frame_ok f \<Longrightarrow> kptr_inner (kptr_to s f) \<noteq> c"
  shows "shows_byte F own s' root x fl b"
proof -
  note w = write_data [OF assms(2-4) s']
  from assms(1) obtain f bs where "tr s root (addr_path x) = Some (mk_pte F f fl)" "frame_ok f"
     "in_use s (kptr_inner (kptr_to s f))" "own (kptr_inner (kptr_to s f)) = None"
     "k_heap s (kptr_inner (kptr_to s f)) = Some (OBytes bs)" "x mod 4096 < length bs \<and> bs ! (x mod 4096) = b"
    by (auto simp: shows_byte_def)
  then show ?thesis
    unfolding shows_byte_def using w(3) w(4) [OF addr_path_user [OF assms(5)]] assms(7)
    by (intro exI [of _ f] exI [of _ bs]) (auto simp: s')
qed

lemma mapped_shows_byte:
  assumes "mapped root own path e s (Ok ()) fa' s'" and "\<And>a. in_use s a \<Longrightarrow> own' a = own a" and "x < 2 ^ 47"
    and "shows_byte F own s root x fl b"
  shows "tr s' root (addr_path x) = tr s root (addr_path x)" and "shows_byte F own' s' root x fl b"
proof -
  have "addr_path x \<noteq> path"
    using assms(1,4) by (auto simp: mapped_def outcome_def shows_byte_def)
  then show tr: "tr s' root (addr_path x) = tr s root (addr_path x)"
    using assms(1) addr_path_user [OF assms(3)] by (auto simp: mapped_def)
  show "shows_byte F own' s' root x fl b"
    by (rule shows_byte_kept [OF assms(4) _ assms(2) tr]) (use assms(1) in \<open>simp_all add: mapped_def\<close>)
qed

lemma map_user_page:
  assumes F: "ptf_spec F" and "alloc_ready s fa" and "pt_tree s root own"
    and "alloc_user_frame fa (k_rt s) = Return (Some u, fa1, g)"
    and "map_to F (KPtr root) page (user_raw u) flags pf fa1 (s\<lparr>k_rt := g\<rparr>) = Return (Ok (), fa2, s2)"
    and "page_ok page" and "unat (as_usize (page_base page)) < 2 ^ 47" and "mk_pte F (user_raw u) flags \<noteq> 0" and "bits F pf AND 0x80 = 0"
    and "length bs = 4096" and s3: "s3 = write_obj (kptr_to s (user_raw u)) (OBytes bs) s2"
  obtains own3 where "alloc_ready s3 fa2" "pt_tree s3 root own3" "k_active s3 = k_active s"
    "\<And>x. x div 4096 = unat (as_usize (page_base page)) div 4096 \<Longrightarrow> shows_byte F own3 s3 root x flags (bs ! (x mod 4096))"
    "\<And>x fl b. x < 2 ^ 47 \<Longrightarrow> shows_byte F own s root x fl b \<Longrightarrow> shows_byte F own3 s3 root x fl b"
proof -
  define c where "c = kptr_inner (kptr_to s (user_raw u))"
  define s1 where "s1 = s\<lparr>k_rt := g\<rparr>"
  note t = take_user_frame [OF assms(2-4) s1_def c_def]
  let ?path = "page_path (page_base page)"
  have m: "mapped root own ?path (mk_pte F (user_raw u) flags) s1 (Ok ()) fa2 s2"
    using map_to_mapped [OF F t(1,2) assms(6-9)] assms(5) by (auto simp: s1_def)
  then obtain own2 where own2: "pt_tree s2 root own2" "\<And>a. in_use s1 a \<Longrightarrow> own2 a = own a"
    by (auto simp: mapped_def)
  have kept2: "kept own s1 s2" and ready2: "alloc_ready s2 fa2"
    and tr2: "tr s2 root ?path = Some (mk_pte F (user_raw u) flags)"
    using m page_path_user [OF assms(6,7)] by (auto simp: mapped_def)
  have c2: "own2 c = None" "in_use s2 c"
    using own2(2) t(4,5) kept2 by (auto simp: kept_def)
  have kp: "kptr_to s2 f = kptr_to s f" "kptr_to s1 f = kptr_to s f" for f
    using kept2 by (simp_all add: kept_def kptr_to_def s1_def)
  have s3': "s3 = write_obj (KPtr c) (OBytes bs) s2"
    by (simp add: s3 c_def)
  note w = write_data [OF ready2 own2(1) c2(1) s3']
  have new: "shows_byte F own2 s3 root x flags (bs ! (x mod 4096))" if "x div 4096 = unat (as_usize (page_base page)) div 4096" for x
    unfolding shows_byte_def
    using addr_path_page [OF that, folded page_path_addr] w(3,4) tr2 page_path_user [OF assms(6,7)] c2 t(6) assms(10)
    by (intro exI [of _ "user_raw u"] exI [of _ bs]) (simp add: s3' kp c_def [symmetric] direct_mapped_def)
  have keep: "shows_byte F own2 s3 root x fl b" if x: "x < 2 ^ 47" and b: "shows_byte F own s root x fl b" for x fl b
  proof -
    have tr1: "tr s1 root (addr_path x) = tr s root (addr_path x)"
      by (rule t(8) [OF addr_path_user [OF x]])
    note b1 = shows_byte_kept [OF b t(3) refl tr1]
    note b2 = mapped_shows_byte [OF m own2(2) x b1]
    show ?thesis
    proof (rule shows_byte_write [OF b2(2) ready2 own2(1) c2(1) x s3'])
      fix f assume "tr s2 root (addr_path x) = Some (mk_pte F f fl)" "frame_ok f"
      then show "kptr_inner (kptr_to s2 f) \<noteq> c"
        using shows_byte_frame [OF F b] b2(1) tr1 t(7) by (auto simp: kp)
    qed
  qed
  show thesis
    by (rule that [OF w(1,2) _ new keep]) (use kept2 in \<open>auto simp: s3 kept_def s1_def\<close>)
qed

section \<open>Loading a segment\<close>

lemma length_page_bytes:
  "voff + count \<le> 4096 \<Longrightarrow> foff + count \<le> length prog \<Longrightarrow> length (page_bytes prog foff voff count) = 4096"
  by (simp add: page_bytes_def Let_def)

lemma nth_page_bytes:
  assumes "voff + count \<le> 4096" and "foff + count \<le> length prog" and "j < 4096"
  shows "page_bytes prog foff voff count ! j = (if voff \<le> j \<and> j < voff + count then prog ! (foff + (j - voff)) else 0)"
  using assms by (auto simp: page_bytes_def Let_def nth_append)

lemma user_flags:
  assumes "ptf_spec F"
  shows "bits F (flag_union F (WRITABLE F) (USER_ACCESSIBLE F)) AND 0x80 = 0"
    and "frame_ok f \<Longrightarrow> mk_pte F f (segment_flags G F fl) \<noteq> 0"
proof -
  have b: "bits F (WRITABLE F) = 2" "bits F (USER_ACCESSIBLE F) = 4" "bits F (PRESENT F) = 1"
    using assms by (simp_all add: ptf_spec_def)
  then show "bits F (flag_union F (WRITABLE F) (USER_ACCESSIBLE F)) AND 0x80 = 0"
    by (simp add: ptf_specD(4) [OF assms])
  have "bit (bits F (segment_flags G F fl)) 0"
    by (simp add: segment_flags_def Let_def ptf_specD(4) [OF assms] b bit_or_iff)
  then show "mk_pte F f (segment_flags G F fl) \<noteq> 0" if "frame_ok f"
    using mk_pte_masks(2) [OF assms that, of "segment_flags G F fl"] by auto
qed

lemma segment_step:
  assumes F: "ptf_spec F" and "alloc_ready s fa" and "pt_tree s root own"
    and run: "segment_loop G F prog header (KPtr root) vend fend v f fa s = Return res"
    and "v < vend" and "vend \<le> 0xFFFF800000000000" and "unat f \<le> unat fend" and "unat fend \<le> length (prog_bytes prog)"
    and room: "room = 4096 - unat v mod 4096" and cnt: "cnt = min (unat fend - unat f) room"
  obtains fa1 s1 own1 v1 f1 where "segment_loop G F prog header (KPtr root) vend fend v1 f1 fa1 s1 = Return res"
    "alloc_ready s1 fa1" "pt_tree s1 root own1" "k_active s1 = k_active s" "unat v < 2 ^ 47" "unat v1 = unat v + room" "unat f1 = unat f + cnt"
    "\<And>x. x div 4096 = unat v div 4096 \<Longrightarrow> shows_byte F own1 s1 root x (segment_flags G F (p_flags header))
      (page_bytes (prog_bytes prog) (unat f) (unat v mod 4096) cnt ! (x mod 4096))"
    "\<And>x fl b. x < 2 ^ 47 \<Longrightarrow> shows_byte F own s root x fl b \<Longrightarrow> shows_byte F own1 s1 root x fl b"
proof -
  let ?pf = "flag_union F (WRITABLE F) (USER_ACCESSIBLE F)" and ?fl = "segment_flags G F (p_flags header)"
  from run assms(5) obtain u fa1 g page fa2 s2 o1 left room' v1 f1 where
    al: "alloc_user_frame fa (k_rt s) = Return (Some u, fa1, g)"
    and can: "canonical v" and page: "Page_containing_address (VirtAddr v) = Return page"
    and map: "map_to F (KPtr root) page (user_raw u) ?fl ?pf fa1 (s\<lparr>k_rt := g\<rparr>) = Return (Ok (), fa2, s2)"
    and off: "to_virtual (k_pmo s2) (frame_base (user_raw u)) = Return o1"
    and left: "sub_chk fend f = Return left" and room': "sub_chk PAGE_SIZE (v mod PAGE_SIZE) = Return room'"
    and v1: "add_chk v room' = Return v1" and f1: "add_chk f (min left room') = Return f1"
    and rest: "segment_loop G F prog header (KPtr root) vend fend v1 f1 fa2 (write_obj (KPtr (as_usize o1))
        (OBytes (page_bytes (prog_bytes prog) (unat f) (unat (v mod PAGE_SIZE)) (unat (min left room')))) s2) = Return res"
    by (subst (asm) segment_loop.simps)
       (auto simp: bindR_eq_Return Let_def VirtAddr_new_eq UserFrame_into_raw_def split: if_splits)
  have lo: "unat v < 2 ^ 47"
    using can assms(5,6) by (auto simp: canonical_def word_less_nat_alt word_le_nat_alt)
  from Page_containing_address_eq [of "VirtAddr v"] can page
  have page': "page_ok page" "unat (as_usize (page_base page)) = unat v div 4096 * 4096"
    by auto
  have lo': "unat (as_usize (page_base page)) < 2 ^ 47"
    unfolding page'(2) using lo by (rule le_less_trans [OF div_times_less_eq_dividend])
  note t = take_user_frame [OF assms(2,3) al refl refl]
  have pte: "mk_pte F (user_raw u) ?fl \<noteq> 0"
    using user_flags(2) [OF F] t(6) by (simp add: direct_mapped_def)
  have "k_pmo s2 = k_pmo s"
    using map_to_mapped [OF F t(1,2) page'(1) lo' pte user_flags(1) [OF F]] map by (auto simp: mapped_def kept_def)
  then have o1: "KPtr (as_usize o1) = kptr_to s (user_raw u)"
    using off direct_mapped_virtual(1) [OF t(6)] by auto
  have nums: "unat room' = room" "unat (v mod PAGE_SIZE) = unat v mod 4096" "unat (min left room') = cnt"
    using room_pos(1) [OF room'] left assms(7)
    by (auto simp: room cnt PAGE_SIZE_def unat_mod sub_chk_eq_Return unat_sub_le min_def word_le_nat_alt)
  let ?bs = "page_bytes (prog_bytes prog) (unat f) (unat v mod 4096) cnt"
  have len: "length ?bs = 4096"
    using assms(7,8) by (intro length_page_bytes) (auto simp: cnt room)
  obtain own3 where "alloc_ready (write_obj (kptr_to s (user_raw u)) (OBytes ?bs) s2) fa2"
    "pt_tree (write_obj (kptr_to s (user_raw u)) (OBytes ?bs) s2) root own3"
    "k_active (write_obj (kptr_to s (user_raw u)) (OBytes ?bs) s2) = k_active s"
    "\<And>x. x div 4096 = unat (as_usize (page_base page)) div 4096 \<Longrightarrow>
      shows_byte F own3 (write_obj (kptr_to s (user_raw u)) (OBytes ?bs) s2) root x ?fl (?bs ! (x mod 4096))"
    "\<And>x fl b. x < 2 ^ 47 \<Longrightarrow> shows_byte F own s root x fl b \<Longrightarrow>
      shows_byte F own3 (write_obj (kptr_to s (user_raw u)) (OBytes ?bs) s2) root x fl b"
    by (rule map_user_page [OF F assms(2,3) al map page'(1) lo' pte user_flags(1) [OF F] len refl]) blast
  then show thesis
    using that rest v1 f1 lo page'(2) unfolding o1 nums by (simp add: add_chk_eq_Return nums)
qed

lemma same_page:
  fixes v x :: nat
  assumes "v \<le> x" and "x < v + (4096 - v mod 4096)"
  shows "x div 4096 = v div 4096" and "x mod 4096 = v mod 4096 + (x - v)"
proof -
  have v: "v = 4096 * (v div 4096) + v mod 4096"
    by simp
  obtain q r where q: "v div 4096 = q" "v mod 4096 = r" by simp
  define d where "d = x - v"
  have x: "x = r + d + q * 4096" and lt: "r + d < 4096"
    using assms v unfolding q d_def by linarith+
  show "x div 4096 = v div 4096"
    unfolding x q(1) using lt by (simp add: div_mult_self1)
  show "x mod 4096 = v mod 4096 + (x - v)"
    unfolding d_def [symmetric] q(2) using lt by (simp add: x)
qed

text \<open>The byte of the program that belongs at an offset of a segment.\<close>

definition image_byte :: "u8 list \<Rightarrow> nat \<Rightarrow> nat \<Rightarrow> nat \<Rightarrow> u8" where
  "image_byte prog foff filesz d = (if d < filesz then prog ! (foff + d) else 0)"

lemma image_page:
  assumes "v \<le> x" and "x < v + room" and "room = 4096 - v mod 4096" and "cnt = min (fend - foff) room"
    and "foff \<le> fend" and "fend \<le> length prog"
  shows "page_bytes prog foff (v mod 4096) cnt ! (x mod 4096) = image_byte prog foff (fend - foff) (x - v)"
proof -
  note pg = same_page [OF assms(1) assms(2) [unfolded assms(3)]]
  have "cnt \<le> room" and "cnt \<le> fend - foff" and "v mod 4096 < 4096"
    by (simp_all add: assms(4))
  then have "v mod 4096 + cnt \<le> 4096" and "foff + cnt \<le> length prog"
    using assms(3,5,6) by linarith+
  note nth = nth_page_bytes [OF this, of "x mod 4096", simplified]
  have "x - v < cnt \<longleftrightarrow> x - v < fend - foff"
    using assms(1,2) unfolding assms(4) min_less_iff_conj by linarith
  then have cond: "v mod 4096 \<le> x mod 4096 \<and> x mod 4096 < v mod 4096 + cnt \<longleftrightarrow> x - v < fend - foff"
    unfolding pg(2) by linarith
  have "x mod 4096 - v mod 4096 = x - v"
    unfolding pg(2) by simp
  then show ?thesis
    unfolding nth cond image_byte_def by simp
qed

lemma image_next:
  assumes "v + room \<le> x" and "cnt = min (fend - foff) room" and "foff \<le> fend"
  shows "image_byte prog (foff + cnt) (fend - (foff + cnt)) (x - (v + room)) = image_byte prog foff (fend - foff) (x - v)"
proof (cases "fend - foff \<le> room")
  case False
  then have "cnt = room" "x - v = x - (v + room) + room"
    using assms by auto
  with assms show ?thesis
    by (auto simp: image_byte_def add.assoc add.commute)
qed (use assms in \<open>auto simp: image_byte_def\<close>)

lemma page_below:
  fixes v x :: nat
  assumes "x div 4096 = v div 4096" and "v < 2 ^ 47"
  shows "x < 2 ^ 47"
proof -
  have "v div 4096 < 2 ^ 35"
    using assms(2) by (simp add: div_less_iff_less_mult)
  then show ?thesis
    using assms(1) mult_div_mod_eq [of 4096 x] mod_less_divisor [of 4096 x] by simp
qed

lemma segment_loop_image:
  assumes F: "ptf_spec F" and "vend \<le> 0xFFFF800000000000" and "unat fend \<le> length (prog_bytes prog)"
    and "alloc_ready s fa" and "pt_tree s root own" and "unat f \<le> unat fend"
    and "segment_loop G F prog header (KPtr root) vend fend v f fa s = Return (fa', s')"
  shows "\<exists>own'. alloc_ready s' fa' \<and> pt_tree s' root own' \<and> k_active s' = k_active s
    \<and> (\<forall>x. unat v \<le> x \<and> x < unat vend \<longrightarrow> x < 2 ^ 47 \<and> shows_byte F own' s' root x (segment_flags G F (p_flags header))
        (image_byte (prog_bytes prog) (unat f) (unat fend - unat f) (x - unat v)))
    \<and> (\<forall>x fl b. x < 2 ^ 47 \<longrightarrow> shows_byte F own s root x fl b \<longrightarrow> shows_byte F own' s' root x fl b)"
  using assms(4-7)
proof (induction "unat vend - unat v" arbitrary: v f fa s own rule: less_induct)
  case less
  show ?case
  proof (cases "v < vend")
    case False
    then show ?thesis
      using less.prems by (subst (asm) segment_loop.simps) (auto simp: word_less_nat_alt)
  next
    case True
    define room where "room = 4096 - unat v mod 4096"
    define cnt where "cnt = min (unat fend - unat f) room"
    obtain fa1 s1 own1 v1 f1 where st: "segment_loop G F prog header (KPtr root) vend fend v1 f1 fa1 s1 = Return (fa', s')"
      "alloc_ready s1 fa1" "pt_tree s1 root own1" "k_active s1 = k_active s" "unat v < 2 ^ 47" "unat v1 = unat v + room" "unat f1 = unat f + cnt"
      and new: "\<And>x. x div 4096 = unat v div 4096 \<Longrightarrow> shows_byte F own1 s1 root x (segment_flags G F (p_flags header))
        (page_bytes (prog_bytes prog) (unat f) (unat v mod 4096) cnt ! (x mod 4096))"
      and keep: "\<And>x fl b. x < 2 ^ 47 \<Longrightarrow> shows_byte F own s root x fl b \<Longrightarrow> shows_byte F own1 s1 root x fl b"
      by (rule segment_step [OF F less.prems(1,2,4) True assms(2) less.prems(3) assms(3) room_def cnt_def]) blast
    have "unat vend - unat v1 < unat vend - unat v" and f1: "unat f1 \<le> unat fend"
      using st(6,7) True less.prems(3) min.cobounded1 [of "unat fend - unat f" room] mod_less_divisor [of 4096 "unat v"]
      unfolding room_def cnt_def word_less_nat_alt by linarith+
    from less.hyps [OF this(1) st(2,3) f1 st(1)]
    obtain own' where IH: "alloc_ready s' fa'" "pt_tree s' root own'" "k_active s' = k_active s1"
      "\<And>x. unat v1 \<le> x \<Longrightarrow> x < unat vend \<Longrightarrow> x < 2 ^ 47 \<and> shows_byte F own' s' root x (segment_flags G F (p_flags header))
        (image_byte (prog_bytes prog) (unat f1) (unat fend - unat f1) (x - unat v1))"
      "\<And>x fl b. x < 2 ^ 47 \<Longrightarrow> shows_byte F own1 s1 root x fl b \<Longrightarrow> shows_byte F own' s' root x fl b"
      by blast
    have "x < 2 ^ 47 \<and> shows_byte F own' s' root x (segment_flags G F (p_flags header))
        (image_byte (prog_bytes prog) (unat f) (unat fend - unat f) (x - unat v))" if x: "unat v \<le> x" "x < unat vend" for x
    proof (cases "x < unat v1")
      case True
      note pg = same_page [OF x(1) True [unfolded st(6) room_def]]
      have lt: "x < 2 ^ 47"
        by (rule page_below [OF pg(1) st(5)])
      show ?thesis
        using IH(5) [OF lt new [OF pg(1)]] lt
          image_page [OF x(1) True [unfolded st(6)] room_def cnt_def less.prems(3) assms(3)] by simp
    next
      case False
      then show ?thesis
        using IH(4) [of x] x(2) image_next [of "unat v" room x cnt "unat fend" "unat f" "prog_bytes prog", OF _ cnt_def less.prems(3)]
        by (simp add: st(6,7))
    qed
    then show ?thesis
      using IH(1-3) st(4) IH(5) keep by (intro exI [of _ own']) auto
  qed
qed

lemma Segment_load_image:
  assumes "ptf_spec F" and "alloc_ready s fa" and "pt_tree s root own"
    and "Segment_load G F prog header (KPtr root) fa s = Return (fa', s')"
  shows "\<exists>own'. alloc_ready s' fa' \<and> pt_tree s' root own' \<and> k_active s' = k_active s
    \<and> (\<forall>x. unat (p_vaddr header) \<le> x \<and> x < unat (p_vaddr header) + unat (p_memsz header) \<longrightarrow> x < 2 ^ 47
        \<and> shows_byte F own' s' root x (segment_flags G F (p_flags header))
          (image_byte (prog_bytes prog) (unat (p_offset header)) (unat (p_filesz header)) (x - unat (p_vaddr header))))
    \<and> (\<forall>x fl b. x < 2 ^ 47 \<longrightarrow> shows_byte F own s root x fl b \<longrightarrow> shows_byte F own' s' root x fl b)"
proof -
  from assms(4) obtain vend fend where b: "unat vend = unat (p_vaddr header) + unat (p_memsz header)"
    "unat fend = unat (p_offset header) + unat (p_filesz header)" "vend \<le> 0xFFFF800000000000" "unat fend \<le> length (prog_bytes prog)"
    and run: "segment_loop G F prog header (KPtr root) vend fend (p_vaddr header) (p_offset header) fa s = Return (fa', s')"
    by (auto simp: Segment_load_def bindR_eq_Return add_chk_eq_Return)
  from segment_loop_image [OF assms(1) b(3,4) assms(2,3) _ run] show ?thesis
    by (simp add: b(1,2))
qed

lemma load_segments_image:
  assumes "ptf_spec F" and "alloc_ready s fa" and "pt_tree s root own"
    and "load_segments G F prog (KPtr root) phdrs fa s = Return (fa', s')"
  shows "\<exists>own'. alloc_ready s' fa' \<and> pt_tree s' root own' \<and> k_active s' = k_active s
    \<and> (\<forall>ph \<in> set phdrs. p_type ph = PT_LOAD G \<longrightarrow>
        (\<forall>x. unat (p_vaddr ph) \<le> x \<and> x < unat (p_vaddr ph) + unat (p_memsz ph) \<longrightarrow> x < 2 ^ 47
          \<and> shows_byte F own' s' root x (segment_flags G F (p_flags ph))
            (image_byte (prog_bytes prog) (unat (p_offset ph)) (unat (p_filesz ph)) (x - unat (p_vaddr ph)))))
    \<and> (\<forall>x fl b. x < 2 ^ 47 \<longrightarrow> shows_byte F own s root x fl b \<longrightarrow> shows_byte F own' s' root x fl b)"
  using assms(2-4)
proof (induction phdrs arbitrary: fa s own)
  case (Cons ph phdrs)
  show ?case
  proof (cases "p_type ph = PT_LOAD G")
    case False
    with Cons.prems Cons.IH [OF Cons.prems(1,2)] show ?thesis
      by simp
  next
    case True
    with Cons.prems(3) obtain fa1 s1 where first: "Segment_load G F prog ph (KPtr root) fa s = Return (fa1, s1)"
      and rest: "load_segments G F prog (KPtr root) phdrs fa1 s1 = Return (fa', s')"
      by (auto simp: bindR_eq_Return)
    from Segment_load_image [OF assms(1) Cons.prems(1,2) first] obtain own1 where
      1: "alloc_ready s1 fa1" "pt_tree s1 root own1" "k_active s1 = k_active s"
      and new: "\<And>x. unat (p_vaddr ph) \<le> x \<Longrightarrow> x < unat (p_vaddr ph) + unat (p_memsz ph) \<Longrightarrow> x < 2 ^ 47
        \<and> shows_byte F own1 s1 root x (segment_flags G F (p_flags ph))
          (image_byte (prog_bytes prog) (unat (p_offset ph)) (unat (p_filesz ph)) (x - unat (p_vaddr ph)))"
      and keep: "\<And>x fl b. x < 2 ^ 47 \<Longrightarrow> shows_byte F own s root x fl b \<Longrightarrow> shows_byte F own1 s1 root x fl b"
      by blast
    from Cons.IH [OF 1(1,2) rest] obtain own' where "alloc_ready s' fa'" "pt_tree s' root own'" "k_active s' = k_active s1"
      "\<forall>ph \<in> set phdrs. p_type ph = PT_LOAD G \<longrightarrow>
        (\<forall>x. unat (p_vaddr ph) \<le> x \<and> x < unat (p_vaddr ph) + unat (p_memsz ph) \<longrightarrow> x < 2 ^ 47
          \<and> shows_byte F own' s' root x (segment_flags G F (p_flags ph))
            (image_byte (prog_bytes prog) (unat (p_offset ph)) (unat (p_filesz ph)) (x - unat (p_vaddr ph))))"
      "\<And>x fl b. x < 2 ^ 47 \<Longrightarrow> shows_byte F own1 s1 root x fl b \<Longrightarrow> shows_byte F own' s' root x fl b"
      by blast
    with 1(3) new keep show ?thesis
      by (intro exI [of _ own']) auto
  qed
qed auto

text \<open>The byte that user code sees at an address, and the flags of its page.\<close>

definition user_view :: "'f ptf \<Rightarrow> kstate \<Rightarrow> usize \<Rightarrow> nat \<Rightarrow> (u8 \<times> 'f) option" where
  "user_view F s root x = (case tr s root (addr_path x) of
     None \<Rightarrow> None
   | Some e \<Rightarrow> (case PageTableEntry_get F e of
       Return (Some (f, fl)) \<Rightarrow> (case k_heap s (kptr_inner (kptr_to s f)) of
         Some (OBytes bs) \<Rightarrow> if x mod 4096 < length bs then Some (bs ! (x mod 4096), fl) else None
       | _ \<Rightarrow> None)
     | _ \<Rightarrow> None))"

lemma tr_nonzero: "tr s a js = Some e \<Longrightarrow> e \<noteq> 0"
  by (induction js arbitrary: a) (auto simp: Let_def split: if_splits)

lemma shows_byte_view:
  assumes "ptf_spec F" and "shows_byte F own s root x fl b"
  shows "user_view F s root x = Some (b, fl)"
proof -
  from assms(2) obtain f bs where f: "tr s root (addr_path x) = Some (mk_pte F f fl)" "frame_ok f"
     "k_heap s (kptr_inner (kptr_to s f)) = Some (OBytes bs)" "x mod 4096 < length bs \<and> bs ! (x mod 4096) = b"
    by (auto simp: shows_byte_def)
  from get_mk_pte [OF assms(1) f(2) tr_nonzero [OF f(1)]] f show ?thesis
    by (simp add: user_view_def)
qed

section \<open>Starting the first thread\<close>

definition untyped_unused :: "kstate \<Rightarrow> bool" where
  "untyped_unused s \<longleftrightarrow> (\<forall>e \<in> set (entries (k_rt s)). state_of e = Untyped \<longrightarrow> count_of e = 0)"

lemma new_object:
  assumes "alloc_ready s fa" and "untyped_unused s"
    and "first_from (\<lambda>e. state_of e = Untyped) (unat (bump_index fa)) (entries (k_rt s)) = Some n" and f: "f = frame_no n"
    and s1: "s1 = write_obj (kptr_to s f) obj (s\<lparr>k_rt := set_entry (k_rt s) f (mk_entry Kernel 1)\<rparr>)"
  shows "alloc_untyped_frame fa (k_rt s) = Return (Some f, \<lparr>bump_index = of_nat n\<rparr>, k_rt s)"
    and "KPtr_new f obj s = Return (Ok (kptr_to s f), s1)"
    and "alloc_ready s1 \<lparr>bump_index = of_nat n\<rparr>" and "untyped_unused s1"
    and "entries (k_rt s1) = (entries (k_rt s))[n := mk_entry Kernel 1]"
    and "direct_mapped s f" and "n < length (entries (k_rt s))" and "frame_idx f = n"
proof -
  note r = assms(1) [unfolded alloc_ready_def]
  have n: "n < length (entries (k_rt s))" "n < 2 ^ 40" "state_of (entries (k_rt s) ! n) = Untyped"
    using assms(3) r by (auto simp: first_from_Some_iff)
  then have e: "entry (k_rt s) f = Some (entries (k_rt s) ! n)"
    by (simp add: f entry_def)
  show "alloc_untyped_frame fa (k_rt s) = Return (Some f, \<lparr>bump_index = of_nat n\<rparr>, k_rt s)"
    using r untyped_source.loop_eq [of "k_rt s" fa] assms(3) e
    by (simp add: alloc_untyped_frame_def set_entry_self f)
  show dm: "direct_mapped s f"
    using r n(1) by (simp add: f)
  have "count_of (entries (k_rt s) ! n) = 0"
    using assms(2) n by (simp add: untyped_unused_def)
  then show "KPtr_new f obj s = Return (Ok (kptr_to s f), s1)"
    using r dm e n(3) by (simp add: KPtr_new_eq s1)
  show "entries (k_rt s1) = (entries (k_rt s))[n := mk_entry Kernel 1]"
    using n(2) by (simp add: s1 f)
  then show "untyped_unused s1"
    using assms(2) by (auto simp: untyped_unused_def dest!: set_update_subset_insert [THEN subsetD])
  show "alloc_ready s1 \<lparr>bump_index = of_nat n\<rparr>"
    using r n by (auto simp: alloc_ready_def s1 f unat_of_nat_lt)
  show "n < length (entries (k_rt s))" "frame_idx f = n"
    using n by (simp_all add: f)
qed

lemma first_dispatch:
  assumes "rt_ok (k_rt s)" and "direct_mapped s ft" and "entry (k_rt s) ft = Some (mk_entry Kernel 1)"
    and "k_heap s (kptr_inner (kptr_to s ft)) = Some (OThread th)" and "active_cell s = Return (RefCell_new None)"
  obtains s' where "Thread_dispatch (kptr_to s ft) sv s = Return (Resumed (exec_ctx th), s')" "k_heap s' = k_heap s" "k_pmo s' = k_pmo s"
    "k_rt s' = set_entry (k_rt s) ft (mk_entry Kernel 2)" "active_cell s' = Return (RefCell_new (Some (kptr_to s ft)))"
proof -
  let ?c = "(RefCell_new None)\<lparr>refcell_mut := True\<rparr> :: KPtr option RefCell"
  let ?s1 = "set_active ?c s" and ?g = "set_entry (k_rt s) ft (mk_entry Kernel 2)"
  let ?s' = "set_active (end_borrow_mut (Some (kptr_to s ft)) ?c) (?s1\<lparr>k_rt := ?g\<rparr>)"
  have "kptr_to ?s1 ft = kptr_to s ft" and "direct_mapped ?s1 ft"
    using assms(2) by (simp_all add: kptr_to_def direct_mapped_def)
  with KPtr_clone_count [of ?s1 ft 1] assms(1,3)
  have clone: "KPtr_clone (kptr_to s ft) ?s1 = Return (kptr_to s ft, ?s1\<lparr>k_rt := ?g\<rparr>)"
    by (simp add: eval_nat_numeral)
  have "Thread_dispatch (kptr_to s ft) sv s = Return (Resumed (exec_ctx th), ?s')"
    using assms(4,5) clone by (simp add: Thread_dispatch_def borrow_mut_def RefCell_new_def Let_def deref_eqs)
  moreover have "active_cell ?s' = Return (RefCell_new (Some (kptr_to s ft)))"
    by (subst active_cell_set_active [of ?s1 ?c])
       (use active_cell_set_active [OF assms(5) refl, of ?c] in \<open>simp_all add: end_borrow_mut_def RefCell_new_def\<close>)
  ultimately show thesis
    by (intro that) simp_all
qed

lemma start_thread_running:
  assumes "alloc_ready s BumpAllocator_new" and "untyped_unused s" and "active_cell s = Return (RefCell_new None)"
    and "m < n" and "n < length (entries (k_rt s))" and "state_of (entries (k_rt s) ! m) = Untyped" and "state_of (entries (k_rt s) ! n) = Untyped"
  obtains ft fr th s' where "start_thread booter s = Return (Resumed booter :: 'a flow, s')" "exec_ctx th = booter"
    "\<And>i. i < 128 \<Longrightarrow> running s' ft fr 2 1 th i"
proof -
  let ?U = "\<lambda>e. state_of e = Untyped"
  obtain i where i: "first_from ?U (unat (bump_index BumpAllocator_new)) (entries (k_rt s)) = Some i" "i \<le> m"
    using assms(4-6) by (cases "first_from ?U 0 (entries (k_rt s))")
      (fastforce simp: BumpAllocator_new_def first_from_None_iff first_from_Some_iff not_less [symmetric])+
  define fr where "fr = frame_no i"
  define s1 where "s1 = write_obj (kptr_to s fr) (OCapTable RawCapEntry_default) (s\<lparr>k_rt := set_entry (k_rt s) fr (mk_entry Kernel 1)\<rparr>)"
  note o1 = new_object [OF assms(1,2) i(1) fr_def s1_def]
  have low: "i < 2 ^ 40" using o1(7) assms(1) by (simp add: alloc_ready_def)
  obtain j where j: "first_from ?U (unat (bump_index \<lparr>bump_index = of_nat i\<rparr>)) (entries (k_rt s1)) = Some j" "j \<noteq> i"
    using assms(4,5,7) i(2) low o1(5) by (cases "first_from ?U i (entries (k_rt s1))")
      (auto simp: first_from_None_iff first_from_Some_iff unat_of_nat_lt nth_list_update split: if_splits)
  define ft where "ft = frame_no j"
  define th where "th = Thread_new_with_ctx booter (kptr_to s fr)"
  define s2 where "s2 = write_obj (kptr_to s1 ft) (OThread th) (s1\<lparr>k_rt := set_entry (k_rt s1) ft (mk_entry Kernel 1)\<rparr>)"
  note o2 = new_object [OF o1(3,4) j(1) ft_def s2_def]
  have kp: "kptr_to s1 f = kptr_to s f" "kptr_to s2 f = kptr_to s f" for f
    by (simp_all add: kptr_to_def s1_def s2_def)
  have ne: "kptr_inner (kptr_to s fr) \<noteq> kptr_inner (kptr_to s ft)"
    using kptr_to_base [of s fr ft] o1(8) o2(8) j(2) by (auto dest: KPtr.expand)
  have heap: "k_heap s2 (kptr_inner (kptr_to s ft)) = Some (OThread th)"
    "k_heap s2 (kptr_inner (kptr_to s fr)) = Some (OCapTable RawCapEntry_default)"
    using ne by (simp_all add: s2_def s1_def kp)
  have ok: "rt_ok (k_rt s2)" "direct_mapped s2 fr" "direct_mapped s2 ft"
    using o1(6) o2(3,6) by (simp_all add: alloc_ready_def direct_mapped_def s1_def s2_def)
  have ent: "entry (k_rt s2) ft = Some (mk_entry Kernel 1)" "entry (k_rt s2) fr = Some (mk_entry Kernel 1)"
    using o1(7,8) o2(5,7,8) j(2) o1(5) by (simp_all add: entry_def)
  have "active_cell s2 = Return (RefCell_new None)"
    using assms(3) by (simp add: s1_def s2_def active_cell_def)
  with first_dispatch [OF ok(1,3) ent(1), of th NoopSaver_save_state] heap(1)
  obtain s' where run: "Thread_dispatch (kptr_to s ft) NoopSaver_save_state s2 = Return (Resumed booter :: 'a flow, s')"
    and s': "k_heap s' = k_heap s2" "k_pmo s' = k_pmo s2" "k_rt s' = set_entry (k_rt s2) ft (mk_entry Kernel 2)"
      "active_cell s' = Return (RefCell_new (Some (kptr_to s ft)))"
    by (auto simp: kp th_def Thread_new_with_ctx_def)
  have "RawCapEntry_default ! k = AtomicCell_new CapSlot_default" if "k < 128" for k
    using that by (simp add: RawCapEntry_default_def TrieEntry_default_def AtomicCapSlot_default_def)
  moreover have "kptr_to s' f = kptr_to s f" "direct_mapped s' f = direct_mapped s2 f" for f
    using s'(2) by (simp_all add: kptr_to_def direct_mapped_def s1_def s2_def)
  ultimately have "running s' ft fr 2 1 th k" if "k < 128" for k
    using that ok ent heap s' o1(8) o2(8) j(2) RawCapEntry_default_wf unat_of_nat_lt [of k]
    by (simp add: running_def RefCell_new_def cell_at_def deref_eqs get_at_def AtomicCell_new_def th_def Thread_new_with_ctx_def
        rt.look_put)
  moreover have "start_thread booter s = Return (Resumed booter :: 'a flow, s')"
    using o1(1,2) o2(1,2) run by (simp add: start_thread_def th_def kp)
  moreover have "exec_ctx th = booter"
    by (simp add: th_def Thread_new_with_ctx_def)
  ultimately show thesis
    using that by blast
qed

section \<open>Properties\<close>


text \<open>A kernel with a top-level table in frame 0 and seven free frames, and a program with one byte of code.\<close>

definition free7 :: "RetypeEntry list" where
  "free7 = (let e = mk_entry Untyped 0 in [e, e, e, e, e, e, e])"

definition boot_kstate :: kstate where
  "boot_kstate = write_obj (KPtr 0xFFFF800000000000) (OPageTable AnyPageTable_new)
     \<lparr>k_rt = \<lparr>once_value = Some \<lparr>retype_map = mk_entry Kernel 1 # free7\<rparr>, once_init = 2\<rparr>,
      k_heap = (\<lambda>_. None), k_active = \<lparr>once_value = Some \<lparr>core_values = [RefCell_new None]\<rparr>, once_init = 2\<rparr>,
      k_pmo = VirtAddr 0xFFFF800000000000, k_cr3 = 0\<rparr>"

definition boot_segment :: ProgramHeader where
  "boot_segment = \<lparr>p_type = 1, p_flags = 5, p_offset = 0, p_vaddr = 0x400000, p_filesz = 1, p_memsz = 2\<rparr>"

definition boot_elf :: goblin where
  "boot_elf = \<lparr>SIZEOF_EHDR = 64, ALIGN_PHDR = 8, PT_LOAD = 1, PF_R = 4, PF_W = 2, PF_X = 1,
     header_from_bytes = (\<lambda>_. \<lparr>e_entry = 0x400000, e_phoff = 0, e_phentsize = 56, e_phnum = 1\<rparr>),
     program_headers = (\<lambda>_ _ _. [boot_segment])\<rparr>"

definition boot_prog :: program where
  "boot_prog = \<lparr>prog_addr = 0, prog_bytes = [0x90]\<rparr>"

lemma boot_fields:
  "p_type boot_segment = 1" "p_flags boot_segment = 5" "p_offset boot_segment = 0" "p_vaddr boot_segment = 0x400000"
  "p_filesz boot_segment = 1" "p_memsz boot_segment = 2" "PT_LOAD boot_elf = 1" "PF_R boot_elf = 4" "prog_bytes boot_prog = [0x90]"
  by (simp_all add: boot_segment_def boot_elf_def boot_prog_def)

lemma boot_entries: "entries (k_rt boot_kstate) = mk_entry Kernel 1 # free7" "rt_ok (k_rt boot_kstate)" "length free7 = 7"
  by (simp_all add: free7_def Let_def boot_kstate_def entries_def rt_ok_def)

lemma boot_ready: "alloc_ready boot_kstate BumpAllocator_new"
proof -
  have "direct_mapped boot_kstate (frame_no i)" if "i < 8" for i
  proof -
    have "unat (of_nat (4096 * i) :: u64) = 4096 * i"
      using that by (intro unat_frame_no) simp
    moreover have "4096 * i < 2 ^ 52" and "4096 * i \<le> 32768"
      using that by simp_all
    ultimately show ?thesis
      unfolding direct_mapped_def frame_ok_def frame_no_def
      by (simp add: boot_kstate_def pmo_ok_def FRAME_SIZE_def word_mod_4096_iff)
  qed
  then show ?thesis
    by (simp add: alloc_ready_def boot_entries BumpAllocator_new_def)
qed

lemma boot_tree: "pt_tree boot_kstate 0xFFFF800000000000 [0xFFFF800000000000 \<mapsto> []]"
proof -
  have "in_use boot_kstate 0xFFFF800000000000"
    unfolding in_use_def
    by (rule exI [of _ "frame_no 0"], rule exI [of _ "mk_entry Kernel 1"])
       (use boot_ready in \<open>simp add: alloc_ready_def boot_entries entry_def free_entry_def; simp add: boot_kstate_def kptr_to_def frame_no_def\<close>)
  moreover have "pt_slot boot_kstate 0xFFFF800000000000 i = 0" for i
    by (simp add: pt_slot_def boot_kstate_def AnyPageTable_new_def)
  ultimately show ?thesis
    by (auto simp: pt_tree_def pt_node_ok_def next_table_def) (simp add: boot_kstate_def)
qed

text \<open>Mapping a page that has no mapping succeeds while three frames are free.\<close>

lemma map_to_succeeds:
  assumes "ptf_spec F" and "alloc_ready s fa" and "pt_tree s root own" and "page_ok page"
    and "unat (as_usize (page_base page)) < 2 ^ 47" and "mk_pte F frame flags \<noteq> 0" and "bits F pf AND 0x80 = 0"
    and "tr s root (page_path (page_base page)) = None" and "3 \<le> free_count s fa"
  obtains fa' s' where "map_to F (KPtr root) page frame flags pf fa s = Return (Ok (), fa', s')" "k_pmo s' = k_pmo s"
proof -
  from map_to_mapped [OF assms(1-7)] obtain r fa' s' where r: "map_to F (KPtr root) page frame flags pf fa s = Return (r, fa', s')"
    "outcome r None" "spends root (page_path (page_base page)) fa s r fa' s'" "k_pmo s' = k_pmo s"
    using assms(8) by (auto simp: mapped_def kept_def)
  have "r \<noteq> Err FrameAllocationError"
    using spends_three [OF _ page_path_user [OF assms(4,5)], of root fa s fa' s'] r(3) assms(9) by auto
  with r(2) have "r = Ok ()"
    by (auto simp: outcome_def split: result.splits MapperError.splits)
  with r show thesis
    using that by blast
qed

lemma boot_loads: "\<exists>fa' s'. load_segments boot_elf word_ptf boot_prog (KPtr 0xFFFF800000000000) [boot_segment] BumpAllocator_new boot_kstate
   = Return (fa', s')"
proof -
  let ?G = boot_elf and ?F = word_ptf and ?r = "0xFFFF800000000000 :: usize" and ?fl = "segment_flags boot_elf word_ptf 5"
  let ?pf = "flag_union ?F (WRITABLE ?F) (USER_ACCESSIBLE ?F)" and ?page = "Page (VirtAddr 0x400000)"
  let ?g = "set_entry (k_rt boot_kstate) (frame_no 1) (mk_entry User 1)"
  have first: "first_from free_entry 0 (entries (k_rt boot_kstate)) = Some 1"
    by (simp add: first_from_Some_iff boot_entries free7_def Let_def free_entry_def)
  have al: "alloc_user_frame BumpAllocator_new (k_rt boot_kstate) = Return (Some (UserFrame (frame_no 1)), \<lparr>bump_index = 1\<rparr>, ?g)"
    using user_source.loop_eq [of "k_rt boot_kstate" BumpAllocator_new] first boot_entries
    by (simp add: alloc_user_frame_def BumpAllocator_new_def)
  note t = take_user_frame [OF boot_ready boot_tree al refl refl]
  obtain p where p: "Page_containing_address (VirtAddr 0x400000) = Return p" "unat (as_usize (page_base p)) = 0x400000"
    using Page_containing_address_eq [of "VirtAddr 0x400000"] by (auto simp: canonical_def)
  from p(2) have "as_usize (page_base p) = 0x400000"
    by (intro word_eq_unatI) simp
  then have "p = ?page"
    by (simp add: Page.expand VirtAddr.expand)
  with p have page: "Page_containing_address (VirtAddr 0x400000) = Return ?page" "page_ok ?page"
    by (simp_all add: canonical_def page_ok_def PAGE_SIZE_def)
  have none: "tr (boot_kstate\<lparr>k_rt := ?g\<rparr>) ?r (page_path (page_base ?page)) = None"
    by (simp add: page_path_addr addr_path_def pt_slot_def boot_kstate_def AnyPageTable_new_def)
  have "free_count (boot_kstate\<lparr>k_rt := ?g\<rparr>) \<lparr>bump_index = 1\<rparr> = 6"
    by (simp add: free_count_def boot_entries free7_def Let_def free_entry_def)
  then have "3 \<le> free_count (boot_kstate\<lparr>k_rt := ?g\<rparr>) \<lparr>bump_index = 1\<rparr>"
    by simp
  moreover have "frame_ok (frame_no 1)"
    using t(6) by (simp add: direct_mapped_def)
  moreover have "unat (as_usize (page_base ?page)) < 2 ^ 47"
    by simp
  ultimately obtain fa' s' where map: "map_to ?F (KPtr ?r) ?page (frame_no 1) ?fl ?pf \<lparr>bump_index = 1\<rparr> (boot_kstate\<lparr>k_rt := ?g\<rparr>)
      = Return (Ok (), fa', s')" and "k_pmo s' = k_pmo (boot_kstate\<lparr>k_rt := ?g\<rparr>)"
    using map_to_succeeds [OF word_ptf_spec t(1,2) page(2) _ user_flags(2) [OF word_ptf_spec] user_flags(1) [OF word_ptf_spec] none]
    by metis
  then have pmo: "k_pmo s' = k_pmo boot_kstate"
    by simp
  obtain v where v: "to_virtual (k_pmo s') (frame_base (frame_no 1)) = Return v"
    using direct_mapped_virtual(1) [OF t(6)] pmo by auto
  have stop: "segment_loop ?G ?F boot_prog boot_segment (KPtr ?r) 0x400002 1 0x401000 1 fa s = Return (fa, s)" for fa s
    by (subst segment_loop.simps) simp
  have "\<exists>fa' s'. segment_loop ?G ?F boot_prog boot_segment (KPtr ?r) 0x400002 1 0x400000 0 BumpAllocator_new boot_kstate = Return (fa', s')"
    using al page(1) map v stop
    by (subst segment_loop.simps)
       (simp add: boot_fields VirtAddr_new_eq canonical_def UserFrame_into_raw_def sub_chk_def add_chk_def PAGE_SIZE_def Let_def min_def)
  then show ?thesis
    by (simp add: Segment_load_def boot_fields add_chk_def)
qed


text \<open>
  Boot starts the first thread: with two frames of untyped memory left, \<open>kmain\<close> creates the
  capability table and the thread and resumes the loaded program. The first system call of that
  thread, on any slot of its empty table, is answered with \<open>NotFound\<close>, and the second one stops
  the kernel.
\<close>

lemma boot_starts_the_first_thread:
  assumes "alloc_ready s BumpAllocator_new" and "untyped_unused s" and "active_cell s = Return (RefCell_new None)"
    and "m < n" and "n < length (entries (k_rt s))" and "state_of (entries (k_rt s) ! m) = Untyped" and "state_of (entries (k_rt s) ! n) = Untyped"
    and "i < 128"
  shows "\<exists>s1 s2. start_thread booter s = Return (Resumed booter :: 'a flow, s1)
    \<and> syscall_handle F N mu (of_nat i) b c d e f s1 = Return (Done (to_errno NotFound), s2)
    \<and> syscall_handle F N mu (of_nat i) b c d e f s2 = Panic UnwrapErr"
proof -
  obtain ft fr th s1 where start: "start_thread booter s = Return (Resumed booter :: 'a flow, s1)" and r1: "running s1 ft fr 2 1 th i"
    using start_thread_running [OF assms(1-7)] assms(8) by metis
  from syscall_empty_slot [OF r1, of F N mu b c d e f] obtain s2 where
    2: "syscall_handle F N mu (of_nat i) b c d e f s1 = Return (Done (to_errno NotFound), s2)" and r2: "running s2 ft fr 1 0 th i"
    by auto
  from syscall_empty_slot [OF r2, of F N mu b c d e f] start 2 show ?thesis
    by auto
qed

end
