(* ===== verification/First_Process.thy ===== *)
theory First_Process
  imports Prelude Paging Cells Retype_Entry Retyping Bump Page_Table Exec Kernel_State Kptr Caps Addrspace Component Boot
begin

text \<open>
  The first process as a whole: what \<open>Process::load\<close> and \<open>kmain\<close> leave behind when they do not
  panic. The lemmas follow the state through the creation of the address space, the segments,
  the stack, the window on physical memory and the first thread, and show that no part undoes
  what an earlier one has set up.
\<close>

unbundle bit_operations_syntax

section \<open>Growing an address space\<close>

text \<open>
  \<open>grows\<close>: every translation of user space and every byte behind it is kept, in a state with the same
  direct map and active thread.
\<close>

definition grows ::
    "'f ptf \<Rightarrow> usize \<Rightarrow> (usize \<Rightarrow> nat list option) \<Rightarrow> kstate \<Rightarrow> (usize \<Rightarrow> nat list option) \<Rightarrow> kstate \<Rightarrow> bool" where
  "grows F root own s own' s' \<longleftrightarrow> k_active s' = k_active s \<and> k_pmo s' = k_pmo s
     \<and> (\<forall>x e. x < 2 ^ 47 \<and> tr s root (addr_path x) = Some e \<longrightarrow> tr s' root (addr_path x) = Some e)
     \<and> (\<forall>x fl b. x < 2 ^ 47 \<and> shows_byte F own s root x fl b \<longrightarrow> shows_byte F own' s' root x fl b)"

lemma grows_refl: "grows F root own s own s"
  by (simp add: grows_def)

lemma grows_trans: "grows F root own s own1 s1 \<Longrightarrow> grows F root own1 s1 own2 s2 \<Longrightarrow> grows F root own s own2 s2"
  by (auto simp: grows_def)

lemma grows_tr: "grows F root own s own' s' \<Longrightarrow> x < 2 ^ 47 \<Longrightarrow> tr s root (addr_path x) = Some e \<Longrightarrow> tr s' root (addr_path x) = Some e"
  by (simp add: grows_def)

lemma map_page_grows:
  assumes "ptf_spec F" and "alloc_ready s fa" and "pt_tree s root own" and "page_ok page"
    and "unat (as_usize (page_base page)) < 2 ^ 47" and "mk_pte F frame flags \<noteq> 0" and "bits F pf AND 0x80 = 0"
    and "map_to F (KPtr root) page frame flags pf fa s = Return (Ok (), fa', s')"
  obtains own' where "alloc_ready s' fa'" "pt_tree s' root own'" "grows F root own s own' s'"
    "tr s' root (addr_path (unat (as_usize (page_base page)))) = Some (mk_pte F frame flags)"
proof -
  let ?path = "page_path (page_base page)"
  have m: "mapped root own ?path (mk_pte F frame flags) s (Ok ()) fa' s'"
    using map_to_mapped [OF assms(1-7)] assms(8) by auto
  then obtain own' where own': "pt_tree s' root own'" "\<And>a. in_use s a \<Longrightarrow> own' a = own a"
    by (auto simp: mapped_def)
  have k: "kept own s s'" "alloc_ready s' fa'" "tr s root ?path = None"
    "\<And>js. user_path js \<Longrightarrow> tr s' root js = (if js = ?path then Some (mk_pte F frame flags) else tr s root js)"
    using m by (auto simp: mapped_def outcome_def)
  have "tr s' root (addr_path x) = Some e" if "x < 2 ^ 47" "tr s root (addr_path x) = Some e" for x e
    using k(3) k(4) [OF addr_path_user [OF that(1)]] that(2) by auto
  then have "grows F root own s own' s'"
    using k(1) mapped_shows_byte(2) [OF m own'(2)] by (auto simp: grows_def kept_def)
  then show thesis
    using that k own'(1) page_path_user [OF assms(4,5)] by (simp add: page_path_addr)
qed

lemma take_frame_grows:
  assumes "alloc_ready s fa" and "pt_tree s root own" and "alloc_user_frame fa (k_rt s) = Return (Some u, fa', g)"
  shows "grows F root own s own (s\<lparr>k_rt := g\<rparr>)"
proof -
  note t = take_user_frame [OF assms refl refl]
  have tr: "tr (s\<lparr>k_rt := g\<rparr>) root (addr_path x) = tr s root (addr_path x)" if "x < 2 ^ 47" for x
    by (rule t(8) [OF addr_path_user [OF that]])
  have "shows_byte F own (s\<lparr>k_rt := g\<rparr>) root x fl b" if "x < 2 ^ 47" "shows_byte F own s root x fl b" for x fl b
    by (rule shows_byte_kept [OF that(2) t(3) refl tr [OF that(1)]])
  with tr show ?thesis
    by (simp add: grows_def)
qed

text \<open>A page at a start address below user space's end.\<close>

lemma Page_from_start_address_Return:
  assumes "Page_from_start_address (VirtAddr a) = Return page" and "canonical a"
  shows "page_ok page" and "as_usize (page_base page) = a"
proof -
  have "page = Page (VirtAddr a) \<and> a mod PAGE_SIZE = 0"
    using assms(1) by (cases "a mod PAGE_SIZE = 0") (simp_all add: Page_from_start_address_def Page_try_from_start_address_def)
  with assms(2) show "page_ok page" and "as_usize (page_base page) = a"
    by (simp_all add: page_ok_def)
qed

section \<open>The stack and the window on physical memory\<close>

definition stack_flags :: "'f ptf \<Rightarrow> 'f" where
  "stack_flags F = flag_union F (flag_union F (flag_union F (PRESENT F) (WRITABLE F)) (USER_ACCESSIBLE F)) (NO_EXECUTE F)"

lemma present_pte:
  assumes "ptf_spec F" and "bit (bits F fl) 0" and "frame_ok f"
  shows "mk_pte F f fl \<noteq> 0"
  using mk_pte_masks(2) [OF assms(1,3), of fl] assms(2) by auto

lemma present_bits:
  assumes "ptf_spec F"
  shows "bit (bits F (PRESENT F)) 0" and "bit (bits F (stack_flags F)) 0" and "bits F (PRESENT F) AND 0x80 = 0"
proof -
  have b: "bits F (PRESENT F) = 1"
    using assms by (simp add: ptf_spec_def)
  then show "bit (bits F (PRESENT F)) 0" and "bits F (PRESENT F) AND 0x80 = 0"
    by simp_all
  show "bit (bits F (stack_flags F)) 0"
    by (simp add: stack_flags_def ptf_specD(4) [OF assms] b bit_or_iff)
qed

lemma map_stack_grows:
  assumes F: "ptf_spec F" and top: "unat hi \<le> 2 ^ 47"
    and "alloc_ready s fa" and "pt_tree s root own" and "map_stack F (KPtr root) hi is fa s = Return (fa', s')"
  shows "\<exists>own'. alloc_ready s' fa' \<and> pt_tree s' root own' \<and> grows F root own s own' s'
    \<and> (\<forall>i \<in> set is. 4096 * (unat i + 1) \<le> unat hi
        \<and> (\<exists>f. tr s' root (addr_path (unat hi - 4096 * (unat i + 1))) = Some (mk_pte F f (stack_flags F))))"
  using assms(3-5)
proof (induction "is" arbitrary: fa s own)
  case (Cons i "is")
  from Cons.prems(3) obtain u fa1 g n below addr page fa2 s2 where
    al: "alloc_user_frame fa (k_rt s) = Return (Some u, fa1, g)"
    and ar: "add_chk i 1 = Return n" "mul_chk PAGE_SIZE n = Return below" "sub_chk hi below = Return addr" "canonical addr"
    and page: "Page_from_start_address (VirtAddr addr) = Return page"
    and map: "map_to F (KPtr root) page (user_raw u) (stack_flags F) (flag_union F (WRITABLE F) (USER_ACCESSIBLE F)) fa1 (s\<lparr>k_rt := g\<rparr>)
      = Return (Ok (), fa2, s2)"
    and rest: "map_stack F (KPtr root) hi is fa2 s2 = Return (fa', s')"
    by (auto simp: bindR_eq_Return Let_def VirtAddr_new_eq UserFrame_into_raw_def stack_flags_def split: if_splits)
  have num: "unat addr = unat hi - 4096 * (unat i + 1)" "4096 * (unat i + 1) \<le> unat hi"
    using ar(1-3) by (auto simp: add_chk_eq_Return mul_chk_eq_Return sub_chk_eq_Return unat_sub_le PAGE_SIZE_def word_le_nat_alt)
  then have lo: "unat addr < 2 ^ 47"
    using top by simp
  note pg = Page_from_start_address_Return [OF page ar(4)]
  note t = take_user_frame [OF Cons.prems(1,2) al refl refl]
  have "mk_pte F (user_raw u) (stack_flags F) \<noteq> 0"
    using t(6) present_pte [OF F present_bits(2) [OF F]] by (simp add: direct_mapped_def)
  from map_page_grows [OF F t(1,2) pg(1) _ this user_flags(1) [OF F] map] lo pg(2)
  obtain own2 where own2: "alloc_ready s2 fa2" "pt_tree s2 root own2" "grows F root own (s\<lparr>k_rt := g\<rparr>) own2 s2"
    and new: "tr s2 root (addr_path (unat addr)) = Some (mk_pte F (user_raw u) (stack_flags F))"
    by metis
  from Cons.IH [OF own2(1,2) rest] obtain own' where IH: "alloc_ready s' fa'" "pt_tree s' root own'" "grows F root own2 s2 own' s'"
    "\<forall>i \<in> set is. 4096 * (unat i + 1) \<le> unat hi
      \<and> (\<exists>f. tr s' root (addr_path (unat hi - 4096 * (unat i + 1))) = Some (mk_pte F f (stack_flags F)))"
    by blast
  have "grows F root own s own' s'"
    by (rule grows_trans [OF take_frame_grows [OF Cons.prems(1,2) al] grows_trans [OF own2(3) IH(3)]])
  moreover have "\<exists>f. tr s' root (addr_path (unat hi - 4096 * (unat i + 1))) = Some (mk_pte F f (stack_flags F))"
    using grows_tr [OF IH(3) lo new] by (auto simp: num(1))
  ultimately show ?case
    using IH num(2) by (intro exI [of _ own']) simp
qed (auto intro: grows_refl)

lemma map_untyped_grows:
  assumes F: "ptf_spec F" and low: "\<forall>i \<in> set is. unat i * 4096 + unat off < 0xFFFF800000000000"
    and "alloc_ready s fa" and "pt_tree s root own" and "map_untyped F (KPtr root) off is fa s = Return (fa', s')"
  shows "\<exists>own'. alloc_ready s' fa' \<and> pt_tree s' root own' \<and> grows F root own s own' s'
    \<and> (\<forall>i \<in> set is. unat off + 4096 * unat i < 2 ^ 47
        \<and> tr s' root (addr_path (unat off + 4096 * unat i)) = Some (mk_pte F (frame_no (unat i)) (PRESENT F)))"
  using assms(2-5)
proof (induction "is" arbitrary: fa s own)
  case (Cons i "is")
  from Cons.prems(4) obtain a frame b page fa2 s2 where
    ar: "mul_chk i FRAME_SIZE = Return a" "unat a < 2 ^ 52" "RawFrame_from_start_address (PhysAddr a) = Return frame"
      "add_chk (as_u64 (frame_base frame)) off = Return b" "canonical b"
    and page: "Page_from_start_address (VirtAddr b) = Return page"
    and map: "map_to F (KPtr root) page frame (PRESENT F) (PRESENT F) fa s = Return (Ok (), fa2, s2)"
    and rest: "map_untyped F (KPtr root) off is fa2 s2 = Return (fa', s')"
    by (auto simp: bindR_eq_Return VirtAddr_new_eq PhysAddr_new_eq split: if_splits)
  have a: "a mod FRAME_SIZE = 0" "frame = RawFrame (PhysAddr a)" "unat a = 4096 * unat i"
    using ar(1,3) by (cases "a mod FRAME_SIZE = 0"; simp add: RawFrame_from_start_address_def RawFrame_try_from_start_address_def
        mul_chk_eq_Return FRAME_SIZE_def)+
  have "a = of_nat (4096 * unat i)"
    unfolding a(3) [symmetric] by simp
  then have fr: "frame = frame_no (unat i)" "frame_ok frame"
    using a(1,2) ar(2) by (simp_all add: frame_no_def frame_ok_def)
  have b: "unat b = unat off + 4096 * unat i"
    using ar(4) a(2,3) by (simp add: add_chk_eq_Return)
  then have lo: "unat b < 2 ^ 47"
    using Cons.prems(1) ar(5) by (auto simp: canonical_def)
  note pg = Page_from_start_address_Return [OF page ar(5)]
  from map_page_grows [OF F Cons.prems(2,3) pg(1) _ present_pte [OF F present_bits(1) [OF F] fr(2)] present_bits(3) [OF F] map] lo pg(2)
  obtain own2 where own2: "alloc_ready s2 fa2" "pt_tree s2 root own2" "grows F root own s own2 s2"
    and new: "tr s2 root (addr_path (unat b)) = Some (mk_pte F frame (PRESENT F))"
    by metis
  from Cons.IH [OF _ own2(1,2) rest] Cons.prems(1)
  obtain own' where IH: "alloc_ready s' fa'" "pt_tree s' root own'" "grows F root own2 s2 own' s'"
    "\<forall>i \<in> set is. unat off + 4096 * unat i < 2 ^ 47
      \<and> tr s' root (addr_path (unat off + 4096 * unat i)) = Some (mk_pte F (frame_no (unat i)) (PRESENT F))"
    by auto
  have "tr s' root (addr_path (unat off + 4096 * unat i)) = Some (mk_pte F (frame_no (unat i)) (PRESENT F))"
    using grows_tr [OF IH(3) lo new] by (simp add: b fr(1))
  then show ?case
    using IH grows_trans [OF own2(3) IH(3)] lo by (intro exI [of _ own']) (simp add: b)
qed (auto intro: grows_refl)

section \<open>Objects in free frames\<close>

lemma free_write_grows:
  assumes "pt_tree s root own" and "\<not> in_use s c" and "\<And>b. b \<noteq> c \<Longrightarrow> k_heap s' b = k_heap s b"
    and "k_active s' = k_active s" and "k_pmo s' = k_pmo s" and "\<And>b. in_use s b \<Longrightarrow> in_use s' b"
  shows "pt_tree s' root own" and "grows F root own s own s'"
proof -
  have used: "in_use s b" if "own b \<noteq> None" for b
    using that pt_treeD [OF assms(1), of b] by (auto simp: pt_node_ok_def)
  have heap: "k_heap s' b = k_heap s b" if "own b \<noteq> None" for b
    using used [OF that] assms(2,3) by metis
  show "pt_tree s' root own"
    by (rule pt_tree_cong [OF assms(1,5) heap assms(6)])
  have tr: "tr s' root (addr_path x) = tr s root (addr_path x)" if "x < 2 ^ 47" for x
    by (rule tr_root_cong [OF assms(1,5) heap addr_path_user [OF that]])
  have "shows_byte F own s' root x fl b" if x: "x < 2 ^ 47" and "shows_byte F own s root x fl b" for x fl b
  proof -
    from that(2) obtain f bs where f: "tr s root (addr_path x) = Some (mk_pte F f fl)" "frame_ok f" "in_use s (kptr_inner (kptr_to s f))"
      "own (kptr_inner (kptr_to s f)) = None" "k_heap s (kptr_inner (kptr_to s f)) = Some (OBytes bs)" "x mod 4096 < length bs \<and> bs ! (x mod 4096) = b"
      by (auto simp: shows_byte_def)
    have "kptr_to s' f = kptr_to s f"
      using assms(5) by (simp add: kptr_to_def)
    moreover have "k_heap s' (kptr_inner (kptr_to s f)) = k_heap s (kptr_inner (kptr_to s f))"
      using f(3) assms(2,3) by metis
    ultimately show ?thesis
      unfolding shows_byte_def using f tr [OF x] assms(6) by (intro exI [of _ f] exI [of _ bs]) simp
  qed
  with tr assms(4,5) show "grows F root own s own s'"
    by (simp add: grows_def)
qed

lemma take_untyped:
  assumes "alloc_ready s fa" and "alloc_untyped_frame fa (k_rt s) = Return (Some f, fa', g)"
  obtains e where "g = k_rt s" "direct_mapped s f" "alloc_ready s fa'" "entry (k_rt s) f = Some e" "state_of e = Untyped"
proof -
  note r = assms(1) [unfolded alloc_ready_def]
  from assms(2) obtain n where n: "first_from (\<lambda>e. state_of e = Untyped) (unat (bump_index fa)) (entries (k_rt s)) = Some n"
    and u: "f = frame_no n" "fa' = \<lparr>bump_index = of_nat n\<rparr>" "g = set_entry (k_rt s) (frame_no n) (entries (k_rt s) ! n)"
    using untyped_source.loop_eq [of "k_rt s" fa] r by (auto simp: alloc_untyped_frame_def split: option.splits)
  have lt: "n < length (entries (k_rt s))" "n < 2 ^ 40" "state_of (entries (k_rt s) ! n) = Untyped"
    using n r by (auto simp: first_from_Some_iff)
  have e: "entry (k_rt s) f = Some (entries (k_rt s) ! n)"
    using lt by (simp add: u(1) entry_def)
  have "g = k_rt s"
    using r e by (simp add: u(3) set_entry_self u(1))
  moreover have "alloc_ready s fa'" and "direct_mapped s f"
    using r lt by (auto simp: alloc_ready_def u unat_of_nat_lt)
  ultimately show thesis
    using that e lt(3) by blast
qed

lemma in_use_set_entry:
  assumes "in_use s b" and "entry (k_rt s) f = Some e" and "\<not> free_entry x" and "k_pmo s' = k_pmo s"
    and "k_rt s' = set_entry (k_rt s) f x"
  shows "in_use s' b"
proof -
  from assms(1) obtain h y where h: "b = kptr_inner (kptr_to s h)" "direct_mapped s h" "entry (k_rt s) h = Some y" "\<not> free_entry y"
    by (auto simp: in_use_def)
  then show ?thesis
    unfolding in_use_def using assms(2-5)
    by (intro exI [of _ h] exI [of _ "if frame_idx h = frame_idx f then x else y"])
       (simp add: rt.look_put kptr_to_def direct_mapped_def)
qed

lemma KPtr_new_grows:
  assumes "alloc_ready s fa" and "direct_mapped s f" and "entry (k_rt s) f = Some e" and "KPtr_new f obj s = Return (Ok p, s')"
    and "pt_tree s root own"
  shows "p = kptr_to s f" and "k_heap s' = (k_heap s)(kptr_inner p \<mapsto> obj)" and "alloc_ready s' fa" and "k_active s' = k_active s"
    and "pt_tree s' root own" and "grows F root own s own s'" and "k_pmo s' = k_pmo s"
proof -
  note r = assms(1) [unfolded alloc_ready_def]
  have free: "state_of e = Untyped \<and> count_of e = 0"
    using assms(3,4) r by (auto simp: KPtr_new_def lift_rt_def try_into_kernel_eq bindR_eq_Return split: if_splits)
  then have eq: "p = kptr_to s f" "s' = write_obj (kptr_to s f) obj (s\<lparr>k_rt := set_entry (k_rt s) f (mk_entry Kernel 1)\<rparr>)"
    using KPtr_new_eq [OF _ assms(2,3), of obj] assms(4) r by auto
  then show "p = kptr_to s f" "k_heap s' = (k_heap s)(kptr_inner p \<mapsto> obj)" "k_active s' = k_active s" "k_pmo s' = k_pmo s"
    by simp_all
  show "alloc_ready s' fa"
    using r by (simp add: alloc_ready_def eq(2))
  have none: "\<not> in_use s (kptr_inner p)"
    using free_not_in_use [OF assms(2,3)] free by (simp add: eq(1) free_entry_def)
  have use: "in_use s' b" if "in_use s b" for b
    by (rule in_use_set_entry [OF that assms(3), of "mk_entry Kernel 1"]) (simp_all add: eq(2) free_entry_def)
  have heap: "k_heap s' b = k_heap s b" if "b \<noteq> kptr_inner p" for b
    using that by (simp add: eq)
  show "pt_tree s' root own" and "grows F root own s own s'"
    by (rule free_write_grows [OF assms(5) none heap _ _ use]; simp add: eq(2))+
qed

lemma start_thread_grows:
  assumes "alloc_ready s BumpAllocator_new" and "pt_tree s root own" and "active_cell s = Return (RefCell_new None)"
    and "start_thread booter s = Return (r, s')"
  obtains s2 p th where "r = Resumed booter" "grows F root own s own s2" "k_heap s' = k_heap s2" "k_pmo s' = k_pmo s2"
    "active_thread s' = Some p" "k_heap s' (kptr_inner p) = Some (OThread th)" "exec_ctx th = booter"
proof -
  from assms(4) obtain f1 fa1 g1 p1 s1 f2 fa2 g2 p2 s2 where
    1: "alloc_untyped_frame BumpAllocator_new (k_rt s) = Return (Some f1, fa1, g1)"
      "KPtr_new f1 (OCapTable RawCapEntry_default) (s\<lparr>k_rt := g1\<rparr>) = Return (Ok p1, s1)"
    and 2: "alloc_untyped_frame fa1 (k_rt s1) = Return (Some f2, fa2, g2)"
      "KPtr_new f2 (OThread (Thread_new_with_ctx booter p1)) (s1\<lparr>k_rt := g2\<rparr>) = Return (Ok p2, s2)"
    and disp: "Thread_dispatch p2 NoopSaver_save_state s2 = Return (r, s')"
    by (auto simp: start_thread_def bindR_eq_Return Let_def)
  obtain e1 where e1: "g1 = k_rt s" "direct_mapped s f1" "alloc_ready s fa1" "entry (k_rt s) f1 = Some e1"
    by (rule take_untyped [OF assms(1) 1(1)])
  have "s\<lparr>k_rt := g1\<rparr> = s" by (simp add: e1(1))
  note o1 = KPtr_new_grows [OF e1(3,2,4) 1(2) [unfolded this] assms(2)]
  obtain e2 where e2: "g2 = k_rt s1" "direct_mapped s1 f2" "alloc_ready s1 fa2" "entry (k_rt s1) f2 = Some e2"
    by (rule take_untyped [OF o1(3) 2(1)])
  have "s1\<lparr>k_rt := g2\<rparr> = s1" by (simp add: e2(1))
  note o2 = KPtr_new_grows [OF e2(3,2,4) 2(2) [unfolded this] o1(5)]
  have "active_thread s2 = None"
    using assms(3) o1(4) o2(4) by (simp add: active_thread_def active_cell_def RefCell_new_def)
  with Thread_dispatch_eq [OF disp] have d: "k_heap s' = k_heap s2" "k_pmo s' = k_pmo s2" "active_thread s' = Some p2"
    "\<exists>th. k_heap s' (kptr_inner p2) = Some (OThread th) \<and> r = Resumed (exec_ctx th)"
    by simp_all
  then show thesis
    using that [OF _ grows_trans [OF o1(6) o2(6)] d(1-3)] o2(2) by (auto simp: Thread_new_with_ctx_def)
qed

section \<open>Loading the process\<close>

text \<open>A kernel after its initialisation: nothing runs yet, and the current page table has a reference.\<close>

definition bootable :: "kstate \<Rightarrow> bool" where
  "bootable s \<longleftrightarrow> alloc_ready s BumpAllocator_new \<and> untyped_unused s \<and> active_cell s = Return (RefCell_new None)
     \<and> (\<exists>fc n t. current_raw (k_cr3 s) = Return fc \<and> direct_mapped s fc \<and> entry (k_rt s) fc = Some (mk_entry Kernel n)
       \<and> 0 < n \<and> n < 16382 \<and> k_heap s (kptr_inner (kptr_to s fc)) = Some (OPageTable t) \<and> length t = 512)"

lemma new_l4_tree:
  assumes F: "ptf_spec F" and boot: "bootable s" and al: "alloc_untyped_frame BumpAllocator_new (k_rt s) = Return (Some f, fa, g)"
    and new: "new_l4 F f (s\<lparr>k_rt := g\<rparr>) = Return (Ok p, s1)"
  shows "alloc_ready s1 fa" and "pt_tree s1 (kptr_inner p) [kptr_inner p \<mapsto> []]" and "k_active s1 = k_active s"
proof -
  from boot obtain fc n t where c: "current_raw (k_cr3 s) = Return fc" "direct_mapped s fc" "entry (k_rt s) fc = Some (mk_entry Kernel n)"
    "n < 16382" "k_heap s (kptr_inner (kptr_to s fc)) = Some (OPageTable t)" "length t = 512" and n: "0 < n"
    and ready: "alloc_ready s BumpAllocator_new" and unused: "untyped_unused s"
    by (auto simp: bootable_def)
  obtain e where e: "g = k_rt s" "direct_mapped s f" "alloc_ready s fa" "entry (k_rt s) f = Some e" "state_of e = Untyped"
    by (rule take_untyped [OF ready al])
  have "count_of e = 0"
    using unused e(4,5) by (auto simp: untyped_unused_def entry_def split: if_splits)
  then have "e = mk_entry Untyped 0"
    using e(5) by (simp add: entry_eqI)
  then have f: "entry (k_rt s) f = Some (mk_entry Untyped 0)"
    using e(4) by simp
  have rt: "rt_ok (k_rt s)" and id: "s\<lparr>k_rt := g\<rparr> = s"
    using ready by (simp_all add: alloc_ready_def e(1))
  note eq = new_l4_eq [OF F rt c(1-6) e(2) f]
  let ?t = "replicate 256 0 @ drop 256 t"
  let ?g = "set_entry (set_entry (k_rt s) fc (mk_entry Kernel (n - 1))) f (mk_entry Kernel 1)"
  have p: "p = kptr_to s f" and s1: "s1 = write_obj (kptr_to s f) (OPageTable ?t) (s\<lparr>k_rt := ?g\<rparr>)"
    using new n unfolding id eq(1) by auto
  show "k_active s1 = k_active s" by (simp add: s1)
  show "alloc_ready s1 fa"
    using e(3) by (simp add: alloc_ready_def s1)
  have root: "kptr_to s1 f = p" "direct_mapped s1 f" "k_heap s1 (kptr_inner p) = Some (OPageTable ?t)"
    using e(2) by (simp_all add: s1 p)
  have "entry (k_rt s1) f = Some (mk_entry Kernel 1)"
    using f c(3) eq(2) by (simp add: s1 rt.look_put)
  then have "in_use s1 (kptr_inner p)"
    unfolding in_use_def using root by (intro exI [of _ f] exI [of _ "mk_entry Kernel 1"]) (simp add: free_entry_def)
  moreover have "pt_slot s1 (kptr_inner p) i = 0" if "i < 256" for i
    using that root(3) by (simp add: pt_slot_def nth_append)
  ultimately show "pt_tree s1 (kptr_inner p) [kptr_inner p \<mapsto> []]"
    using root(3) c(6) by (auto simp: pt_tree_def pt_node_ok_def user_index_def next_table_def)
qed

definition process_memory ::
    "goblin \<Rightarrow> 'f ptf \<Rightarrow> program \<Rightarrow> usize \<Rightarrow> usize \<Rightarrow> usize \<Rightarrow> usize \<Rightarrow> kstate \<Rightarrow> bool" where
  "process_memory G F prog pages off len root s \<longleftrightarrow>
     (let header = header_from_bytes G (take (SIZEOF_EHDR G) (prog_bytes prog)) in
       \<forall>ph \<in> set (program_headers G (prog_bytes prog) (e_phoff header) (e_phnum header)). p_type ph = PT_LOAD G \<longrightarrow>
         (\<forall>d < unat (p_memsz ph). user_view F s root (unat (p_vaddr ph) + d)
           = Some (image_byte (prog_bytes prog) (unat (p_offset ph)) (unat (p_filesz ph)) d, segment_flags G F (p_flags ph))))
   \<and> (\<forall>i < unat pages. \<exists>f. tr s root (addr_path (unat off - 4096 * (i + 1))) = Some (mk_pte F f (stack_flags F)))
   \<and> (\<forall>i < unat len div 4096. tr s root (addr_path (unat off + 4096 * i)) = Some (mk_pte F (frame_no i) (PRESENT F)))"

lemma process_memoryI:
  assumes F: "ptf_spec F" and off: "unat off \<le> 2 ^ 47"
    and image: "\<forall>ph \<in> set (program_headers G (prog_bytes prog)
        (e_phoff (header_from_bytes G (take (SIZEOF_EHDR G) (prog_bytes prog))))
        (e_phnum (header_from_bytes G (take (SIZEOF_EHDR G) (prog_bytes prog))))). p_type ph = PT_LOAD G \<longrightarrow>
      (\<forall>x. unat (p_vaddr ph) \<le> x \<and> x < unat (p_vaddr ph) + unat (p_memsz ph) \<longrightarrow> x < 2 ^ 47
        \<and> shows_byte F own2 s2 root x (segment_flags G F (p_flags ph))
          (image_byte (prog_bytes prog) (unat (p_offset ph)) (unat (p_filesz ph)) (x - unat (p_vaddr ph))))"
    and g2: "grows F root own2 s2 own s"
    and stack: "\<And>i. i < unat pages \<Longrightarrow> 4096 * (i + 1) \<le> unat off
      \<and> (\<exists>f. tr s3 root (addr_path (unat off - 4096 * (i + 1))) = Some (mk_pte F f (stack_flags F)))"
    and g3: "grows F root own3 s3 own s"
    and window: "\<And>i. i < unat len div 4096 \<Longrightarrow> unat off + 4096 * i < 2 ^ 47
      \<and> tr s4 root (addr_path (unat off + 4096 * i)) = Some (mk_pte F (frame_no i) (PRESENT F))"
    and g4: "grows F root own4 s4 own s"
  shows "process_memory G F prog pages off len root s"
  unfolding process_memory_def Let_def
proof (intro conjI ballI impI allI)
  fix ph d
  assume "ph \<in> set (program_headers G (prog_bytes prog)
        (e_phoff (header_from_bytes G (take (SIZEOF_EHDR G) (prog_bytes prog))))
        (e_phnum (header_from_bytes G (take (SIZEOF_EHDR G) (prog_bytes prog)))))"
    and "p_type ph = PT_LOAD G" and d: "d < unat (p_memsz ph)"
  from image [rule_format, OF this(1,2), of "unat (p_vaddr ph) + d"] d g2
  have "shows_byte F own s root (unat (p_vaddr ph) + d) (segment_flags G F (p_flags ph))
        (image_byte (prog_bytes prog) (unat (p_offset ph)) (unat (p_filesz ph)) d)"
    by (simp add: grows_def)
  then show "user_view F s root (unat (p_vaddr ph) + d)
      = Some (image_byte (prog_bytes prog) (unat (p_offset ph)) (unat (p_filesz ph)) d, segment_flags G F (p_flags ph))"
    by (rule shows_byte_view [OF F])
next
  fix i assume "i < unat pages"
  from stack [OF this] obtain f where f: "4096 * (i + 1) \<le> unat off"
    "tr s3 root (addr_path (unat off - 4096 * (i + 1))) = Some (mk_pte F f (stack_flags F))" by blast
  then show "\<exists>f. tr s root (addr_path (unat off - 4096 * (i + 1))) = Some (mk_pte F f (stack_flags F))"
    using grows_tr [OF g3 _ f(2)] off by auto
next
  fix i assume "i < unat len div 4096"
  then show "tr s root (addr_path (unat off + 4096 * i)) = Some (mk_pte F (frame_no i) (PRESENT F))"
    using window grows_tr [OF g4] by blast
qed

lemma unat_below: "i < unat (x :: u64) \<Longrightarrow> unat (of_nat i :: u64) = i"
  using unat_lt [of x] by (subst unat_of_nat) simp

lemma Process_load_memory:
  assumes F: "ptf_spec F" and boot: "bootable s" and off: "unat off \<le> 2 ^ 47"
    and run: "Process_load G F prog pages off len s = Return (proc, s')"
  obtains own fa where "alloc_ready s' fa" "pt_tree s' (kptr_inner (proc_l4_table proc)) own" "k_active s' = k_active s"
    "proc_entry proc = e_entry (header_from_bytes G (take (SIZEOF_EHDR G) (prog_bytes prog)))" "proc_rsp proc = off"
    "\<And>s''. grows F (kptr_inner (proc_l4_table proc)) own s' own s'' \<Longrightarrow>
      process_memory G F prog pages off len (kptr_inner (proc_l4_table proc)) s''"
proof -
  define ehdr where "ehdr = take (SIZEOF_EHDR G) (prog_bytes prog)"
  define header where "header = header_from_bytes G ehdr"
  define phdrs where "phdrs = program_headers G (prog_bytes prog) (e_phoff header) (e_phnum header)"
  from run obtain hi f fa g p s1 fa2 s2 fa3 s3 fa4 where
    top: "add_chk off len = Return hi" "hi < 0xFFFF800000000000"
    and al: "alloc_untyped_frame BumpAllocator_new (k_rt s) = Return (Some f, fa, g)"
    and new: "new_l4 F f (s\<lparr>k_rt := g\<rparr>) = Return (Ok p, s1)"
    and seg: "load_segments G F prog p phdrs fa s1 = Return (fa2, s2)"
    and stk: "map_stack F p off (List.map of_nat [0..<unat pages]) fa2 s2 = Return (fa3, s3)"
    and unt: "map_untyped F p off (List.map of_nat [0..<unat (len div PAGE_SIZE)]) fa3 s3 = Return (fa4, s')"
    and proc: "proc = \<lparr>proc_entry = e_entry header, proc_rsp = off, proc_l4_table = p\<rparr>"
    by (auto simp: Process_load_def bindR_eq_Return Let_def ehdr_def header_def phdrs_def split: if_splits)
  obtain root where p: "p = KPtr root" by (cases p)
  note l4 = new_l4_tree [OF F boot al new, unfolded p KPtr.sel]
  from load_segments_image [OF F l4(1,2) seg [unfolded p]] obtain own2 where
    2: "alloc_ready s2 fa2" "pt_tree s2 root own2" "k_active s2 = k_active s1"
    and image: "\<forall>ph \<in> set phdrs. p_type ph = PT_LOAD G \<longrightarrow>
      (\<forall>x. unat (p_vaddr ph) \<le> x \<and> x < unat (p_vaddr ph) + unat (p_memsz ph) \<longrightarrow> x < 2 ^ 47
        \<and> shows_byte F own2 s2 root x (segment_flags G F (p_flags ph))
          (image_byte (prog_bytes prog) (unat (p_offset ph)) (unat (p_filesz ph)) (x - unat (p_vaddr ph))))"
    by blast
  from map_stack_grows [OF F off 2(1,2) stk [unfolded p]] obtain own3 where
    3: "alloc_ready s3 fa3" "pt_tree s3 root own3" "grows F root own2 s2 own3 s3"
    and stack: "\<And>i. i < unat pages \<Longrightarrow> 4096 * (i + 1) \<le> unat off
      \<and> (\<exists>f. tr s3 root (addr_path (unat off - 4096 * (i + 1))) = Some (mk_pte F f (stack_flags F)))"
    by (auto simp: unat_below)
  have hi: "unat hi = unat off + unat len" "unat hi < 0xFFFF800000000000"
    using top by (simp_all add: add_chk_eq_Return word_less_nat_alt)
  have len: "unat (len div PAGE_SIZE) = unat len div 4096"
    by (simp add: PAGE_SIZE_def unat_div)
  have low: "i * 4096 + unat off < 0xFFFF800000000000" if "i < unat len div 4096" for i
    using that hi by (simp add: less_eq_div_iff_mult_less_eq Suc_le_eq [symmetric])
  have below: "unat (of_nat i :: u64) = i" if "i < unat len div 4096" for i
    using unat_below [of i "len div PAGE_SIZE"] that len by simp
  have "\<forall>i \<in> set (List.map of_nat [0..<unat (len div PAGE_SIZE)]). unat (i :: u64) * 4096 + unat off < 0xFFFF800000000000"
    using low by (auto simp: below len)
  from map_untyped_grows [OF F this 3(1,2) unt [unfolded p]] obtain own4 where
    4: "alloc_ready s' fa4" "pt_tree s' root own4" "grows F root own3 s3 own4 s'"
    and window: "\<And>i. i < unat len div 4096 \<Longrightarrow> unat off + 4096 * i < 2 ^ 47
      \<and> tr s' root (addr_path (unat off + 4096 * i)) = Some (mk_pte F (frame_no i) (PRESENT F))"
    by (auto simp: below len)
  have "process_memory G F prog pages off len root s''" if "grows F root own4 s' own4 s''" for s''
    by (rule process_memoryI [OF F off image [unfolded phdrs_def header_def ehdr_def] grows_trans [OF 3(3) grows_trans [OF 4(3) that]]
          stack grows_trans [OF 4(3) that] window that])
  moreover have "k_active s' = k_active s"
    using l4(3) 2(3) 3(3) 4(3) by (simp add: grows_def)
  ultimately show thesis
    using that 4(1,2) by (simp add: proc p header_def ehdr_def)
qed

lemma user_view_cong:
  assumes "k_heap s' = k_heap s" and "k_pmo s' = k_pmo s"
  shows "tr s' root js = tr s root js" and "user_view F s' root x = user_view F s root x"
proof -
  have kp: "kptr_to s' f = kptr_to s f" for f
    using assms(2) by (simp add: kptr_to_def)
  show tr: "tr s' root js = tr s root js" for js root
    by (induction js arbitrary: root) (simp_all add: Let_def pt_slot_def assms(1) kp)
  show "user_view F s' root x = user_view F s root x"
    unfolding user_view_def tr kp assms(1) by (rule refl)
qed

lemma process_memory_cong:
  "k_heap s' = k_heap s \<Longrightarrow> k_pmo s' = k_pmo s \<Longrightarrow> process_memory G F prog pages off len root s' = process_memory G F prog pages off len root s"
  by (simp add: process_memory_def user_view_cong [of s' s])

lemma KPtr_frame_kptr_to:
  assumes "KPtr_frame p s = Return f"
  shows "kptr_to s f = p"
proof -
  have "unat (kptr_inner p) = unat (as_usize (k_pmo s)) + unat (as_u64 (frame_base f))"
    using assms by (auto simp: KPtr_frame_def bindR_eq_Return from_virtual_def VirtAddr_new_eq PhysAddr_new_eq sub_chk_eq_Return
        RawFrame_from_start_address_def RawFrame_try_from_start_address_def unat_sub_le word_le_nat_alt split: if_splits)
  then have "kptr_inner p = as_usize (k_pmo s) + as_u64 (frame_base f)"
    using unat_lt [of "kptr_inner p"] by (intro word_eq_unatI) (simp add: unat_word_ariths)
  then show ?thesis
    by (simp add: kptr_to_def KPtr.expand)
qed

lemma process_starts:
  assumes F: "ptf_spec F" and boot: "bootable s" and off: "unat off \<le> 2 ^ 47"
    and load: "Process_load G F prog pages off len s = Return (proc, s1)" and exec: "into_exec proc s1 = Return booter"
    and start: "start_thread booter s1 = Return (r, s')"
  shows "r = Resumed booter"
    and "control (ctx_regs booter) = \<lparr>rflags = 0x202, rsp = off, rip = e_entry (header_from_bytes G (take (SIZEOF_EHDR G) (prog_bytes prog)))\<rparr>"
    and "process_memory G F prog pages off len (kptr_inner (kptr_to s' (ctx_l4_frame booter))) s'"
    and "\<exists>p th. active_thread s' = Some p \<and> k_heap s' (kptr_inner p) = Some (OThread th) \<and> exec_ctx th = booter"
proof -
  obtain own fa where l: "alloc_ready s1 fa" "pt_tree s1 (kptr_inner (proc_l4_table proc)) own" "k_active s1 = k_active s"
    "proc_entry proc = e_entry (header_from_bytes G (take (SIZEOF_EHDR G) (prog_bytes prog)))" "proc_rsp proc = off"
    and mem: "\<And>s''. grows F (kptr_inner (proc_l4_table proc)) own s1 own s'' \<Longrightarrow>
      process_memory G F prog pages off len (kptr_inner (proc_l4_table proc)) s''"
    by (rule Process_load_memory [OF F boot off load]) blast
  from exec obtain f where f: "KPtr_frame (proc_l4_table proc) s1 = Return f"
    and booter: "booter = ExecCtx_new f (Regs_default\<lparr>control := \<lparr>rflags = 0x202, rsp = proc_rsp proc, rip = proc_entry proc\<rparr>\<rparr>)"
    by (auto simp: into_exec_def KPtr_into_raw_def bindR_eq_Return)
  have "alloc_ready s1 BumpAllocator_new" and "active_cell s1 = Return (RefCell_new None)"
    using l(1,3) boot by (simp_all add: alloc_ready_def BumpAllocator_new_def bootable_def active_cell_def)
  from start_thread_grows [OF this(1) l(2) this(2) start, of F]
  obtain s2 p th where st: "r = Resumed booter" "grows F (kptr_inner (proc_l4_table proc)) own s1 own s2" "k_heap s' = k_heap s2"
    "k_pmo s' = k_pmo s2" "active_thread s' = Some p" "k_heap s' (kptr_inner p) = Some (OThread th)" "exec_ctx th = booter"
    by metis
  have "kptr_to s' f = proc_l4_table proc"
    using KPtr_frame_kptr_to [OF f] st(2,4) by (simp add: kptr_to_def grows_def)
  with mem [OF st(2)] show "process_memory G F prog pages off len (kptr_inner (kptr_to s' (ctx_l4_frame booter))) s'"
    by (simp add: process_memory_cong [OF st(3,4)] booter ExecCtx_new_def)
  show "r = Resumed booter" "control (ctx_regs booter)
      = \<lparr>rflags = 0x202, rsp = off, rip = e_entry (header_from_bytes G (take (SIZEOF_EHDR G) (prog_bytes prog)))\<rparr>"
    by (simp_all add: st(1) booter ExecCtx_new_def l(4,5))
  show "\<exists>p th. active_thread s' = Some p \<and> k_heap s' (kptr_inner p) = Some (OThread th) \<and> exec_ctx th = booter"
    using st(5-7) by blast
qed

text \<open>The same for \<open>kmain\<close>, with its ten stack pages and the window on all of memory.\<close>

lemma kmain_starts_the_program:
  assumes "ptf_spec F" and "bootable s" and "kmain G F prog s = Return (r, s')"
  obtains ctx where "r = Resumed ctx" "rip (control (ctx_regs ctx)) = e_entry (header_from_bytes G (take (SIZEOF_EHDR G) (prog_bytes prog)))"
    "process_memory G F prog 10 UNTYPED_MEMORY_OFFSET (of_nat (4096 * length (entries (k_rt s)))) (kptr_inner (kptr_to s' (ctx_l4_frame ctx))) s'"
proof -
  have "memory_limit (k_rt s) = Return (of_nat (4096 * length (entries (k_rt s))))"
    using assms(2) by (intro memory_limit_eq) (auto simp: bootable_def alloc_ready_def)
  with assms(3) obtain proc s1 booter where
    1: "Process_load G F prog 10 UNTYPED_MEMORY_OFFSET (of_nat (4096 * length (entries (k_rt s)))) s = Return (proc, s1)"
    "into_exec proc s1 = Return booter" "start_thread booter s1 = Return (r, s')"
    by (auto simp: kmain_def bindR_eq_Return)
  have "unat UNTYPED_MEMORY_OFFSET \<le> 2 ^ 47"
    by (simp add: UNTYPED_MEMORY_OFFSET_def)
  from process_starts [OF assms(1,2) this 1] that show thesis
    by simp
qed

section \<open>Properties\<close>


definition empty_elf :: goblin where
  "empty_elf = boot_elf\<lparr>program_headers := (\<lambda>_ _ _. [])\<rparr>"

definition empty_prog :: program where
  "empty_prog = \<lparr>prog_addr = 0, prog_bytes = replicate 64 0\<rparr>"

lemma boot_kstate_bootable: "bootable boot_kstate"
proof -
  have "current_raw (k_cr3 boot_kstate) = Return (frame_no 0)"
    by (simp add: current_raw_def boot_kstate_def PhysAddr_new_eq RawFrame_from_start_address_def
        RawFrame_try_from_start_address_def FRAME_SIZE_def frame_no_def)
  moreover have "direct_mapped boot_kstate (frame_no 0)"
    using boot_ready by (simp add: alloc_ready_def boot_entries)
  moreover have "entry (k_rt boot_kstate) (frame_no 0) = Some (mk_entry Kernel 1)"
    by (simp add: entry_def boot_entries)
  moreover have "k_heap boot_kstate (kptr_inner (kptr_to boot_kstate (frame_no 0))) = Some (OPageTable AnyPageTable_new)"
    by (simp add: boot_kstate_def kptr_to_def frame_no_def)
  moreover have "untyped_unused boot_kstate"
    by (simp add: untyped_unused_def boot_entries free7_def Let_def)
  moreover have "active_cell boot_kstate = Return (RefCell_new None)"
    by (simp add: boot_kstate_def active_cell_def OnceCell_get_def OnceCell_get_unchecked_def CoreLocal_get_def)
  moreover have "length AnyPageTable_new = 512"
    by (simp add: AnyPageTable_new_def)
  ultimately show ?thesis
    unfolding bootable_def using boot_ready by (intro conjI exI [of _ "frame_no 0"] exI [of _ 1] exI [of _ AnyPageTable_new]) simp_all
qed

definition loaded_kstate :: kstate where
  "loaded_kstate = write_obj (kptr_to boot_kstate (frame_no 1)) (OPageTable (replicate 256 0 @ drop 256 AnyPageTable_new))
     (boot_kstate\<lparr>k_rt := set_entry (set_entry (k_rt boot_kstate) (frame_no 0) (mk_entry Kernel 0)) (frame_no 1) (mk_entry Kernel 1)\<rparr>)"

lemma empty_loads:
  "Process_load empty_elf word_ptf empty_prog 0 0x700000000000 0 boot_kstate
     = Return (\<lparr>proc_entry = 0x400000, proc_rsp = 0x700000000000, proc_l4_table = kptr_to boot_kstate (frame_no 1)\<rparr>, loaded_kstate)"
proof -
  have entry1: "entry (k_rt boot_kstate) (frame_no 1) = Some (mk_entry Untyped 0)"
    by (simp add: entry_def boot_entries free7_def Let_def)
  have "first_from (\<lambda>e. state_of e = Untyped) 0 (entries (k_rt boot_kstate)) = Some 1"
    by (simp add: first_from_Some_iff boot_entries free7_def Let_def)
  then have al: "alloc_untyped_frame BumpAllocator_new (k_rt boot_kstate) = Return (Some (frame_no 1), \<lparr>bump_index = 1\<rparr>, k_rt boot_kstate)"
    using untyped_source.loop_eq [of "k_rt boot_kstate" BumpAllocator_new] boot_entries set_entry_self [OF boot_entries(2) entry1]
    by (simp add: alloc_untyped_frame_def BumpAllocator_new_def free7_def Let_def)
  have dm: "direct_mapped boot_kstate (frame_no 0)" "direct_mapped boot_kstate (frame_no 1)"
    using boot_ready by (simp_all add: alloc_ready_def boot_entries)
  have cur: "current_raw (k_cr3 boot_kstate) = Return (frame_no 0)"
    by (simp add: current_raw_def boot_kstate_def PhysAddr_new_eq RawFrame_from_start_address_def
        RawFrame_try_from_start_address_def FRAME_SIZE_def frame_no_def)
  have new: "new_l4 word_ptf (frame_no 1) boot_kstate = Return (Ok (kptr_to boot_kstate (frame_no 1)), loaded_kstate)"
    using new_l4_eq(1) [OF word_ptf_spec boot_entries(2) cur dm(1) _ _ _ _ dm(2) entry1, of 1 AnyPageTable_new]
    by (simp add: loaded_kstate_def entry_def boot_entries AnyPageTable_new_def) (simp add: boot_kstate_def kptr_to_def frame_no_def AnyPageTable_new_def)
  show ?thesis
    using al new
    by (simp add: Process_load_def empty_elf_def empty_prog_def boot_elf_def PAGE_SIZE_def add_chk_def mul_chk_def)
qed

lemma loaded_simps:
  "alloc_ready loaded_kstate BumpAllocator_new" "untyped_unused loaded_kstate" "active_cell loaded_kstate = Return (RefCell_new None)"
  "entries (k_rt loaded_kstate) = mk_entry Kernel 0 # mk_entry Kernel 1 # tl free7"
  using boot_ready boot_kstate_bootable
  by (simp_all add: loaded_kstate_def alloc_ready_def bootable_def untyped_unused_def boot_entries free7_def Let_def active_cell_def)


end
