(* ===== verification/Loading.thy ===== *)
theory Loading
  imports Prelude Paging Cells Retype_Entry Retyping Bump Page_Table Exec Kernel_State Kptr Caps Addrspace Component Boot First_Process
begin

text \<open>
  Loading succeeds: when the headers of a program are sound, the pages of its segments, its stack
  and its window on memory do not overlap, and there is a free frame for every page that is
  copied and for every table of the address space, no step of \<open>Process::load\<close> and \<open>kmain\<close> panics. The
  memory that is needed is counted exactly, as the set of the paths of the tables.
\<close>

unbundle bit_operations_syntax

section \<open>The pages of a process\<close>

text \<open>Pages by their numbers: of the addresses from \<open>v\<close> below \<open>vend\<close>, of the loadable segments, of the stack and of the window.\<close>

definition page_range :: "nat \<Rightarrow> nat \<Rightarrow> nat list" where
  "page_range v vend = (if v < vend then [v div 4096..<(vend + 4095) div 4096] else [])"

definition segment_pages :: "ProgramHeader \<Rightarrow> nat list" where
  "segment_pages ph = page_range (unat (p_vaddr ph)) (unat (p_vaddr ph) + unat (p_memsz ph))"

definition load_pages :: "goblin \<Rightarrow> ProgramHeader list \<Rightarrow> nat list" where
  "load_pages G phdrs = concat (List.map segment_pages (filter (\<lambda>ph. p_type ph = PT_LOAD G) phdrs))"

definition stack_pages_of :: "usize \<Rightarrow> usize list \<Rightarrow> nat list" where
  "stack_pages_of hi is = List.map (\<lambda>i. unat hi div 4096 - (unat i + 1)) is"

definition window_pages :: "usize \<Rightarrow> u64 list \<Rightarrow> nat list" where
  "window_pages off is = List.map (\<lambda>i. unat off div 4096 + unat i) is"

text \<open>The tables below the top that pages need.\<close>

definition tables_for :: "nat list \<Rightarrow> nat list set" where
  "tables_for ps = (\<Union>p \<in> set ps. (\<lambda>k. take k (addr_path (4096 * p))) ` {1, 2, 3})"

lemma length_addr_path [simp]: "length (addr_path x) = 4"
  by (simp add: addr_path_def)

lemma tables_for_eq: "tables_for ps = (\<Union>p \<in> set ps. tables_of (addr_path (4096 * p)))"
  by (simp add: tables_for_def tables_of_path(4))

lemma tables_for_user:
  assumes "\<forall>p \<in> set ps. p < 2 ^ 35"
  shows "user_tables (tables_for ps)"
proof -
  have "user_tables (tables_of (addr_path (4096 * p)))" if "p \<in> set ps" for p
  proof (rule tables_of_path(3) [OF length_addr_path addr_path_user])
    show "4096 * p < 2 ^ 47"
      using assms that by auto
  qed
  then show ?thesis
    by (auto simp: tables_for_eq user_tables_def)
qed

lemma page_range_step:
  assumes "v < vend"
  shows "page_range v vend = v div 4096 # page_range (v + (4096 - v mod 4096)) vend"
proof -
  define q r where "q = v div 4096" and "r = v mod 4096"
  have v: "v = 4096 * q + r" "r < 4096"
    by (simp_all add: q_def r_def)
  have succ: "v + (4096 - r) = 4096 * (q + 1)"
    using v by simp
  have lt: "q < (vend + 4095) div 4096"
    using assms v by (simp add: less_eq_div_iff_mult_less_eq Suc_le_eq [symmetric])
  have "page_range (4096 * (q + 1)) vend = [Suc q..<(vend + 4095) div 4096]"
  proof (cases "4096 * (q + 1) < vend")
    case False
    then have "(vend + 4095) div 4096 < Suc (Suc q)"
      by (subst div_less_iff_less_mult) simp_all
    with False show ?thesis
      by (simp add: page_range_def)
  qed (simp add: page_range_def)
  then show ?thesis
    using assms lt unfolding r_def [symmetric] succ by (simp add: page_range_def upt_conv_Cons flip: q_def)
qed

section \<open>Enough memory\<close>

text \<open>
  \<open>provided\<close>: pages \<open>ps\<close> are still to be mapped, and there are frames for the tables of \<open>T\<close> that are missing
  and for \<open>m\<close> more pages.
\<close>

definition provided ::
    "kstate \<Rightarrow> BumpAllocator \<Rightarrow> usize \<Rightarrow> (usize \<Rightarrow> nat list option) \<Rightarrow> nat list set \<Rightarrow> nat list \<Rightarrow> nat \<Rightarrow> bool" where
  "provided s fa root own T ps m \<longleftrightarrow> alloc_ready s fa \<and> pt_tree s root own \<and> untyped_unused s
     \<and> user_tables T \<and> tables_for ps \<subseteq> T \<and> distinct ps
     \<and> (\<forall>p \<in> set ps. p < 2 ^ 35 \<and> tr s root (addr_path (4096 * p)) = None)
     \<and> missing s root T + m \<le> free_count s fa"

lemma no_new_untyped_unused: "untyped_unused s \<Longrightarrow> no_new_untyped s s' \<Longrightarrow> untyped_unused s'"
  by (auto simp: untyped_unused_def no_new_untyped_def)

lemma page_numbers:
  assumes "p < 2 ^ 35" and "q < 2 ^ 35" and "addr_path (4096 * p) = addr_path (4096 * q)"
  shows "p = q"
  using addr_path_inj [OF assms(3)] assms(1,2) by simp

lemma map_provided:
  assumes F: "ptf_spec F" and prov: "provided s fa root own T (p # ps) m"
    and page: "page_ok page" "unat (as_usize (page_base page)) = 4096 * p"
    and "mk_pte F frame flags \<noteq> 0" and "bits F pf AND 0x80 = 0"
  obtains fa' s' own' where "map_to F (KPtr root) page frame flags pf fa s = Return (Ok (), fa', s')"
    "provided s' fa' root own' T ps m" "k_pmo s' = k_pmo s" "\<And>a. in_use s a \<Longrightarrow> own' a = own a"
proof -
  note pr = prov [unfolded provided_def]
  have path: "page_path (page_base page) = addr_path (4096 * p)"
    by (simp add: page_path_addr page(2))
  have lo: "unat (as_usize (page_base page)) < 2 ^ 47"
    using pr by (simp add: page(2))
  from map_to_mapped [OF F _ _ page(1) lo assms(5,6), of s fa root own, unfolded path] pr
  obtain r fa' s' where run: "map_to F (KPtr root) page frame flags pf fa s = Return (r, fa', s')"
    and m: "mapped root own (addr_path (4096 * p)) (mk_pte F frame flags) s r fa' s'"
    and sp: "spends root (addr_path (4096 * p)) fa s r fa' s'"
    by blast
  have "tables_of (addr_path (4096 * p)) \<subseteq> T"
    using pr by (auto simp: tables_for_eq)
  then have cost: "missing s' root T + free_count s fa \<le> missing s root T + free_count s' fa'"
    "r \<noteq> Err FrameAllocationError"
    using sp pr by (auto simp: spends_def)
  have "outcome r None"
    using m pr by (simp add: mapped_def)
  then have r: "r = Ok ()"
    using cost(2) by (auto simp: outcome_def split: result.splits MapperError.splits)
  from m obtain own' where own': "pt_tree s' root own'" "\<And>a. in_use s a \<Longrightarrow> own' a = own a"
    and k: "kept own s s'" "alloc_ready s' fa'"
    and tr: "\<And>js. user_path js \<Longrightarrow> tr s' root js = (if js = addr_path (4096 * p) then Some (mk_pte F frame flags) else tr s root js)"
    by (auto simp: mapped_def r)
  have "tr s' root (addr_path (4096 * q)) = None" if q: "q \<in> set ps" for q
  proof -
    have "q < 2 ^ 35" "p < 2 ^ 35" "q \<noteq> p"
      using pr q by auto
    then show ?thesis
      using tr [OF addr_path_user, of "4096 * q"] page_numbers [of q p] pr q by auto
  qed
  moreover have "untyped_unused s'"
    using pr k(1) no_new_untyped_unused by (auto simp: kept_def)
  ultimately have "provided s' fa' root own' T ps m"
    using pr own'(1) k(2) cost(1) by (auto simp: provided_def tables_for_def)
  then show thesis
    using that [OF run [unfolded r] _ _ own'(2)] k(1) by (simp add: kept_def)
qed

lemma pt_node_heap_cong:
  assumes "k_heap s' = k_heap s" and "k_pmo s' = k_pmo s"
  shows "pt_node s' a \<rho> = pt_node s a \<rho>"
proof -
  have "pt_slot s' b i = pt_slot s b i" for b i
    by (rule pt_slot_cong) (simp add: assms(1))
  then show ?thesis
    by (induction \<rho> arbitrary: a) (simp_all add: next_table_cong [OF assms(2)] split: option.splits)
qed

lemma take_provided:
  assumes prov: "provided s fa root own T ps (Suc m)"
  obtains u fa' g where "alloc_user_frame fa (k_rt s) = Return (Some u, fa', g)" "provided (s\<lparr>k_rt := g\<rparr>) fa' root own T ps m"
    "direct_mapped s (user_raw u)" "in_use (s\<lparr>k_rt := g\<rparr>) (kptr_inner (kptr_to s (user_raw u)))" "own (kptr_inner (kptr_to s (user_raw u))) = None"
proof -
  note pr = prov [unfolded provided_def]
  have r: "rt_ok (k_rt s)" "unat (bump_index fa) \<le> length (entries (k_rt s))" "length (entries (k_rt s)) < 2 ^ 40"
    using pr by (auto simp: alloc_ready_def)
  obtain n where n: "first_from free_entry (unat (bump_index fa)) (entries (k_rt s)) = Some n"
    using free_count_None [of fa s] pr by (cases "first_from free_entry (unat (bump_index fa)) (entries (k_rt s))") auto
  let ?fa = "\<lparr>bump_index = of_nat n\<rparr> :: BumpAllocator" and ?g = "set_entry (k_rt s) (frame_no n) (mk_entry User 1)"
  have al: "alloc_user_frame fa (k_rt s) = Return (Some (UserFrame (frame_no n)), ?fa, ?g)"
    using user_source.loop_eq [of "k_rt s" fa] r n by (simp add: alloc_user_frame_def)
  note t = take_user_frame [OF _ _ al refl refl, of root own]
  have lt: "n < 2 ^ 40"
    using n r(3) by (simp add: first_from_Some_iff)
  have "free_count s fa = Suc (free_count (s\<lparr>k_rt := ?g\<rparr>) ?fa)"
    using free_filter_Some [OF n, of "mk_entry User 1"] lt by (simp add: free_count_def unat_of_nat_lt free_entry_def)
  moreover have "missing (s\<lparr>k_rt := ?g\<rparr>) root T = missing s root T"
    unfolding missing_def by (subst pt_node_heap_cong [of _ s]) simp_all
  moreover have "untyped_unused (s\<lparr>k_rt := ?g\<rparr>)"
    using pr t(3) no_new_untyped_unused by (auto simp: kept_def)
  moreover have "tr (s\<lparr>k_rt := ?g\<rparr>) root (addr_path (4096 * p)) = None" if "p \<in> set ps" for p
    using t(8) [OF _ _ addr_path_user, of "4096 * p"] pr that by simp
  ultimately have "provided (s\<lparr>k_rt := ?g\<rparr>) ?fa root own T ps m"
    using pr t(1,2) by (auto simp: provided_def)
  then show thesis
    using that [OF al] t(4-6) pr by simp
qed

text \<open>Writing the bytes of a page.\<close>

lemma own_keeps_nodes:
  assumes "pt_tree s root own" and "k_pmo s' = k_pmo s" and "\<And>b. own b \<noteq> None \<Longrightarrow> k_heap s' b = k_heap s b"
  shows "keeps_nodes root s s'"
proof -
  have "pt_node s' b \<sigma> = Some c" if "own b = Some \<rho>" "user_path (\<rho> @ \<sigma> @ ks)" "ks \<noteq> []" "pt_node s b \<sigma> = Some c" for b \<rho> \<sigma> ks c
    using that
  proof (induction \<sigma> arbitrary: b \<rho>)
    case (Cons k \<sigma>)
    from Cons.prems(4) obtain d where d: "next_table s (pt_slot s b k) = Some d" "pt_node s d \<sigma> = Some c"
      by (auto split: option.splits)
    have slot: "pt_slot s' b k = pt_slot s b k"
      using assms(3) Cons.prems(1) by (intro pt_slot_cong) simp
    have "own d = Some (\<rho> @ [k])"
      using pt_tree_child [OF assms(1) Cons.prems(1) _ _ d(1)] Cons.prems(2,3) by simp
    with Cons.IH [of d "\<rho> @ [k]"] Cons.prems(2,3) d show ?case
      by (simp add: slot next_table_cong [OF assms(2)])
  qed simp
  from this [of root "[]"] assms(1) show ?thesis
    by (auto simp: keeps_nodes_def pt_tree_def)
qed

lemma write_provided:
  assumes prov: "provided s fa root own T ps m" and "own c = None"
  shows "provided (write_obj (KPtr c) obj s) fa root own T ps m"
proof -
  note pr = prov [unfolded provided_def]
  have "alloc_ready s fa" and "pt_tree s root own"
    using pr by simp_all
  note w = write_data [where obj = obj, OF this assms(2) refl]
  have "keeps_nodes root s (write_obj (KPtr c) obj s)"
    by (rule own_keeps_nodes [of _ _ own]) (use pr assms(2) in auto)
  then have "missing (write_obj (KPtr c) obj s) root T \<le> missing s root T"
    using pr missing_mono(2) by blast
  moreover have "tr (write_obj (KPtr c) obj s) root (addr_path (4096 * p)) = None" if "p \<in> set ps" for p
    using w(4) [OF addr_path_user, of "4096 * p"] pr that by simp
  ultimately show ?thesis
    using pr w(1,2) by (auto simp: provided_def free_count_def untyped_unused_def)
qed

section \<open>The loops return\<close>

lemma unat_of_nat_64: "i < 2 ^ 64 \<Longrightarrow> unat (of_nat i :: u64) = i"
  by (subst unat_of_nat) simp

lemma checked_nat:
  fixes a b :: u64
  shows "unat a + unat b < 2 ^ 64 \<Longrightarrow> add_chk a b = Return (of_nat (unat a + unat b))"
    and "unat a * unat b < 2 ^ 64 \<Longrightarrow> mul_chk a b = Return (of_nat (unat a * unat b))"
    and "unat b \<le> unat a \<Longrightarrow> sub_chk a b = Return (a - b) \<and> unat (a - b) = unat a - unat b"
  unfolding add_chk_eq_Return mul_chk_eq_Return
  by (rule unat_of_nat_64, assumption)+ (simp add: sub_chk_eq_Return word_le_nat_alt unat_sub_le)

lemma page_start:
  assumes "unat a = 4096 * p" and "p < 2 ^ 35"
  shows "VirtAddr_new a = Return (VirtAddr a)" and "Page_from_start_address (VirtAddr a) = Return (Page (VirtAddr a))"
    and "page_ok (Page (VirtAddr a))" and "unat (as_usize (page_base (Page (VirtAddr a)))) = 4096 * p"
  using assms by (simp_all add: VirtAddr_new_eq canonical_def Page_from_start_address_def Page_try_from_start_address_def
      page_ok_def PAGE_SIZE_def word_mod_4096_iff)

lemma user_page_provided:
  assumes F: "ptf_spec F" and prov: "provided s fa root own T (p # ps) (Suc m)"
    and page: "page_ok page" "unat (as_usize (page_base page)) = 4096 * p"
    and "\<And>f. frame_ok f \<Longrightarrow> mk_pte F f flags \<noteq> 0" and "bits F pf AND 0x80 = 0"
  obtains u fa1 g fa2 s2 own2 where "alloc_user_frame fa (k_rt s) = Return (Some u, fa1, g)"
    "map_to F (KPtr root) page (user_raw u) flags pf fa1 (s\<lparr>k_rt := g\<rparr>) = Return (Ok (), fa2, s2)"
    "provided s2 fa2 root own2 T ps m" "k_pmo s2 = k_pmo s" "direct_mapped s (user_raw u)" "own2 (kptr_inner (kptr_to s (user_raw u))) = None"
proof -
  obtain u fa1 g where t: "alloc_user_frame fa (k_rt s) = Return (Some u, fa1, g)" "provided (s\<lparr>k_rt := g\<rparr>) fa1 root own T (p # ps) m"
    "direct_mapped s (user_raw u)" "in_use (s\<lparr>k_rt := g\<rparr>) (kptr_inner (kptr_to s (user_raw u)))" "own (kptr_inner (kptr_to s (user_raw u))) = None"
    by (rule take_provided [OF prov])
  have pte: "mk_pte F (user_raw u) flags \<noteq> 0"
    using assms(5) t(3) by (simp add: direct_mapped_def)
  obtain fa2 s2 own2 where "map_to F (KPtr root) page (user_raw u) flags pf fa1 (s\<lparr>k_rt := g\<rparr>) = Return (Ok (), fa2, s2)"
    "provided s2 fa2 root own2 T ps m" "k_pmo s2 = k_pmo (s\<lparr>k_rt := g\<rparr>)" "\<And>a. in_use (s\<lparr>k_rt := g\<rparr>) a \<Longrightarrow> own2 a = own a"
    by (rule map_provided [OF F t(2) page pte assms(6)]) blast
  with t that show thesis
    by simp
qed

lemma map_stack_provided:
  assumes F: "ptf_spec F" and hi: "unat hi mod 4096 = 0" and "\<forall>i \<in> set is. unat i < unat hi div 4096"
    and "provided s fa root own T (stack_pages_of hi is @ ps) (length is + m)"
  shows "\<exists>fa' s' own'. map_stack F (KPtr root) hi is fa s = Return (fa', s') \<and> provided s' fa' root own' T ps m"
  using assms(3,4)
proof (induction "is" arbitrary: fa s own)
  case (Cons i "is")
  let ?p = "unat hi div 4096 - (unat i + 1)"
  have i: "unat i + 1 \<le> unat hi div 4096"
    using Cons.prems(1) by simp
  then have fit: "4096 * (unat i + 1) \<le> unat hi"
    by (simp add: less_eq_div_iff_mult_less_eq)
  have "unat (1 :: u64) = 1" and "unat PAGE_SIZE = 4096"
    by (simp_all add: PAGE_SIZE_def)
  then have n: "add_chk i 1 = Return (of_nat (unat i + 1))"
    and below: "mul_chk PAGE_SIZE (of_nat (unat i + 1)) = Return (of_nat (4096 * (unat i + 1)) :: u64)"
    and unb: "unat (of_nat (4096 * (unat i + 1)) :: u64) = 4096 * (unat i + 1)"
    using fit unat_lt [of hi] checked_nat(1) [of i 1] by (auto simp: mul_chk_eq_Return unat_of_nat_64 simp del: of_nat_add of_nat_mult of_nat_Suc)
  define addr where "addr = hi - of_nat (4096 * (unat i + 1))"
  have addr: "sub_chk hi (of_nat (4096 * (unat i + 1))) = Return addr" "unat addr = unat hi - 4096 * (unat i + 1)"
    using checked_nat(3) [of "of_nat (4096 * (unat i + 1))" hi] fit unfolding unb addr_def by simp_all
  have "unat hi = 4096 * (unat hi div 4096)"
    using hi by (metis mult_div_mod_eq add.right_neutral)
  then have num: "unat addr = 4096 * ?p"
    unfolding addr(2) diff_mult_distrib2 by simp
  have prov: "provided s fa root own T (?p # (stack_pages_of hi is @ ps)) (Suc (length is + m))"
    using Cons.prems(2) by (simp add: stack_pages_of_def)
  then have "?p < 2 ^ 35"
    by (simp add: provided_def)
  note pg = page_start [OF num this]
  obtain u fa1 g fa2 s2 own2 where st: "alloc_user_frame fa (k_rt s) = Return (Some u, fa1, g)"
    "map_to F (KPtr root) (Page (VirtAddr addr)) (user_raw u) (stack_flags F) (flag_union F (WRITABLE F) (USER_ACCESSIBLE F)) fa1 (s\<lparr>k_rt := g\<rparr>)
      = Return (Ok (), fa2, s2)" "provided s2 fa2 root own2 T (stack_pages_of hi is @ ps) (length is + m)"
    by (rule user_page_provided [OF F prov pg(3,4) present_pte [OF F present_bits(2) [OF F]] user_flags(1) [OF F]]) blast
  have "map_stack F (KPtr root) hi (i # is) fa s = map_stack F (KPtr root) hi is fa2 s2"
    using st(1,2) n below addr(1) pg by (simp add: UserFrame_into_raw_def stack_flags_def)
  with Cons.IH [OF _ st(3)] Cons.prems(1) show ?case
    by simp
qed (auto simp: stack_pages_of_def)

lemma map_untyped_provided:
  assumes F: "ptf_spec F" and off: "unat off mod 4096 = 0"
    and "provided s fa root own T (window_pages off is @ ps) m"
  shows "\<exists>fa' s' own'. map_untyped F (KPtr root) off is fa s = Return (fa', s') \<and> provided s' fa' root own' T ps m"
  using assms(3)
proof (induction "is" arbitrary: fa s own)
  case (Cons i "is")
  let ?p = "unat off div 4096 + unat i"
  have prov: "provided s fa root own T (?p # (window_pages off is @ ps)) m"
    using Cons.prems by (simp add: window_pages_def)
  then have p: "?p < 2 ^ 35"
    by (simp add: provided_def)
  define a where "a = (of_nat (4096 * unat i) :: u64)"
  have una: "unat a = 4096 * unat i"
    unfolding a_def using p by (intro unat_of_nat_64) simp
  then have a: "mul_chk i FRAME_SIZE = Return a" "PhysAddr_new a = Return (PhysAddr a)"
    "RawFrame_from_start_address (PhysAddr a) = Return (RawFrame (PhysAddr a))" "frame_ok (RawFrame (PhysAddr a))"
    using p by (simp_all add: mul_chk_eq_Return FRAME_SIZE_def PhysAddr_new_eq RawFrame_from_start_address_def
        RawFrame_try_from_start_address_def word_mod_4096_iff frame_ok_def)
  have "unat off = 4096 * (unat off div 4096)"
    using off by (metis mult_div_mod_eq add.right_neutral)
  then have sum: "unat a + unat off = 4096 * ?p"
    unfolding una by (metis add.commute distrib_left)
  then have b: "add_chk a off = Return (of_nat (4096 * ?p))" "unat (of_nat (4096 * ?p) :: u64) = 4096 * ?p"
    using checked_nat(1) [of a off] p by (simp_all add: unat_of_nat_64 del: of_nat_mult of_nat_add)
  note pg = page_start [OF b(2) p]
  obtain fa2 s2 own2 where st: "map_to F (KPtr root) (Page (VirtAddr (of_nat (4096 * ?p)))) (RawFrame (PhysAddr a)) (PRESENT F) (PRESENT F) fa s
      = Return (Ok (), fa2, s2)" "provided s2 fa2 root own2 T (window_pages off is @ ps) m"
    by (rule map_provided [OF F prov pg(3,4) present_pte [OF F present_bits(1) [OF F] a(4)] present_bits(3) [OF F]]) blast
  have "map_untyped F (KPtr root) off (i # is) fa s = map_untyped F (KPtr root) off is fa2 s2"
    using a b(1) pg st(1) by (simp del: of_nat_mult of_nat_add)
  with Cons.IH [OF st(2)] show ?case
    by simp
qed (auto simp: window_pages_def)

text \<open>The numbers of one round of the loop over the pages of a segment.\<close>

lemma segment_round:
  fixes v f vend fend :: u64
  assumes "v < vend" and "unat vend \<le> 2 ^ 47" and "unat f \<le> unat fend"
  obtains left room v1 f1 where "sub_chk fend f = Return left" "sub_chk PAGE_SIZE (v mod PAGE_SIZE) = Return room"
    "add_chk v room = Return v1" "add_chk f (min left room) = Return f1" "unat v1 = unat v + (4096 - unat v mod 4096)" "unat f1 \<le> unat fend"
proof -
  have m: "unat (v mod PAGE_SIZE) = unat v mod 4096" "unat PAGE_SIZE = 4096"
    by (simp_all add: PAGE_SIZE_def unat_mod)
  define left where "left = fend - f"
  define room where "room = PAGE_SIZE - v mod PAGE_SIZE"
  have left: "sub_chk fend f = Return left" "unat left = unat fend - unat f"
    using checked_nat(3) [OF assms(3)] by (simp_all add: left_def)
  have "unat (v mod PAGE_SIZE) \<le> unat PAGE_SIZE"
    unfolding m by (simp add: less_imp_le)
  from checked_nat(3) [OF this] have room: "sub_chk PAGE_SIZE (v mod PAGE_SIZE) = Return room" "unat room = 4096 - unat v mod 4096"
    unfolding m by (simp_all add: room_def)
  have v: "unat v + unat room < 2 ^ 64"
    using assms(1,2) room(2) by (simp add: word_less_nat_alt)
  have mn: "unat (min left room) \<le> unat fend - unat f"
    using left(2) by (simp add: min_def word_le_nat_alt)
  then have f: "unat f + unat (min left room) \<le> unat fend"
    using assms(3) by simp
  then have f': "unat f + unat (min left room) < 2 ^ 64"
    using unat_lt [of fend] by simp
  have "unat (of_nat (unat v + unat room) :: u64) = unat v + (4096 - unat v mod 4096)"
    using unat_of_nat_64 [OF v] by (simp only: room(2))
  moreover have "unat (of_nat (unat f + unat (min left room)) :: u64) \<le> unat fend"
    unfolding unat_of_nat_64 [OF f'] by (rule f)
  ultimately show thesis
    by (rule that [OF left(1) room(1) checked_nat(1) [OF v] checked_nat(1) [OF f']])
qed

lemma segment_loop_provided:
  assumes F: "ptf_spec F" and vend: "unat vend \<le> 2 ^ 47" and "p_flags header AND PF_R G \<noteq> 0"
    and "unat f \<le> unat fend" and "provided s fa root own T (page_range (unat v) (unat vend) @ ps) (length (page_range (unat v) (unat vend)) + m)"
  shows "\<exists>fa' s' own'. segment_loop G F prog header (KPtr root) vend fend v f fa s = Return (fa', s') \<and> provided s' fa' root own' T ps m"
  using assms(4,5)
proof (induction "unat vend - unat v" arbitrary: v f fa s own rule: less_induct)
  case less
  show ?case
  proof (cases "v < vend")
    case False
    with less.prems(2) show ?thesis
      by (subst segment_loop.simps) (auto simp: page_range_def word_less_nat_alt)
  next
    case True
    then have lt: "unat v < unat vend"
      by (simp add: word_less_nat_alt)
    obtain left room v1 f1 where num: "sub_chk fend f = Return left" "sub_chk PAGE_SIZE (v mod PAGE_SIZE) = Return room"
      "add_chk v room = Return v1" "add_chk f (min left room) = Return f1"
      and v1: "unat v1 = unat v + (4096 - unat v mod 4096)" and f1: "unat f1 \<le> unat fend"
      by (rule segment_round [OF True vend less.prems(1)]) blast
    define qs where "qs = page_range (unat v1) (unat vend)"
    have prov: "provided s fa root own T (unat v div 4096 # (qs @ ps)) (Suc (length qs + m))"
      using less.prems(2) unfolding qs_def v1 page_range_step [OF lt] by simp
    have can: "canonical v"
      using lt vend by (simp add: canonical_def)
    from Page_containing_address_eq [of "VirtAddr v"] can obtain page where page: "Page_containing_address (VirtAddr v) = Return page"
      "page_ok page" "unat (as_usize (page_base page)) = 4096 * (unat v div 4096)"
      by (auto simp: mult.commute)
    obtain u fa1 g fa2 s2 own2 where st: "alloc_user_frame fa (k_rt s) = Return (Some u, fa1, g)"
      "map_to F (KPtr root) page (user_raw u) (segment_flags G F (p_flags header)) (flag_union F (WRITABLE F) (USER_ACCESSIBLE F)) fa1 (s\<lparr>k_rt := g\<rparr>)
        = Return (Ok (), fa2, s2)" "provided s2 fa2 root own2 T (qs @ ps) (length qs + m)" "k_pmo s2 = k_pmo s"
      "direct_mapped s (user_raw u)" "own2 (kptr_inner (kptr_to s (user_raw u))) = None"
      by (rule user_page_provided [OF F prov page(2,3) user_flags(2) [OF F] user_flags(1) [OF F]]) blast
    define s3 where "s3 = write_obj (KPtr (kptr_inner (kptr_to s (user_raw u)))) (OBytes (page_bytes (prog_bytes prog) (unat f)
      (unat (v mod PAGE_SIZE)) (unat (min left room)))) s2"
    have run: "segment_loop G F prog header (KPtr root) vend fend v f fa s = segment_loop G F prog header (KPtr root) vend fend v1 f1 fa2 s3"
      by (subst segment_loop.simps)
         (use True st(1,2,4) can page(1) num assms(3) direct_mapped_virtual(1) [OF st(5)] in
           \<open>simp add: VirtAddr_new_eq UserFrame_into_raw_def s3_def Let_def assert_def\<close>)
    have "unat vend - unat v1 < unat vend - unat v"
      unfolding v1 using lt mod_less_divisor [of 4096 "unat v"] by linarith
    moreover have "provided s3 fa2 root own2 T (page_range (unat v1) (unat vend) @ ps) (length (page_range (unat v1) (unat vend)) + m)"
      unfolding s3_def using write_provided [OF st(3,6)] by (simp add: qs_def)
    ultimately show ?thesis
      unfolding run using f1 by (intro less.hyps)
  qed
qed

text \<open>A header that \<open>Segment::load\<close> accepts, with its pages in the lower half.\<close>

definition segment_ok :: "goblin \<Rightarrow> program \<Rightarrow> ProgramHeader \<Rightarrow> bool" where
  "segment_ok G prog ph \<longleftrightarrow> unat (p_vaddr ph) + unat (p_memsz ph) \<le> 2 ^ 47 \<and> unat (p_offset ph) + unat (p_filesz ph) < 2 ^ 64
     \<and> unat (p_offset ph) + unat (p_filesz ph) \<le> length (prog_bytes prog) \<and> p_filesz ph \<le> p_memsz ph \<and> p_flags ph AND PF_R G \<noteq> 0"

lemma Segment_load_provided:
  assumes F: "ptf_spec F" and ok: "segment_ok G prog ph" and prov: "provided s fa root own T (segment_pages ph @ ps) (length (segment_pages ph) + m)"
  shows "\<exists>fa' s' own'. Segment_load G F prog ph (KPtr root) fa s = Return (fa', s') \<and> provided s' fa' root own' T ps m"
proof -
  note k = ok [unfolded segment_ok_def]
  define vend fend where "vend = (of_nat (unat (p_vaddr ph) + unat (p_memsz ph)) :: u64)"
    and "fend = (of_nat (unat (p_offset ph) + unat (p_filesz ph)) :: u64)"
  have v: "unat vend = unat (p_vaddr ph) + unat (p_memsz ph)" and f: "unat fend = unat (p_offset ph) + unat (p_filesz ph)"
    unfolding vend_def fend_def by (rule unat_of_nat_64, use k in simp)+
  have "\<exists>fa' s' own'. segment_loop G F prog ph (KPtr root) vend fend (p_vaddr ph) (p_offset ph) fa s = Return (fa', s')
      \<and> provided s' fa' root own' T ps m"
    using k prov by (intro segment_loop_provided [OF F, where m = m]) (auto simp: v f segment_pages_def)
  moreover have "add_chk (p_vaddr ph) (p_memsz ph) = Return vend" "add_chk (p_offset ph) (p_filesz ph) = Return fend" "vend \<le> 0xFFFF800000000000"
    using v f k by (simp_all add: add_chk_eq_Return word_le_nat_alt)
  ultimately show ?thesis
    using k f by (simp add: Segment_load_def assert_def)
qed

lemma load_segments_provided:
  assumes F: "ptf_spec F" and "\<forall>ph \<in> set phdrs. p_type ph = PT_LOAD G \<longrightarrow> segment_ok G prog ph"
    and "provided s fa root own T (load_pages G phdrs @ ps) (length (load_pages G phdrs) + m)"
  shows "\<exists>fa' s' own'. load_segments G F prog (KPtr root) phdrs fa s = Return (fa', s') \<and> provided s' fa' root own' T ps m"
  using assms(2,3)
proof (induction phdrs arbitrary: fa s own)
  case (Cons ph phdrs)
  show ?case
  proof (cases "p_type ph = PT_LOAD G")
    case True
    have "\<exists>fa' s' own'. Segment_load G F prog ph (KPtr root) fa s = Return (fa', s')
        \<and> provided s' fa' root own' T (load_pages G phdrs @ ps) (length (load_pages G phdrs) + m)"
      using Cons.prems True by (intro Segment_load_provided [OF F]) (simp_all add: load_pages_def add.assoc)
    then obtain fa1 s1 own1 where "Segment_load G F prog ph (KPtr root) fa s = Return (fa1, s1)"
      "provided s1 fa1 root own1 T (load_pages G phdrs @ ps) (length (load_pages G phdrs) + m)"
      by blast
    with Cons.IH [of s1 fa1 own1] Cons.prems(1) True show ?thesis
      by simp
  next
    case False
    with Cons.IH [of s fa own] Cons.prems show ?thesis
      by (simp add: load_pages_def)
  qed
qed (auto simp: load_pages_def)

section \<open>The whole process\<close>

definition elf_header :: "goblin \<Rightarrow> program \<Rightarrow> ElfHeader" where
  "elf_header G prog = header_from_bytes G (take (SIZEOF_EHDR G) (prog_bytes prog))"

definition elf_segments :: "goblin \<Rightarrow> program \<Rightarrow> ProgramHeader list" where
  "elf_segments G prog = program_headers G (prog_bytes prog) (e_phoff (elf_header G prog)) (e_phnum (elf_header G prog))"

text \<open>A program whose headers lie inside the file, aligned, and whose loadable segments are sound.\<close>

definition loadable :: "goblin \<Rightarrow> program \<Rightarrow> bool" where
  "loadable G prog \<longleftrightarrow> prog_addr prog mod 16 = 0 \<and> SIZEOF_EHDR G \<le> length (prog_bytes prog)
     \<and> (prog_addr prog + e_phoff (elf_header G prog)) mod ALIGN_PHDR G = 0
     \<and> unat (e_phoff (elf_header G prog)) + unat (e_phentsize (elf_header G prog)) * unat (e_phnum (elf_header G prog)) < 2 ^ 64
     \<and> unat (e_phoff (elf_header G prog)) + unat (e_phentsize (elf_header G prog)) * unat (e_phnum (elf_header G prog)) < length (prog_bytes prog)
     \<and> (\<forall>ph \<in> set (elf_segments G prog). p_type ph = PT_LOAD G \<longrightarrow> segment_ok G prog ph)"

definition process_pages :: "goblin \<Rightarrow> program \<Rightarrow> usize \<Rightarrow> usize \<Rightarrow> usize \<Rightarrow> nat list" where
  "process_pages G prog pages off len = load_pages G (elf_segments G prog) @ stack_pages_of off (List.map of_nat [0..<unat pages])
     @ window_pages off (List.map of_nat [0..<unat (len div PAGE_SIZE)])"

text \<open>The frames that loading takes: the top table, the pages of the segments and of the stack, and the tables for all pages.\<close>

definition frames_needed :: "goblin \<Rightarrow> program \<Rightarrow> usize \<Rightarrow> usize \<Rightarrow> usize \<Rightarrow> nat" where
  "frames_needed G prog pages off len = 1 + length (load_pages G (elf_segments G prog)) + unat pages
     + card (tables_for (process_pages G prog pages off len))"

lemma first_from_cong:
  assumes "length ys = length xs" and "\<And>i. i < length xs \<Longrightarrow> P (xs ! i) = Q (ys ! i)"
  shows "first_from P n xs = first_from Q n ys" and "length (filter P xs) = length (filter Q ys)"
proof -
  show "first_from P n xs = first_from Q n ys"
    unfolding first_from_def assms(1) by (rule find_cong) (use assms(2) in auto)
  show "length (filter P xs) = length (filter Q ys)"
    unfolding length_filter_conv_card assms(1) by (rule arg_cong [of _ _ card]) (use assms(2) in auto)
qed

lemma first_untyped:
  assumes boot: "bootable s" and "0 < free_count s BumpAllocator_new"
  obtains n where "first_from free_entry 0 (entries (k_rt s)) = Some n" "entry (k_rt s) (frame_no n) = Some (mk_entry Untyped 0)"
    "direct_mapped s (frame_no n)" "n < 2 ^ 40"
    "alloc_untyped_frame BumpAllocator_new (k_rt s) = Return (Some (frame_no n), \<lparr>bump_index = of_nat n\<rparr>, k_rt s)"
proof -
  have ready: "alloc_ready s BumpAllocator_new" and unused: "untyped_unused s"
    using boot by (simp_all add: bootable_def)
  note r = ready [unfolded alloc_ready_def]
  obtain n where n: "first_from free_entry 0 (entries (k_rt s)) = Some n"
    using free_count_None [of BumpAllocator_new s] assms(2)
    by (cases "first_from free_entry 0 (entries (k_rt s))") (auto simp: BumpAllocator_new_def)
  then have lt: "n < length (entries (k_rt s))" "n < 2 ^ 40" and e: "free_entry (entries (k_rt s) ! n)"
    using r by (auto simp: first_from_Some_iff)
  then have ent: "entry (k_rt s) (frame_no n) = Some (mk_entry Untyped 0)"
    by (simp add: entry_def entry_eqI free_entry_def)
  have "first_from (\<lambda>e. state_of e = Untyped) 0 (entries (k_rt s)) = Some n"
    unfolding n [symmetric] by (rule first_from_cong(1)) (use unused in \<open>auto simp: free_entry_def untyped_unused_def\<close>)
  then have "alloc_untyped_frame BumpAllocator_new (k_rt s) = Return (Some (frame_no n), \<lparr>bump_index = of_nat n\<rparr>,
      set_entry (k_rt s) (frame_no n) (entries (k_rt s) ! n))"
    using untyped_source.loop_eq [of "k_rt s" BumpAllocator_new] r by (simp add: alloc_untyped_frame_def BumpAllocator_new_def)
  moreover have "set_entry (k_rt s) (frame_no n) (entries (k_rt s) ! n) = k_rt s"
    using r ent lt e by (intro set_entry_self) (auto simp: entry_def)
  ultimately show thesis
    using that n ent lt r by simp
qed

lemma empty_user_half:
  assumes "k_heap s a = Some (OPageTable (replicate 256 0 @ t))" and "user_path js"
  shows "tr s a js = None"
  using assms by (cases js) (auto simp: user_path_def pt_slot_def nth_append Let_def)

lemma new_l4_provided:
  assumes F: "ptf_spec F" and boot: "bootable s" and "distinct ps" and "\<forall>p \<in> set ps. p < 2 ^ 35"
    and frames: "Suc (card (tables_for ps) + m) \<le> free_count s BumpAllocator_new"
  obtains f fa root s1 where "alloc_untyped_frame BumpAllocator_new (k_rt s) = Return (Some f, fa, k_rt s)"
    "new_l4 F f s = Return (Ok (KPtr root), s1)" "provided s1 fa root [root \<mapsto> []] (tables_for ps) ps m"
proof -
  obtain n where n: "first_from free_entry 0 (entries (k_rt s)) = Some n" and f: "entry (k_rt s) (frame_no n) = Some (mk_entry Untyped 0)"
    "direct_mapped s (frame_no n)" and lt: "n < 2 ^ 40"
    and al: "alloc_untyped_frame BumpAllocator_new (k_rt s) = Return (Some (frame_no n), \<lparr>bump_index = of_nat n\<rparr>, k_rt s)"
    using first_untyped [OF boot] frames by auto
  from boot obtain fc k t where c: "current_raw (k_cr3 s) = Return fc" "direct_mapped s fc" "entry (k_rt s) fc = Some (mk_entry Kernel k)"
    "k < 16382" "k_heap s (kptr_inner (kptr_to s fc)) = Some (OPageTable t)" "length t = 512" and k: "0 < k"
    and rt: "rt_ok (k_rt s)" and unused: "untyped_unused s"
    by (auto simp: bootable_def alloc_ready_def)
  define g where "g = set_entry (k_rt s) fc (mk_entry Kernel (k - 1))"
  define root where "root = kptr_inner (kptr_to s (frame_no n))"
  define s1 where "s1 = write_obj (KPtr root) (OPageTable (replicate 256 0 @ drop 256 t)) (s\<lparr>k_rt := set_entry g (frame_no n) (mk_entry Kernel 1)\<rparr>)"
  have new: "new_l4 F (frame_no n) s = Return (Ok (KPtr root), s1)"
    using new_l4_eq(1) [OF F rt c f(2,1)] k by (simp add: s1_def g_def root_def)
  have al': "s\<lparr>k_rt := k_rt s\<rparr> = s" by simp
  note tree = new_l4_tree [OF F boot al, unfolded al', OF new, unfolded KPtr.sel]
  have fc: "entries (k_rt s) ! frame_idx fc = mk_entry Kernel k" "frame_idx fc < length (entries (k_rt s))"
    using c(3) by (auto simp: entry_def split: if_splits)
  have same: "free_entry (entries (k_rt s) ! i) = free_entry (entries g ! i)" if "i < length (entries (k_rt s))" for i
    using that fc c(4) by (auto simp: g_def nth_list_update free_entry_def)
  note eq = first_from_cong [of "entries g" "entries (k_rt s)" free_entry free_entry, OF _ same]
  have "first_from free_entry 0 (entries g) = Some n"
    using eq(1) n by (simp add: g_def)
  from free_filter_Some [OF this, of "mk_entry Kernel 1"]
  have "free_count s BumpAllocator_new = Suc (free_count s1 \<lparr>bump_index = of_nat n\<rparr>)"
    using eq(2) lt by (simp add: free_count_def BumpAllocator_new_def s1_def unat_of_nat_lt free_entry_def g_def)
  moreover have "missing s1 root (tables_for ps) \<le> card (tables_for ps)"
    unfolding missing_def using tables_for_user [OF assms(4)] by (intro card_mono) (auto simp: user_tables_def)
  moreover have "untyped_unused s1"
    using unused c(4) by (auto simp: s1_def g_def untyped_unused_def dest!: set_update_subset_insert [THEN subsetD])
  moreover have "tr s1 root (addr_path (4096 * p)) = None" if "p \<in> set ps" for p
    by (rule empty_user_half [OF _ addr_path_user]) (use that assms(4) in \<open>auto simp: s1_def\<close>)
  ultimately have "provided s1 \<lparr>bump_index = of_nat n\<rparr> root [root \<mapsto> []] (tables_for ps) ps m"
    using tree(1,2) assms(3,4) frames tables_for_user [OF assms(4)] by (simp add: provided_def)
  with al new show thesis
    by (rule that)
qed

lemma page_range_low: "vend \<le> 2 ^ 47 \<Longrightarrow> p \<in> set (page_range v vend) \<Longrightarrow> p < 2 ^ 35"
proof -
  assume "vend \<le> 2 ^ 47" and p: "p \<in> set (page_range v vend)"
  then have "(vend + 4095) div 4096 \<le> (2 ^ 47 + 4095) div 4096"
    by (intro div_le_mono) simp
  with p show ?thesis
    by (auto simp: page_range_def split: if_splits)
qed

lemma process_pages_low:
  assumes "loadable G prog" and "unat off + unat len \<le> 2 ^ 47" and "4096 * unat pages \<le> unat off" and "p \<in> set (process_pages G prog pages off len)"
  shows "p < 2 ^ 35"
proof -
  have stack: "unat off div 4096 - (unat (of_nat i :: u64) + 1) < 2 ^ 35" if "i < unat pages" for i
  proof -
    have "0 < unat off div 4096" "unat off div 4096 \<le> 2 ^ 47 div 4096"
      using that assms(2,3) by (simp add: div_greater_zero_iff, intro div_le_mono) simp
    then show ?thesis by simp
  qed
  have window: "unat off div 4096 + unat (of_nat i :: u64) < 2 ^ 35" if i: "i < unat (len div PAGE_SIZE)" for i
  proof -
    have "i < unat len div 4096"
      using i by (simp add: PAGE_SIZE_def unat_div)
    then have "4096 * (unat off div 4096 + i) + 4096 \<le> 4096 * (unat off div 4096) + 4096 * (unat len div 4096)"
      by simp
    also have "\<dots> \<le> 2 ^ 47"
      using assms(2) mult_div_mod_eq [of 4096 "unat off"] mult_div_mod_eq [of 4096 "unat len"] by linarith
    finally show ?thesis
      unfolding unat_below [OF i] by simp
  qed
  have "q < 2 ^ 35" if "q \<in> set (segment_pages ph)" "ph \<in> set (elf_segments G prog)" "p_type ph = PT_LOAD G" for q ph
    using assms(1) that page_range_low [of "unat (p_vaddr ph) + unat (p_memsz ph)" q] by (auto simp: loadable_def segment_ok_def segment_pages_def)
  with assms(4) stack window show ?thesis
    by (auto simp: process_pages_def load_pages_def stack_pages_of_def window_pages_def)
qed

lemma loadable_checks:
  assumes "loadable G prog"
  obtains size phend where "mul_chk (ucast (e_phentsize (elf_header G prog))) (ucast (e_phnum (elf_header G prog))) = Return size"
    "add_chk (e_phoff (elf_header G prog)) size = Return phend" "unat phend < length (prog_bytes prog)"
proof -
  let ?h = "elf_header G prog"
  let ?n = "unat (e_phentsize ?h) * unat (e_phnum ?h)"
  have sum: "unat (e_phoff ?h) + ?n < 2 ^ 64" "unat (e_phoff ?h) + ?n < length (prog_bytes prog)"
    using assms by (simp_all add: loadable_def)
  have cast: "unat (ucast x :: u64) = unat (x :: u16)" for x
    by (simp add: unsigned_ucast_eq take_bit_eq_mod less_trans [OF unat_lt [of x]])
  have n: "unat (of_nat ?n :: u64) = ?n"
    using sum(1) by (intro unat_of_nat_64) simp
  have "unat (of_nat (unat (e_phoff ?h) + ?n) :: u64) = unat (e_phoff ?h) + ?n"
    by (rule unat_of_nat_64 [OF sum(1)])
  with sum(2) n show thesis
    by (intro that [of "of_nat ?n" "of_nat (unat (e_phoff ?h) + ?n)"]) (simp_all add: mul_chk_eq_Return add_chk_eq_Return cast del: of_nat_add of_nat_mult)
qed

lemma Process_load_provided:
  assumes F: "ptf_spec F" and boot: "bootable s" and load: "loadable G prog"
    and area: "unat off mod 4096 = 0" "unat len mod 4096 = 0" "unat off + unat len \<le> 2 ^ 47" "4096 * unat pages \<le> unat off"
    and "distinct (process_pages G prog pages off len)" and frames: "frames_needed G prog pages off len + m \<le> free_count s BumpAllocator_new"
  obtains proc s' fa own T where "Process_load G F prog pages off len s = Return (proc, s')"
    "provided s' fa (kptr_inner (proc_l4_table proc)) own T [] m"
proof -
  define ps where "ps = process_pages G prog pages off len"
  define ks where "ks = (List.map of_nat [0..<unat pages] :: u64 list)"
  define ws where "ws = (List.map of_nat [0..<unat (len div PAGE_SIZE)] :: u64 list)"
  have ps: "ps = load_pages G (elf_segments G prog) @ stack_pages_of off ks @ window_pages off ws @ []"
    by (simp add: ps_def process_pages_def ks_def ws_def)
  have low: "\<forall>p \<in> set ps. p < 2 ^ 35"
    using process_pages_low [OF load area(3,4)] by (auto simp: ps_def)
  have "Suc (card (tables_for ps) + (length (load_pages G (elf_segments G prog)) + (length ks + m))) \<le> free_count s BumpAllocator_new"
    using frames by (simp add: frames_needed_def ps_def ks_def)
  from new_l4_provided [OF F boot assms(8) [folded ps_def] low this]
  obtain f fa root s1 where new: "alloc_untyped_frame BumpAllocator_new (k_rt s) = Return (Some f, fa, k_rt s)"
    "new_l4 F f s = Return (Ok (KPtr root), s1)"
    and 1: "provided s1 fa root [root \<mapsto> []] (tables_for ps) ps (length (load_pages G (elf_segments G prog)) + (length ks + m))"
    by blast
  have segs: "\<forall>ph \<in> set (elf_segments G prog). p_type ph = PT_LOAD G \<longrightarrow> segment_ok G prog ph"
    using load by (simp add: loadable_def)
  obtain fa2 s2 own2
    where seg: "load_segments G F prog (KPtr root) (elf_segments G prog) fa s1 = Return (fa2, s2)"
    and 2: "provided s2 fa2 root own2 (tables_for ps) (stack_pages_of off ks @ window_pages off ws @ []) (length ks + m)"
    using load_segments_provided [OF F segs, of s1 fa root _ "tables_for ps"] 1 unfolding ps by blast
  have "\<forall>i \<in> set ks. unat i < unat off div 4096"
    using area(4) by (auto simp: ks_def unat_below less_eq_div_iff_mult_less_eq Suc_le_eq [symmetric])
  from map_stack_provided [OF F area(1) this 2] obtain fa3 s3 own3 where stk: "map_stack F (KPtr root) off ks fa2 s2 = Return (fa3, s3)"
    and 3: "provided s3 fa3 root own3 (tables_for ps) (window_pages off ws @ []) m"
    by blast
  from map_untyped_provided [OF F area(1) 3] obtain fa4 s4 own4 where unt: "map_untyped F (KPtr root) off ws fa3 s3 = Return (fa4, s4)"
    and 4: "provided s4 fa4 root own4 (tables_for ps) [] m"
    by blast
  obtain size phend where sz: "mul_chk (ucast (e_phentsize (elf_header G prog))) (ucast (e_phnum (elf_header G prog))) = Return size"
    "add_chk (e_phoff (elf_header G prog)) size = Return phend" "unat phend < length (prog_bytes prog)"
    by (rule loadable_checks [OF load])
  define top where "top = (of_nat (unat off + unat len) :: u64)"
  have top: "add_chk off len = Return top" "top < 0xFFFF800000000000"
    unfolding add_chk_eq_Return word_less_nat_alt top_def
    by (subst unat_of_nat_64; use area(3) in simp)+
  have "Process_load G F prog pages off len s = Return (\<lparr>proc_entry = e_entry (elf_header G prog), proc_rsp = off, proc_l4_table = KPtr root\<rparr>, s4)"
    using load area(1,2) top new sz seg [unfolded elf_segments_def] stk unt
    by (simp add: Process_load_def Let_def assert_def loadable_def PAGE_SIZE_def word_mod_4096_iff ks_def ws_def flip: elf_header_def)
  then show thesis
    by (rule that) (subst Process.select_convs(3), unfold KPtr.sel, rule 4)
qed

lemma two_of_filter:
  assumes "2 \<le> length (filter P (drop k xs))"
  obtains m n where "m < n" "n < length xs" "P (xs ! m)" "P (xs ! n)"
proof -
  let ?I = "{i. i < length xs \<and> P (xs ! i)}"
  have "length (filter P xs) = length (filter P (take k xs)) + length (filter P (drop k xs))"
    by (metis append_take_drop_id filter_append length_append)
  then have "\<not> card ?I \<le> Suc 0"
    using assms by (simp add: length_filter_conv_card)
  then obtain i j where "i \<in> ?I" "j \<in> ?I" "i \<noteq> j"
    using card_le_Suc0_iff_eq [of ?I] by auto
  then show thesis
    using that [of i j] that [of j i] by (cases "i < j") auto
qed

lemma into_exec_provided:
  assumes "provided s fa (kptr_inner (proc_l4_table proc)) own T ps m"
  shows "\<exists>ctx. into_exec proc s = Return ctx"
proof -
  have "in_use s (kptr_inner (proc_l4_table proc))"
    using assms by (auto simp: provided_def pt_tree_def pt_node_ok_def)
  then obtain f where f: "kptr_inner (proc_l4_table proc) = kptr_inner (kptr_to s f)" "direct_mapped s f"
    by (auto simp: in_use_def)
  from KPtr.expand [OF f(1)] kptr_to_roundtrip(2) [OF f(2)] show ?thesis
    by (simp add: into_exec_def KPtr_into_raw_def)
qed

lemma kmain_returns:
  assumes F: "ptf_spec F" and boot: "bootable s" and load: "loadable G prog"
    and len: "n = length (entries (k_rt s))" and area: "unat UNTYPED_MEMORY_OFFSET + 4096 * n \<le> 2 ^ 47"
    and ps: "distinct (process_pages G prog 10 UNTYPED_MEMORY_OFFSET (of_nat (4096 * n)))"
    and frames: "frames_needed G prog 10 UNTYPED_MEMORY_OFFSET (of_nat (4096 * n)) + 2 \<le> free_count s BumpAllocator_new"
  shows "\<exists>ctx s'. kmain G F prog s = Return (Resumed ctx :: 'a flow, s')"
proof -
  have n: "unat (of_nat (4096 * n) :: u64) = 4096 * n"
    using area by (intro unat_of_nat_64) simp
  have off: "unat UNTYPED_MEMORY_OFFSET mod 4096 = 0" "4096 * unat (10 :: u64) \<le> unat UNTYPED_MEMORY_OFFSET"
    by (simp_all add: UNTYPED_MEMORY_OFFSET_def)
  have win: "unat (of_nat (4096 * n) :: u64) mod 4096 = 0" "unat UNTYPED_MEMORY_OFFSET + unat (of_nat (4096 * n) :: u64) \<le> 2 ^ 47"
    unfolding n using area by simp_all
  obtain proc s1 fa own T where pl: "Process_load G F prog 10 UNTYPED_MEMORY_OFFSET (of_nat (4096 * n)) s = Return (proc, s1)"
    and prov: "provided s1 fa (kptr_inner (proc_l4_table proc)) own T [] 2"
    by (rule Process_load_provided [OF F boot load off(1) win off(2) ps frames])
  have two: "2 \<le> free_count s1 fa" and ready: "alloc_ready s1 fa" and unused: "untyped_unused s1"
    using prov by (simp_all add: provided_def)
  obtain i j where ij: "i < j" "j < length (entries (k_rt s1))" "free_entry (entries (k_rt s1) ! i)" "free_entry (entries (k_rt s1) ! j)"
    by (rule two_of_filter [OF two [unfolded free_count_def]]) blast
  have "unat UNTYPED_MEMORY_OFFSET \<le> 2 ^ 47"
    by (simp add: UNTYPED_MEMORY_OFFSET_def)
  from Process_load_memory [OF F boot this pl] have "k_active s1 = k_active s"
    by blast
  then have idle: "active_cell s1 = Return (RefCell_new None)"
    using boot by (simp add: bootable_def active_cell_def)
  have ready': "alloc_ready s1 BumpAllocator_new"
    using ready by (simp add: alloc_ready_def BumpAllocator_new_def)
  obtain ctx where ctx: "into_exec proc s1 = Return ctx"
    using into_exec_provided [OF prov] by blast
  obtain s' where "start_thread ctx s1 = Return (Resumed ctx :: 'a flow, s')"
    by (rule start_thread_running [OF ready' unused idle ij(1,2), of ctx]) (use ij(3,4) in \<open>auto simp: free_entry_def\<close>)
  moreover have "memory_limit (k_rt s) = Return (of_nat (4096 * n))"
    unfolding len using boot by (intro memory_limit_eq) (auto simp: bootable_def alloc_ready_def)
  ultimately show ?thesis
    using pl ctx by (simp add: kmain_def)
qed

section \<open>Properties\<close>

text \<open>
  C7. The kernel starts the first program whenever there is memory for it. After initialisation, for a
  program whose headers are sound and whose segments, stack and window on memory do not overlap,
  \<open>kmain\<close> does not panic if the free frames cover the top table, the pages of the segments and of the
  stack, each table for a page once, the capability table and the thread: it resumes the program at
  its entry point, in an address space that shows its image, its stack and all of physical memory.
\<close>

theorem kmain_starts_when_memory_suffices:
  assumes "ptf_spec F" and "bootable s" and "loadable G prog"
    and "n = length (entries (k_rt s))" and "unat UNTYPED_MEMORY_OFFSET + 4096 * n \<le> 2 ^ 47"
    and "distinct (process_pages G prog 10 UNTYPED_MEMORY_OFFSET (of_nat (4096 * n)))"
    and "frames_needed G prog 10 UNTYPED_MEMORY_OFFSET (of_nat (4096 * n)) + 2 \<le> free_count s BumpAllocator_new"
  shows "\<exists>ctx s'. kmain G F prog s = Return (Resumed ctx :: 'a flow, s')
    \<and> rip (control (ctx_regs ctx)) = e_entry (elf_header G prog)
    \<and> process_memory G F prog 10 UNTYPED_MEMORY_OFFSET (of_nat (4096 * n)) (kptr_inner (kptr_to s' (ctx_l4_frame ctx))) s'"
proof -
  from kmain_returns [OF assms] obtain ctx s' where run: "kmain G F prog s = Return (Resumed ctx :: 'a flow, s')"
    by blast
  show ?thesis
    by (rule kmain_starts_the_program [OF assms(1,2) run]) (use run in \<open>auto simp: elf_header_def assms(4)\<close>)
qed

text \<open>A kernel with 31 free frames, and a program with one segment of two bytes.\<close>

definition roomy_kstate :: kstate where
  "roomy_kstate = boot_kstate\<lparr>k_rt := \<lparr>once_value = Some \<lparr>retype_map = mk_entry Kernel 1 # replicate 31 (mk_entry Untyped 0)\<rparr>, once_init = 2\<rparr>\<rparr>"

definition roomy_prog :: program where
  "roomy_prog = \<lparr>prog_addr = 0, prog_bytes = replicate 64 0x90\<rparr>"

lemma roomy_entries: "entries (k_rt roomy_kstate) = mk_entry Kernel 1 # replicate 31 (mk_entry Untyped 0)" "rt_ok (k_rt roomy_kstate)"
  by (simp_all add: roomy_kstate_def entries_def rt_ok_def)

lemma roomy_mapped:
  assumes "i < 32"
  shows "direct_mapped roomy_kstate (frame_no i)"
proof -
  have "unat (of_nat (4096 * i) :: u64) = 4096 * i"
    using assms by (intro unat_frame_no) simp
  moreover have "4096 * i < 2 ^ 52" and "4096 * i \<le> 131072"
    using assms by simp_all
  ultimately show ?thesis
    unfolding direct_mapped_def frame_ok_def frame_no_def
    by (simp add: roomy_kstate_def boot_kstate_def pmo_ok_def FRAME_SIZE_def word_mod_4096_iff)
qed

lemma roomy_bootable: "bootable roomy_kstate"
proof -
  have "current_raw (k_cr3 roomy_kstate) = Return (frame_no 0)"
    by (simp add: current_raw_def roomy_kstate_def boot_kstate_def PhysAddr_new_eq RawFrame_from_start_address_def
        RawFrame_try_from_start_address_def FRAME_SIZE_def frame_no_def)
  moreover have "entry (k_rt roomy_kstate) (frame_no 0) = Some (mk_entry Kernel 1)"
    by (simp add: entry_def roomy_entries)
  moreover have "k_heap roomy_kstate (kptr_inner (kptr_to roomy_kstate (frame_no 0))) = Some (OPageTable AnyPageTable_new)"
    by (simp add: roomy_kstate_def boot_kstate_def kptr_to_def frame_no_def)
  moreover have "untyped_unused roomy_kstate"
    by (simp add: untyped_unused_def roomy_entries)
  moreover have "active_cell roomy_kstate = Return (RefCell_new None)"
    using boot_kstate_bootable by (simp add: bootable_def roomy_kstate_def active_cell_def)
  moreover have "alloc_ready roomy_kstate BumpAllocator_new"
    using roomy_mapped by (simp add: alloc_ready_def roomy_entries BumpAllocator_new_def)
  ultimately show ?thesis
    unfolding bootable_def using roomy_mapped [of 0]
    by (intro conjI exI [of _ "frame_no 0"] exI [of _ 1] exI [of _ AnyPageTable_new]) simp_all
qed

lemma roomy_pages:
  "process_pages boot_elf roomy_prog 10 UNTYPED_MEMORY_OFFSET 0x20000
     = 0x400 # List.map (\<lambda>i. 0x6FFFFFFFF - i) [0..<10] @ List.map (\<lambda>i. 0x700000000 + i) [0..<32]"
proof -
  have "unat (of_nat i :: u64) = i" if "i < 32" for i
    using that by (intro unat_of_nat_lt) simp
  moreover have "unat ((0x20000 :: usize) div PAGE_SIZE) = 32"
    by (simp add: PAGE_SIZE_def)
  moreover have "load_pages boot_elf (elf_segments boot_elf roomy_prog) = [0x400]"
    by (simp add: load_pages_def elf_segments_def boot_elf_def segment_pages_def page_range_def boot_segment_def)
  ultimately show ?thesis
    by (simp add: process_pages_def stack_pages_of_def window_pages_def UNTYPED_MEMORY_OFFSET_def)
qed

lemma table_path: "take 3 (addr_path (4096 * p)) = [p div 512 div 2 ^ 18 mod 512, p div 512 div 2 ^ 9 mod 512, p div 512 mod 512]"
proof -
  have "4096 * p div 2 ^ 39 = p div 512 div 2 ^ 18" "4096 * p div 2 ^ 30 = p div 512 div 2 ^ 9" "4096 * p div 2 ^ 21 = p div 512"
    using div_mult_mult1 [of 4096 p "2 ^ 27"] div_mult_mult1 [of 4096 p "2 ^ 18"] div_mult_mult1 [of 4096 p "2 ^ 9"]
    by (simp_all add: div_mult2_eq [symmetric])
  then show ?thesis
    by (simp add: addr_path_def)
qed

lemma roomy_tables: "card (tables_for (process_pages boot_elf roomy_prog 10 UNTYPED_MEMORY_OFFSET 0x20000)) \<le> 9"
proof -
  let ?T = "{[0], [0, 0], [0, 0, 2], [223], [223, 511], [223, 511, 511], [224], [224, 0], [224, 0, 0]} :: nat list set"
  have "take k (addr_path (4096 * p)) \<in> ?T" if p: "p \<in> set (process_pages boot_elf roomy_prog 10 UNTYPED_MEMORY_OFFSET 0x20000)"
    and k: "k \<in> {1, 2, 3}" for p k
  proof -
    consider "p = 0x400" | "0x6FFFFFFF6 \<le> p" "p \<le> 0x6FFFFFFFF" | "0x700000000 \<le> p" "p < 0x700000020"
      using p unfolding roomy_pages by fastforce
    then have "p div 512 = 2 \<or> p div 512 = 0x37FFFFF \<or> p div 512 = 0x3800000"
      by cases (auto intro!: div_nat_eqI)
    then have three: "take 3 (addr_path (4096 * p)) \<in> {[0, 0, 2], [223, 511, 511], [224, 0, 0]}"
      unfolding table_path by auto
    define xs where "xs = take 3 (addr_path (4096 * p))"
    have "take k (addr_path (4096 * p)) = take k xs"
      using k by (auto simp: xs_def)
    moreover have "take k xs \<in> ?T"
      using three [folded xs_def] k by auto
    ultimately show ?thesis
      by simp
  qed
  then have "tables_for (process_pages boot_elf roomy_prog 10 UNTYPED_MEMORY_OFFSET 0x20000) \<subseteq> ?T"
    unfolding tables_for_def by blast
  then have "card (tables_for (process_pages boot_elf roomy_prog 10 UNTYPED_MEMORY_OFFSET 0x20000)) \<le> card ?T"
    by (intro card_mono) simp_all
  then show ?thesis
    by simp
qed

theorem kmain_starts_when_memory_suffices_witness:
  "\<exists>ctx s'. kmain boot_elf word_ptf roomy_prog roomy_kstate = Return (Resumed ctx :: unit flow, s')
     \<and> rip (control (ctx_regs ctx)) = 0x400000"
proof -
  have "loadable boot_elf roomy_prog"
    by (simp add: loadable_def elf_header_def elf_segments_def boot_elf_def roomy_prog_def segment_ok_def boot_segment_def)
  moreover have "distinct (process_pages boot_elf roomy_prog 10 UNTYPED_MEMORY_OFFSET 0x20000)"
    unfolding roomy_pages by (auto simp: distinct_map inj_on_def)
  moreover have "frames_needed boot_elf roomy_prog 10 UNTYPED_MEMORY_OFFSET 0x20000 + 2 \<le> free_count roomy_kstate BumpAllocator_new"
  proof -
    have "length (load_pages boot_elf (elf_segments boot_elf roomy_prog)) = 1"
      by (simp add: load_pages_def elf_segments_def boot_elf_def segment_pages_def page_range_def boot_segment_def)
    then show ?thesis
      using roomy_tables by (simp add: frames_needed_def free_count_def roomy_entries BumpAllocator_new_def free_entry_def)
  qed
  ultimately show ?thesis
    using kmain_starts_when_memory_suffices [where 'a = unit, OF word_ptf_spec roomy_bootable, of boot_elf roomy_prog 32]
    by (auto simp: roomy_entries UNTYPED_MEMORY_OFFSET_def elf_header_def boot_elf_def)
qed

end
