(* ===== verification/Interleaving.thy ===== *)
theory Interleaving
  imports Prelude Cells
begin

text \<open>
  The cells of the \<open>sync\<close> crate under concurrency. Theory \<open>Cells\<close> gives the effect of a method
  that runs alone; here any number of threads call the methods of one shared cell, and every
  access to the shared memory is a step of its own, in any order.

  A method is a program counter type and a function that does one access. The relation
  \<open>interleave\<close> lets any thread do its next access; the first argument of the function is what the
  thread chooses freely (which method it calls next, whether a weak compare-and-exchange fails
  spuriously). The accesses are sequentially consistent: the cells publish a value with acquire
  and release, no plain access is part of a race, and the relaxed operations of the retype table
  each use one word only.
\<close>

section \<open>Threads\<close>

type_synonym ('pc, 's) config = "'s \<times> (nat \<Rightarrow> 'pc)"

inductive interleave ::
    "('ch \<Rightarrow> 'pc \<Rightarrow> 's \<Rightarrow> ('pc \<times> 's) run) \<Rightarrow> ('pc, 's) config \<Rightarrow> ('pc, 's) config \<Rightarrow> bool"
  for thread where
  run_thread: "thread ch (pcs t) s = Return (pc', s') \<Longrightarrow> interleave thread (s, pcs) (s', pcs(t := pc'))"

inductive_cases interleaveE: "interleave thread (s, pcs) (s', pcs')"

text \<open>
  An invariant that every access keeps and under which no access panics holds in every reachable
  state.
\<close>

locale threads =
  fixes thread :: "'ch \<Rightarrow> 'pc \<Rightarrow> 's \<Rightarrow> ('pc \<times> 's) run" and inv :: "'s \<Rightarrow> (nat \<Rightarrow> 'pc) \<Rightarrow> bool"
  assumes inv_step: "inv s pcs \<Longrightarrow> thread ch (pcs t) s = Return (pc', s') \<Longrightarrow> inv s' (pcs(t := pc'))"
    and no_panic: "inv s pcs \<Longrightarrow> \<exists>r. thread ch (pcs t) s = Return r"
begin

lemma reachable:
  assumes "(interleave thread)\<^sup>*\<^sup>* (s, pcs) (s', pcs')" and "inv s pcs"
  shows "inv s' pcs'"
  using assms
proof (induction rule: rtranclp_induct2)
  case (step s1 pcs1 s2 pcs2)
  then show ?case
    by (auto elim!: interleaveE intro: inv_step)
qed

lemma can_step:
  assumes "inv s pcs"
  obtains pc' s' where "thread ch (pcs t) s = Return (pc', s')"
  using no_panic [OF assms, of ch t] by auto

end

text \<open>
  A machine refines another one when every access is a sequence of accesses of the other on the
  corresponding state and program counters.
\<close>

locale simulation = threads thread inv
  for thread :: "'ch \<Rightarrow> 'pc \<Rightarrow> 's \<Rightarrow> ('pc \<times> 's) run" and inv :: "'s \<Rightarrow> (nat \<Rightarrow> 'pc) \<Rightarrow> bool" +
  fixes spec :: "'ch2 \<Rightarrow> 'pc2 \<Rightarrow> 's2 \<Rightarrow> ('pc2 \<times> 's2) run" and st :: "'s \<Rightarrow> 's2" and pc_of :: "'pc \<Rightarrow> 'pc2"
  assumes simulated: "inv s pcs \<Longrightarrow> thread ch (pcs t) s = Return (pc', s') \<Longrightarrow>
    (interleave spec)\<^sup>*\<^sup>* (st s, pc_of \<circ> pcs) (st s', (pc_of \<circ> pcs)(t := pc_of pc'))"
begin

lemma refines:
  assumes "(interleave thread)\<^sup>*\<^sup>* (s, pcs) (s', pcs')" and "inv s pcs"
  shows "(interleave spec)\<^sup>*\<^sup>* (st s, pc_of \<circ> pcs) (st s', pc_of \<circ> pcs')"
  using assms(1)
proof (induction rule: rtranclp_induct2)
  case (step s1 pcs1 s2 pcs2)
  from step.hyps(2) obtain ch t pc' where 1: "thread ch (pcs1 t) s1 = Return (pc', s2)" "pcs2 = pcs1(t := pc')"
    by (auto elim!: interleaveE)
  have "(pc_of \<circ> pcs1)(t := pc_of pc') = pc_of \<circ> pcs2"
    by (auto simp: 1(2))
  with simulated [OF reachable [OF step.hyps(1) assms(2)] 1(1)]
  have "(interleave spec)\<^sup>*\<^sup>* (st s1, pc_of \<circ> pcs1) (st s2, pc_of \<circ> pcs2)"
    by simp
  with step.IH show ?case
    by (rule rtranclp_trans)
qed simp

end

text \<open>A thread runs alone for a while.\<close>

definition alone :: "('ch \<Rightarrow> 'pc \<Rightarrow> 's \<Rightarrow> ('pc \<times> 's) run) \<Rightarrow> nat \<Rightarrow> 'pc \<Rightarrow> 's \<Rightarrow> 'pc \<Rightarrow> 's \<Rightarrow> bool" where
  "alone thread t pc s pc' s' \<longleftrightarrow> (\<forall>pcs. pcs t = pc \<longrightarrow> (interleave thread)\<^sup>*\<^sup>* (s, pcs) (s', pcs(t := pc')))"

lemma alone_step: "thread ch pc s = Return (pc', s') \<Longrightarrow> alone thread t pc s pc' s'"
  by (auto simp: alone_def intro: run_thread)

lemma alone_trans: "alone thread t pc s pc' s' \<Longrightarrow> alone thread t pc' s' pc'' s'' \<Longrightarrow> alone thread t pc s pc'' s''"
  unfolding alone_def by (metis fun_upd_same fun_upd_upd rtranclp_trans)

lemma alone_next: "thread ch pc s = Return (pc', s') \<Longrightarrow> alone thread t pc' s' pc'' s'' \<Longrightarrow> alone thread t pc s pc'' s''"
  by (rule alone_trans [OF alone_step])

lemma aloneD: "alone thread t pc s pc' s' \<Longrightarrow> pcs t = pc \<Longrightarrow> (interleave thread)\<^sup>*\<^sup>* (s, pcs) (s', pcs(t := pc'))"
  by (simp add: alone_def)

lemma alone_from: "alone thread t (pcs t) s pc' s' \<Longrightarrow> (interleave thread)\<^sup>*\<^sup>* (s, pcs) (s', pcs(t := pc'))"
  by (simp add: alone_def)

section \<open>AtomicOnceCell\<close>

datatype 'a once_call = CallSet 'a | CallGet

datatype 'a once_pc =
    OnceIdle
  | SetCas 'a
  | SetWrite 'a
  | SetStore
  | SetDone "(unit, OnceError) result"
  | GetLoad
  | GetRead
  | GetDone "'a option"

primrec once_start :: "'a once_call \<Rightarrow> 'a once_pc" where
  "once_start (CallSet v) = SetCas v"
| "once_start CallGet = GetLoad"

primrec once_thread ::
    "'a once_call \<Rightarrow> 'a once_pc \<Rightarrow> 'a AtomicOnceCell \<Rightarrow> ('a once_pc \<times> 'a AtomicOnceCell) run" where
  "once_thread ch OnceIdle c = Return (once_start ch, c)"
| "once_thread ch (SetCas v) c = (case compare_exchange 0 1 (once_init c) of
     (Ok _, i) \<Rightarrow> Return (SetWrite v, c\<lparr>once_init := i\<rparr>)
   | (Err e, i) \<Rightarrow>
       if e = 1 then Return (SetDone (Err Initializing), c)
       else if e = 2 then Return (SetDone (Err AlreadyInit), c)
       else Panic ExplicitPanic)"
| "once_thread ch (SetWrite v) c = Return (SetStore, c\<lparr>once_value := Some v\<rparr>)"
| "once_thread ch SetStore c = Return (SetDone (Ok ()), c\<lparr>once_init := 2\<rparr>)"
| "once_thread ch (SetDone r) c = Return (once_start ch, c)"
| "once_thread ch GetLoad c = Return (if once_init c = 2 then GetRead else GetDone None, c)"
| "once_thread ch GetRead c = bindR (OnceCell_get_unchecked c) (\<lambda>v. Return (GetDone (Some v), c))"
| "once_thread ch (GetDone r) c = Return (once_start ch, c)"

text \<open>The threads that have won the cell, and what they have written so far.\<close>

definition owner :: "'a once_pc \<Rightarrow> bool" where
  "owner pc \<longleftrightarrow> pc = SetStore \<or> (\<exists>v. pc = SetWrite v)"

definition once_phase :: "'a AtomicOnceCell \<Rightarrow> (nat \<Rightarrow> 'a once_pc) \<Rightarrow> bool" where
  "once_phase c pcs \<longleftrightarrow>
     (once_init c = 0 \<and> once_value c = None \<and> (\<forall>t. \<not> owner (pcs t)))
   \<or> (once_init c = 1 \<and> (\<exists>t. owner (pcs t) \<and> (pcs t = SetStore \<longleftrightarrow> once_value c \<noteq> None) \<and> (\<forall>u. u \<noteq> t \<longrightarrow> \<not> owner (pcs u))))
   \<or> (once_init c = 2 \<and> once_value c \<noteq> None \<and> (\<forall>t. \<not> owner (pcs t)))"

definition once_inv :: "'a AtomicOnceCell \<Rightarrow> (nat \<Rightarrow> 'a once_pc) \<Rightarrow> bool" where
  "once_inv c pcs \<longleftrightarrow> once_phase c pcs \<and> (\<forall>t. pcs t = GetRead \<longrightarrow> once_init c = 2)
     \<and> (\<forall>t w. pcs t = GetDone (Some w) \<longrightarrow> once_init c = 2 \<and> once_value c = Some w)"

lemma owner_simps [simp]:
  "owner SetStore" "owner (SetWrite v)" "\<not> owner OnceIdle" "\<not> owner (SetCas v)" "\<not> owner (SetDone r)" "\<not> owner GetLoad"
  "\<not> owner GetRead" "\<not> owner (GetDone x)" "\<not> owner (once_start ch)" "once_start ch \<noteq> GetRead" "once_start ch \<noteq> GetDone x"
  by (cases ch; simp add: owner_def)+

lemma once_phase_cases:
  assumes "once_phase c pcs"
  obtains "once_init c = 0" "once_value c = None" "\<And>t. \<not> owner (pcs t)"
  | t where "once_init c = 1" "owner (pcs t)" "pcs t = SetStore \<longleftrightarrow> once_value c \<noteq> None" "\<And>u. u \<noteq> t \<Longrightarrow> \<not> owner (pcs u)"
  | "once_init c = 2" "once_value c \<noteq> None" "\<And>t. \<not> owner (pcs t)"
  using assms that unfolding once_phase_def by metis

lemma once_phase_idle:
  assumes "once_phase c pcs" and "\<not> owner (pcs t)" and "\<not> owner pc'"
  shows "once_phase c (pcs(t := pc'))"
  using assms(1)
proof (cases rule: once_phase_cases)
  case (2 u)
  moreover have "u \<noteq> t" using 2(2) assms(2) by auto
  ultimately show ?thesis
    unfolding once_phase_def using assms(3) by (intro disjI2 disjI1 conjI exI [of _ u]) auto
qed (use assms(3) in \<open>auto simp: once_phase_def\<close>)

lemma once_inv_idle:
  assumes "once_inv c pcs" and "\<not> owner (pcs t)" and "\<not> owner pc'" and "pc' = GetRead \<Longrightarrow> once_init c = 2"
    and "\<And>w. pc' = GetDone (Some w) \<Longrightarrow> once_init c = 2 \<and> once_value c = Some w"
  shows "once_inv c (pcs(t := pc'))"
  using assms once_phase_idle [of c pcs t pc'] by (auto simp: once_inv_def)

lemma once_win:
  assumes "once_inv c pcs" and "once_init c = 0"
  shows "once_inv (c\<lparr>once_init := 1\<rparr>) (pcs(t := SetWrite v))"
proof -
  have "once_value c = None" "\<not> owner (pcs u)" for u
    using assms by (auto simp: once_inv_def elim!: once_phase_cases)
  then show ?thesis
    using assms by (auto simp: once_inv_def once_phase_def)
qed

lemma once_owner_step:
  assumes "once_inv c pcs" and "owner (pcs t)"
  shows "once_init c = 1" and "u \<noteq> t \<Longrightarrow> \<not> owner (pcs u)" and "pcs t = SetStore \<longleftrightarrow> once_value c \<noteq> None"
    and "pcs u \<noteq> GetRead" and "pcs u \<noteq> GetDone (Some w)"
proof -
  from assms have ph: "once_phase c pcs" by (simp add: once_inv_def)
  from ph show "once_init c = 1"
    by (cases rule: once_phase_cases) (use assms(2) in auto)
  with assms(1) show "pcs u \<noteq> GetRead" "pcs u \<noteq> GetDone (Some w)"
    by (auto simp: once_inv_def)
  from ph show "u \<noteq> t \<Longrightarrow> \<not> owner (pcs u)"
    by (cases rule: once_phase_cases) (use assms(2) in metis)+
  from ph show "pcs t = SetStore \<longleftrightarrow> once_value c \<noteq> None"
    by (cases rule: once_phase_cases) (use assms(2) in metis)+
qed

interpretation once: threads once_thread once_inv
proof
  fix c :: "'a AtomicOnceCell" and pcs ch t pc' c'
  assume inv: "once_inv c pcs" and step: "once_thread ch (pcs t) c = Return (pc', c')"
  show "once_inv c' (pcs(t := pc'))"
  proof (cases "pcs t")
    case (SetCas v)
    then show ?thesis
      using step inv by (auto simp: compare_exchange_def split: if_splits intro!: once_inv_idle once_win)
  next
    case (SetWrite v)
    then have o: "owner (pcs t)" by simp
    note own = once_owner_step [OF inv o]
    have "once_init c = 1" "\<And>u. u \<noteq> t \<Longrightarrow> \<not> owner (pcs u)"
      using own(1,2) by auto
    then show ?thesis
      using step SetWrite own(4,5) by (auto simp: once_inv_def once_phase_def)
  next
    case SetStore
    then have o: "owner (pcs t)" by simp
    note own = once_owner_step [OF inv o]
    have "\<And>u. u \<noteq> t \<Longrightarrow> \<not> owner (pcs u)" "once_value c \<noteq> None"
      using own(2,3) SetStore by auto
    then show ?thesis
      using step SetStore own(4,5) by (auto simp: once_inv_def once_phase_def)
  next
    case GetRead
    then have "once_init c = 2"
      using inv by (auto simp: once_inv_def)
    with GetRead step inv show ?thesis
      by (auto simp: OnceCell_get_unchecked_def split: option.splits intro!: once_inv_idle)
  qed (use step inv in \<open>auto split: if_splits intro!: once_inv_idle\<close>)
next
  fix c :: "'a AtomicOnceCell" and pcs ch t
  assume inv: "once_inv c pcs"
  then have ph: "once_phase c pcs" by (simp add: once_inv_def)
  show "\<exists>r. once_thread ch (pcs t) c = Return r"
  proof (cases "pcs t")
    case (SetCas v)
    from ph show ?thesis
      by (cases rule: once_phase_cases) (simp_all add: SetCas compare_exchange_def)
  next
    case GetRead
    then have "once_init c = 2"
      using inv by (auto simp: once_inv_def)
    with ph have "once_value c \<noteq> None"
      by (auto elim: once_phase_cases)
    with GetRead show ?thesis
      by (auto simp: OnceCell_get_unchecked_def)
  qed simp_all
qed

lemma once_inv_new: "once_inv OnceCell_new (\<lambda>_. OnceIdle)"
  by (simp add: once_inv_def once_phase_def OnceCell_new_def)

text \<open>A method that runs alone has the effect that theory \<open>Cells\<close> gives it.\<close>

lemma once_set_alone:
  assumes "once_ok c" and "OnceCell_set v c = Return (r, c')"
  shows "alone once_thread t (SetCas v) c (SetDone r) c'"
proof (cases "once_value c")
  case None
  with assms have c: "c = \<lparr>once_value = None, once_init = 0\<rparr>" "r = Ok ()" "c' = \<lparr>once_value = Some v, once_init = 2\<rparr>"
    by (cases c; auto simp: OnceCell_set_eq once_ok_def)+
  show ?thesis
    unfolding c
    by (rule alone_next [where pc' = "SetWrite v"], simp add: compare_exchange_def, rule alone_next [where pc' = SetStore], simp)
       (rule alone_step, simp)
next
  case (Some w)
  with assms have c: "r = Err AlreadyInit" "c' = c" "once_init c = 2"
    by (auto simp: OnceCell_set_eq once_ok_def)
  then show ?thesis
    by (intro alone_step) (simp add: compare_exchange_def)
qed

lemma once_value_stable:
  assumes "(interleave once_thread)\<^sup>*\<^sup>* (c, pcs) (c', pcs')" and "once_inv c pcs" and "once_init c = 2" and "once_value c = Some w"
  shows "once_init c' = 2 \<and> once_value c' = Some w"
  using assms(1,3,4)
proof (induction rule: rtranclp_induct2)
  case (step c1 pcs1 c2 pcs2)
  then have c1: "once_init c1 = 2" "once_value c1 = Some w" by auto
  have "once_inv c1 pcs1"
    by (rule once.reachable [OF step.hyps(1) assms(2)])
  with c1(1) have no: "\<not> owner (pcs1 t)" for t
    by (auto simp: once_inv_def elim!: once_phase_cases)
  from step.hyps(2) obtain t ch pc' where "once_thread ch (pcs1 t) c1 = Return (pc', c2)"
    by (auto elim!: interleaveE)
  with no [of t] c1 show ?case
    by (cases "pcs1 t") (auto simp: compare_exchange_def bindR_eq_Return split: if_splits)
qed simp

section \<open>AtomicLazyCell\<close>

text \<open>
  \<open>get\<close>: the compare-and-exchange of \<open>set_with\<close>, the closure and the write of its value, the store
  that publishes it, and the loop that loads the flag until the value can be read.
\<close>

datatype 'a lazy_pc = LazyIdle | LazySet | LazyRun | LazyStore | LazyLoop | LazyRead | LazyGot 'a

primrec lazy_thread :: "unit \<Rightarrow> 'a lazy_pc \<Rightarrow> 'a AtomicLazyCell \<Rightarrow> ('a lazy_pc \<times> 'a AtomicLazyCell) run" where
  "lazy_thread ch LazyIdle c = Return (LazySet, c)"
| "lazy_thread ch LazySet c = (case compare_exchange 0 1 (once_init (lazy_inner c)) of
     (Ok _, i) \<Rightarrow> Return (LazyRun, c\<lparr>lazy_inner := (lazy_inner c)\<lparr>once_init := i\<rparr>\<rparr>)
   | (Err e, i) \<Rightarrow> if e = 1 \<or> e = 2 then Return (LazyLoop, c) else Panic ExplicitPanic)"
| "lazy_thread ch LazyRun c = bindR (case lazy_fun c of Some f \<Rightarrow> f () | None \<Rightarrow> Panic ExplicitPanic) (\<lambda>v.
     Return (LazyStore, \<lparr>lazy_inner = (lazy_inner c)\<lparr>once_value := Some v\<rparr>, lazy_fun = None\<rparr>))"
| "lazy_thread ch LazyStore c = Return (LazyLoop, c\<lparr>lazy_inner := (lazy_inner c)\<lparr>once_init := 2\<rparr>\<rparr>)"
| "lazy_thread ch LazyLoop c = Return (if once_init (lazy_inner c) = 2 then LazyRead else LazyLoop, c)"
| "lazy_thread ch LazyRead c = bindR (OnceCell_get_unchecked (lazy_inner c)) (\<lambda>v. Return (LazyGot v, c))"
| "lazy_thread ch (LazyGot v) c = Return (LazySet, c)"

text \<open>Every access of \<open>get\<close> is a sequence of accesses to the inner once cell.\<close>

primrec lazy_pc_once :: "'a \<Rightarrow> 'a lazy_pc \<Rightarrow> 'a once_pc" where
  "lazy_pc_once v LazyIdle = OnceIdle"
| "lazy_pc_once v LazySet = SetCas v"
| "lazy_pc_once v LazyRun = SetWrite v"
| "lazy_pc_once v LazyStore = SetStore"
| "lazy_pc_once v LazyLoop = GetLoad"
| "lazy_pc_once v LazyRead = GetRead"
| "lazy_pc_once v (LazyGot w) = GetDone (Some w)"

definition lazy_inv :: "(unit \<Rightarrow> 'a run) \<Rightarrow> 'a \<Rightarrow> 'a AtomicLazyCell \<Rightarrow> (nat \<Rightarrow> 'a lazy_pc) \<Rightarrow> bool" where
  "lazy_inv f v c pcs \<longleftrightarrow> once_inv (lazy_inner c) (lazy_pc_once v \<circ> pcs)
     \<and> (if once_value (lazy_inner c) = None then lazy_fun c = Some f else lazy_fun c = None \<and> once_value (lazy_inner c) = Some v)
     \<and> (\<forall>t. pcs t = LazyLoop \<longrightarrow> once_init (lazy_inner c) \<noteq> 0)"

lemma lazy_inv_pc:
  assumes "lazy_inv f v c pcs"
  shows "pcs t = LazyRead \<Longrightarrow> once_init (lazy_inner c) = 2" and "pcs t = LazyLoop \<Longrightarrow> once_init (lazy_inner c) \<noteq> 0"
    and "pcs t = LazyGot w \<Longrightarrow> once_init (lazy_inner c) = 2 \<and> w = v"
proof -
  have "once_inv (lazy_inner c) (lazy_pc_once v \<circ> pcs)"
    using assms by (simp add: lazy_inv_def)
  then have pc: "(lazy_pc_once v \<circ> pcs) t = GetRead \<Longrightarrow> once_init (lazy_inner c) = 2"
    "(lazy_pc_once v \<circ> pcs) t = GetDone (Some w) \<Longrightarrow> once_init (lazy_inner c) = 2 \<and> once_value (lazy_inner c) = Some w"
    by (auto simp only: once_inv_def)
  show "pcs t = LazyRead \<Longrightarrow> once_init (lazy_inner c) = 2" and "pcs t = LazyLoop \<Longrightarrow> once_init (lazy_inner c) \<noteq> 0"
    using pc(1) assms by (auto simp: lazy_inv_def)
  show "pcs t = LazyGot w \<Longrightarrow> once_init (lazy_inner c) = 2 \<and> w = v"
    using pc(2) assms by (simp add: lazy_inv_def)
qed

lemma lazy_simulated:
  assumes inv: "lazy_inv f v c pcs" and f: "f () = Return v" and step: "lazy_thread ch (pcs t) c = Return (pc', c')"
  shows "(interleave once_thread)\<^sup>*\<^sup>* (lazy_inner c, lazy_pc_once v \<circ> pcs) (lazy_inner c', (lazy_pc_once v \<circ> pcs)(t := lazy_pc_once v pc'))"
    and "if once_value (lazy_inner c') = None then lazy_fun c' = Some f else lazy_fun c' = None \<and> once_value (lazy_inner c') = Some v"
proof -
  let ?ps = "lazy_pc_once v \<circ> pcs"
  have one: "once_thread ch (?ps t) (lazy_inner c) = Return (p, s) \<Longrightarrow> (interleave once_thread)\<^sup>*\<^sup>* (lazy_inner c, ?ps) (s, ?ps(t := p))" for ch p s
    by (rule aloneD [OF alone_step refl])
  have two: "(interleave once_thread)\<^sup>*\<^sup>* (lazy_inner c, ?ps) (s, ?ps(t := GetLoad))"
    if "once_thread CallGet (?ps t) (lazy_inner c) = Return (p, s)" "p = SetDone x \<or> p = GetDone y" for p s x y
  proof (rule aloneD)
    have "once_thread CallGet p s = Return (GetLoad, s)"
      using that(2) by auto
    from alone_next [where thread = once_thread, OF that(1) alone_step [where thread = once_thread, OF this]]
    show "alone once_thread t (?ps t) (lazy_inner c) GetLoad s" .
  qed (rule refl)
  have fn: "once_value (lazy_inner c) = None \<and> lazy_fun c = Some f" if "pcs t = LazyRun"
    using once_owner_step(3) [of "lazy_inner c" ?ps t] inv that by (auto simp: lazy_inv_def split: if_splits)
  have val: "if once_value (lazy_inner c) = None then lazy_fun c = Some f else lazy_fun c = None \<and> once_value (lazy_inner c) = Some v"
    using inv by (simp add: lazy_inv_def)
  show "if once_value (lazy_inner c') = None then lazy_fun c' = Some f else lazy_fun c' = None \<and> once_value (lazy_inner c') = Some v"
    using step val f fn by (cases "pcs t") (auto simp: compare_exchange_def bindR_eq_Return split: if_splits)
  show "(interleave once_thread)\<^sup>*\<^sup>* (lazy_inner c, ?ps) (lazy_inner c', ?ps(t := lazy_pc_once v pc'))"
  proof (cases "pcs t")
    case LazySet
    then show ?thesis
      using step one [of CallGet] two by (auto simp: compare_exchange_def split: if_splits)
  next
    case LazyLoop
    then show ?thesis
      using step one [of CallGet] two by (auto split: if_splits)
  next
    case LazyStore
    then show ?thesis
      using step two by auto
  qed (use step one [of "CallSet v"] fn f in \<open>auto simp: bindR_eq_Return\<close>)
qed

text \<open>The closure of the cell returns a value.\<close>

interpretation lazy: threads lazy_thread "\<lambda>c pcs. f () = Return v \<and> lazy_inv f v c pcs" for f v
proof
  fix c :: "'a AtomicLazyCell" and pcs ch t pc' c'
  assume inv: "f () = Return v \<and> lazy_inv f v c pcs" and step: "lazy_thread ch (pcs t) c = Return (pc', c')"
  note sim = lazy_simulated [OF conjunct2 [OF inv] conjunct1 [OF inv] step]
  have "(lazy_pc_once v \<circ> pcs)(t := lazy_pc_once v pc') = lazy_pc_once v \<circ> pcs(t := pc')"
    by auto
  moreover have "once_init (lazy_inner c') \<noteq> 0" if "(pcs(t := pc')) u = LazyLoop" for u
    using inv that step
    by (cases "pcs t") (auto simp: lazy_inv_def compare_exchange_def bindR_eq_Return split: if_splits)
  ultimately show "f () = Return v \<and> lazy_inv f v c' (pcs(t := pc'))"
    using sim once.reachable [OF sim(1)] inv by (simp add: lazy_inv_def)
next
  fix c :: "'a AtomicLazyCell" and pcs and ch :: unit and t
  assume inv: "f () = Return v \<and> lazy_inv f v c pcs"
  then have once: "once_inv (lazy_inner c) (lazy_pc_once v \<circ> pcs)"
    by (simp add: lazy_inv_def)
  note alive = once.no_panic [OF once, of CallGet t]
  show "\<exists>r. lazy_thread ch (pcs t) c = Return r"
  proof (cases "pcs t")
    case LazyRun
    then show ?thesis
      using once_owner_step(3) [OF once, of t] inv by (auto simp: lazy_inv_def)
  qed (use alive in \<open>auto simp: compare_exchange_def bindR_eq_Return split: if_splits\<close>)
qed

interpretation lazy: simulation lazy_thread "\<lambda>c pcs. f () = Return v \<and> lazy_inv f v c pcs" once_thread lazy_inner "lazy_pc_once v" for f v
  by unfold_locales (blast intro: lazy_simulated(1))

lemma lazy_inv_new: "lazy_inv f v (LazyCell_new f) (\<lambda>_. LazyIdle)"
proof -
  have "lazy_pc_once v \<circ> (\<lambda>_ :: nat. LazyIdle) = (\<lambda>_. OnceIdle)" by (simp add: comp_def)
  then show ?thesis
    using once_inv_new by (simp add: lazy_inv_def LazyCell_new_def) (simp add: OnceCell_new_def)
qed

text \<open>Every thread can finish: the one that has won the cell is never blocked, and after it nobody is.\<close>

lemma lazy_read_alone:
  assumes "once_init (lazy_inner c) = 2" and "once_value (lazy_inner c) = Some v"
    and "pc \<in> {LazyIdle, LazySet, LazyLoop, LazyRead}"
  shows "alone lazy_thread t pc c (LazyGot v) c"
proof -
  have read: "alone lazy_thread t LazyRead c (LazyGot v) c"
    by (rule alone_step) (simp add: OnceCell_get_unchecked_def assms(2))
  have loop: "alone lazy_thread t LazyLoop c (LazyGot v) c"
    by (rule alone_next [OF _ read]) (simp add: assms(1))
  have set: "alone lazy_thread t LazySet c (LazyGot v) c"
    by (rule alone_next [OF _ loop]) (simp add: assms(1) compare_exchange_def)
  have "alone lazy_thread t LazyIdle c (LazyGot v) c"
    by (rule alone_next [OF _ set]) simp
  with read loop set assms(3) show ?thesis by auto
qed

lemma lazy_publish_alone:
  assumes "lazy_inv f v c pcs" and "f () = Return v" and "pcs u = LazyRun \<or> pcs u = LazyStore"
  obtains c' where "alone lazy_thread u (pcs u) c LazyLoop c'" "once_init (lazy_inner c') = 2" "once_value (lazy_inner c') = Some v"
proof (cases "pcs u = LazyStore")
  case True
  have "once_value (lazy_inner c) \<noteq> None"
    using once_owner_step(3) [of "lazy_inner c" "lazy_pc_once v \<circ> pcs" u] assms(1) True by (auto simp: lazy_inv_def)
  then have "once_value (lazy_inner c) = Some v"
    using assms(1) by (auto simp: lazy_inv_def)
  moreover have "alone lazy_thread u (pcs u) c LazyLoop (c\<lparr>lazy_inner := (lazy_inner c)\<lparr>once_init := 2\<rparr>\<rparr>)"
    by (rule alone_step) (simp add: True)
  ultimately show thesis
    by (intro that [of "c\<lparr>lazy_inner := (lazy_inner c)\<lparr>once_init := 2\<rparr>\<rparr>"]) auto
next
  case False
  with assms(3) have u: "pcs u = LazyRun" by simp
  have "once_value (lazy_inner c) = None"
    using once_owner_step(3) [of "lazy_inner c" "lazy_pc_once v \<circ> pcs" u] assms(1) u by (auto simp: lazy_inv_def)
  then have f: "lazy_fun c = Some f"
    using assms(1) by (auto simp: lazy_inv_def)
  let ?c = "\<lparr>lazy_inner = (lazy_inner c)\<lparr>once_value := Some v\<rparr>, lazy_fun = None\<rparr>"
  have "alone lazy_thread u LazyStore ?c LazyLoop (?c\<lparr>lazy_inner := (lazy_inner ?c)\<lparr>once_init := 2\<rparr>\<rparr>)"
    by (rule alone_step) simp
  then have "alone lazy_thread u (pcs u) c LazyLoop (?c\<lparr>lazy_inner := (lazy_inner ?c)\<lparr>once_init := 2\<rparr>\<rparr>)"
    by (rule alone_next [rotated]) (simp add: u f assms(2))
  then show thesis
    by (intro that [of "?c\<lparr>lazy_inner := (lazy_inner ?c)\<lparr>once_init := 2\<rparr>\<rparr>"]) auto
qed

lemma lazy_can_finish:
  assumes "lazy_inv f v c pcs" and "f () = Return v"
  shows "\<exists>c' pcs'. (interleave lazy_thread)\<^sup>*\<^sup>* (c, pcs) (c', pcs') \<and> pcs' t = LazyGot v"
proof -
  have ready: "\<exists>c' pcs'. (interleave lazy_thread)\<^sup>*\<^sup>* (c, pcs) (c', pcs') \<and> pcs' t = LazyGot v"
    if "once_init (lazy_inner c) = 2" "once_value (lazy_inner c) = Some v" "pcs t \<in> {LazyIdle, LazySet, LazyLoop, LazyRead}" for c pcs
    using alone_from [where t = t and pcs = pcs, OF lazy_read_alone [OF that]]
    by (intro exI [of _ c] exI [of _ "pcs(t := LazyGot v)"]) simp
  have won: "\<exists>c' pcs'. (interleave lazy_thread)\<^sup>*\<^sup>* (c, pcs) (c', pcs') \<and> pcs' t = LazyGot v"
    if inv: "lazy_inv f v c pcs" and u: "pcs u = LazyRun \<or> pcs u = LazyStore" for c pcs u
  proof -
    obtain c' where c': "alone lazy_thread u (pcs u) c LazyLoop c'" "once_init (lazy_inner c') = 2" "once_value (lazy_inner c') = Some v"
      by (rule lazy_publish_alone [OF inv assms(2) u])
    have run: "(interleave lazy_thread)\<^sup>*\<^sup>* (c, pcs) (c', pcs(u := LazyLoop))"
      using c'(1) by (rule alone_from)
    have "owner ((lazy_pc_once v \<circ> pcs) u)" and once: "once_inv (lazy_inner c) (lazy_pc_once v \<circ> pcs)"
      using u inv by (auto simp: lazy_inv_def)
    note own = once_owner_step [where t = u, OF once this(1)]
    have "(pcs(u := LazyLoop)) t \<in> {LazyIdle, LazySet, LazyLoop, LazyRead}"
      using own(2) [of t] own(5) [of t] by (cases "pcs t") auto
    from ready [where pcs = "pcs(u := LazyLoop)", OF c'(2,3) this] run show ?thesis
      by (metis (no_types, lifting) rtranclp_trans)
  qed
  from assms(1) have "once_phase (lazy_inner c) (lazy_pc_once v \<circ> pcs)"
    by (simp add: lazy_inv_def once_inv_def)
  then show ?thesis
  proof (cases rule: once_phase_cases)
    case 1
    let ?c = "c\<lparr>lazy_inner := (lazy_inner c)\<lparr>once_init := 1\<rparr>\<rparr>"
    have win: "alone lazy_thread t LazySet c LazyRun ?c"
      by (rule alone_step) (simp add: 1 compare_exchange_def)
    have "pcs t = LazyIdle \<or> pcs t = LazySet"
      using 1(1) 1(3) [of t] lazy_inv_pc [OF assms(1), of t] by (cases "pcs t") auto
    then have "alone lazy_thread t (pcs t) c LazyRun ?c"
      using win alone_next [where thread = lazy_thread and pc = LazyIdle, OF _ win] by auto
    then have run: "(interleave lazy_thread)\<^sup>*\<^sup>* (c, pcs) (?c, pcs(t := LazyRun))"
      by (rule alone_from)
    have "lazy_inv f v ?c (pcs(t := LazyRun))"
      using lazy.reachable [OF run, of f v] assms by simp
    from won [OF this, of t] run show ?thesis
      by (metis (no_types, lifting) fun_upd_same rtranclp_trans)
  next
    case (2 u)
    then have "pcs u = LazyRun \<or> pcs u = LazyStore"
      by (cases "pcs u") auto
    from won [OF assms(1) this] show ?thesis .
  next
    case 3
    have v: "once_value (lazy_inner c) = Some v" and got: "\<And>w. pcs t = LazyGot w \<Longrightarrow> w = v"
      using 3(2) assms(1) lazy_inv_pc(3) [OF assms(1), of t] by (auto simp: lazy_inv_def)
    show ?thesis
    proof (cases "pcs t = LazyGot v")
      case False
      then have "pcs t \<in> {LazyIdle, LazySet, LazyLoop, LazyRead}"
        using got 3(3) [of t] by (cases "pcs t") auto
      then show ?thesis
        by (rule ready [OF 3(1) v])
    qed blast
  qed
qed

section \<open>AtomicCell\<close>

text \<open>
  \<open>spin_lock\<close>: the loop of \<open>lock\<close> around a weak compare-and-exchange, the closure as a read and a
  write of the value, and \<open>unlock\<close>. The closure is a function of the value; its result and the new
  value are what \<open>set\<close>, \<open>replace\<close> and \<open>get\<close> make of it.
\<close>

datatype ('a, 'u) spin_pc =
    SpinIdle
  | Spin "'a \<Rightarrow> 'u \<times> 'a"
  | CritRead "'a \<Rightarrow> 'u \<times> 'a"
  | CritWrite "'a \<Rightarrow> 'u \<times> 'a" 'a
  | SpinUnlock 'u
  | SpinDone 'u

primrec spin_thread ::
    "('a \<Rightarrow> 'u \<times> 'a) \<times> bool \<Rightarrow> ('a, 'u) spin_pc \<Rightarrow> 'a AtomicCell \<Rightarrow> (('a, 'u) spin_pc \<times> 'a AtomicCell) run" where
  "spin_thread ch SpinIdle c = Return (Spin (fst ch), c)"
| "spin_thread ch (Spin fn) c = (case if snd ch then (Err (locked c), locked c) else compare_exchange False True (locked c) of
     (Ok _, l) \<Rightarrow> Return (CritRead fn, c\<lparr>locked := l\<rparr>)
   | (Err _, l) \<Rightarrow> Return (Spin fn, c\<lparr>locked := l\<rparr>))"
| "spin_thread ch (CritRead fn) c = Return (CritWrite fn (cell_value c), c)"
| "spin_thread ch (CritWrite fn v) c = (case fn v of (out, w) \<Rightarrow> Return (SpinUnlock out, c\<lparr>cell_value := w\<rparr>))"
| "spin_thread ch (SpinUnlock out) c = Return (SpinDone out, AtomicCell_unlock c)"
| "spin_thread ch (SpinDone out) c = Return (Spin (fst ch), c)"

text \<open>The specification: the whole of \<open>spin_lock\<close>, as it runs alone, in one step.\<close>

datatype ('a, 'u) serial_pc = SerialIdle | SerialCall "'a \<Rightarrow> 'u \<times> 'a" | SerialDone 'u

primrec serial_thread ::
    "('a \<Rightarrow> 'u \<times> 'a) \<Rightarrow> ('a, 'u) serial_pc \<Rightarrow> 'a AtomicCell \<Rightarrow> (('a, 'u) serial_pc \<times> 'a AtomicCell) run" where
  "serial_thread ch SerialIdle c = Return (SerialCall ch, c)"
| "serial_thread ch (SerialCall fn) c = bindR (AtomicCell_spin_lock (\<lambda>v. Return (fn v)) c) (\<lambda>(out, c). Return (SerialDone out, c))"
| "serial_thread ch (SerialDone out) c = Return (SerialCall ch, c)"

primrec serial_pc_of :: "('a, 'u) spin_pc \<Rightarrow> ('a, 'u) serial_pc" where
  "serial_pc_of SpinIdle = SerialIdle"
| "serial_pc_of (Spin fn) = SerialCall fn"
| "serial_pc_of (CritRead fn) = SerialCall fn"
| "serial_pc_of (CritWrite fn v) = SerialCall fn"
| "serial_pc_of (SpinUnlock out) = SerialDone out"
| "serial_pc_of (SpinDone out) = SerialDone out"

primrec holds_lock :: "('a, 'u) spin_pc \<Rightarrow> bool" where
  "holds_lock SpinIdle = False"
| "holds_lock (Spin fn) = False"
| "holds_lock (CritRead fn) = True"
| "holds_lock (CritWrite fn v) = True"
| "holds_lock (SpinUnlock out) = True"
| "holds_lock (SpinDone out) = False"

definition spin_inv :: "'a AtomicCell \<Rightarrow> (nat \<Rightarrow> ('a, 'u) spin_pc) \<Rightarrow> bool" where
  "spin_inv c pcs \<longleftrightarrow>
     (if locked c then \<exists>t. holds_lock (pcs t) \<and> (\<forall>u. u \<noteq> t \<longrightarrow> \<not> holds_lock (pcs u)) else \<forall>t. \<not> holds_lock (pcs t))
   \<and> (\<forall>t fn v. pcs t = CritWrite fn v \<longrightarrow> v = cell_value c)"

lemma spin_holder:
  assumes "spin_inv c pcs" and "holds_lock (pcs t)"
  shows "locked c" and "u \<noteq> t \<Longrightarrow> \<not> holds_lock (pcs u)" and "u \<noteq> t \<Longrightarrow> pcs u \<noteq> CritWrite fn v"
proof -
  show "locked c"
    using assms by (auto simp: spin_inv_def split: if_splits)
  then show free: "u \<noteq> t \<Longrightarrow> \<not> holds_lock (pcs u)"
    using assms unfolding spin_inv_def by metis
  then show "u \<noteq> t \<Longrightarrow> pcs u \<noteq> CritWrite fn v"
    by auto
qed

lemma spin_inv_keep:
  assumes "spin_inv c pcs" and "holds_lock pc' = holds_lock (pcs t)" and "locked c' = locked c"
    and "\<And>fn v. pc' = CritWrite fn v \<Longrightarrow> v = cell_value c'"
    and "cell_value c' \<noteq> cell_value c \<Longrightarrow> holds_lock (pcs t)"
  shows "spin_inv c' (pcs(t := pc'))"
proof -
  have "v = cell_value c'" if "u \<noteq> t" "pcs u = CritWrite fn v" for u fn v
    using spin_holder(3) [OF assms(1), of t u fn v] assms(1,5) that by (auto simp: spin_inv_def)
  moreover have "holds_lock ((pcs(t := pc')) u) = holds_lock (pcs u)" for u
    using assms(2) by auto
  ultimately show ?thesis
    using assms(1,3,4) unfolding spin_inv_def by auto
qed

interpretation spin: threads spin_thread spin_inv
proof
  fix c :: "'a AtomicCell" and pcs and ch :: "('a \<Rightarrow> 'u \<times> 'a) \<times> bool" and t pc' c'
  assume inv: "spin_inv c pcs" and step: "spin_thread ch (pcs t) c = Return (pc', c')"
  show "spin_inv c' (pcs(t := pc'))"
  proof (cases "pcs t")
    case (Spin fn)
    show ?thesis
    proof (cases "snd ch \<or> locked c")
      case True
      then have "pc' = Spin fn \<and> locked c' = locked c \<and> cell_value c' = cell_value c"
        using step Spin by (cases "snd ch") (auto simp: compare_exchange_def)
      then show ?thesis
        by (intro spin_inv_keep [OF inv]) (simp_all add: Spin)
    next
      case False
      then have "pc' = CritRead fn" "c' = c\<lparr>locked := True\<rparr>" "\<not> locked c"
        using step Spin by (auto simp: compare_exchange_def)
      then show ?thesis
        using inv by (auto simp: spin_inv_def)
    qed
  next
    case (SpinUnlock out)
    then have "holds_lock (pcs t)" by simp
    note hold = spin_holder [OF inv this]
    have "v = cell_value c" if "pcs u = CritWrite fn v" for u fn v
      using inv that by (auto simp: spin_inv_def)
    then show ?thesis
      using step SpinUnlock hold(2) by (auto simp: spin_inv_def AtomicCell_unlock_def)
  qed (use step in \<open>auto intro!: spin_inv_keep [OF inv] split: prod.splits\<close>)
next
  fix c :: "'a AtomicCell" and pcs and ch :: "('a \<Rightarrow> 'u \<times> 'a) \<times> bool" and t
  show "\<exists>r. spin_thread ch (pcs t) c = Return r"
    by (cases "pcs t") (auto simp: compare_exchange_def split: prod.splits)
qed

lemma spin_inv_new: "spin_inv (AtomicCell_new v) (\<lambda>_. SpinIdle)"
  by (simp add: spin_inv_def AtomicCell_new_def)

lemma spin_simulated:
  assumes inv: "spin_inv c pcs" and step: "spin_thread ch (pcs t) c = Return (pc', c')"
  shows "(interleave serial_thread)\<^sup>*\<^sup>* (AtomicCell_new (cell_value c), serial_pc_of \<circ> pcs)
    (AtomicCell_new (cell_value c'), (serial_pc_of \<circ> pcs)(t := serial_pc_of pc'))"
proof -
  let ?ps = "serial_pc_of \<circ> pcs"
  have stutter: "?ps(t := serial_pc_of pc') = ?ps" if "serial_pc_of pc' = serial_pc_of (pcs t)"
    using that by auto
  have serial: "(interleave serial_thread)\<^sup>*\<^sup>* (AtomicCell_new (cell_value c), ?ps) (d, ?ps(t := pc))"
    if "serial_thread (fst ch) (?ps t) (AtomicCell_new (cell_value c)) = Return (pc, d)" for pc d
    using that by (blast intro: run_thread)
  show ?thesis
  proof (cases "pcs t")
    case (CritWrite fn v)
    then have "v = cell_value c"
      using inv by (auto simp: spin_inv_def)
    with CritWrite show ?thesis
      using step by (intro serial) (auto simp: spin_lock_eq AtomicCell_new_def split: prod.splits)
  next
    case (Spin fn)
    then have "serial_pc_of pc' = serial_pc_of (pcs t) \<and> cell_value c' = cell_value c"
      using step by (cases "snd ch"; cases "locked c") (auto simp: compare_exchange_def)
    with stutter show ?thesis by simp
  qed (use step serial stutter in \<open>auto simp: AtomicCell_unlock_def\<close>)
qed

interpretation spin: simulation spin_thread spin_inv serial_thread "\<lambda>c. AtomicCell_new (cell_value c)" serial_pc_of
  by unfold_locales (rule spin_simulated)

text \<open>The thread that holds the lock can give it back, and then every other one can take it.\<close>

lemma spin_release_alone:
  assumes "holds_lock (pcs u)" and "spin_inv c pcs"
  obtains c' out where "alone spin_thread u (pcs u) c (SpinDone out) c'" "\<not> locked c'"
proof -
  have unlock: "alone spin_thread u (SpinUnlock out) c (SpinDone out) (AtomicCell_unlock c)" for out c
    by (rule alone_step) simp
  have wr: "alone spin_thread u (CritWrite fn v) c (SpinDone (fst (fn v))) (AtomicCell_unlock (c\<lparr>cell_value := snd (fn v)\<rparr>))" for fn v c
    by (rule alone_next [OF _ unlock]) (simp add: case_prod_beta)
  have read: "alone spin_thread u (CritRead fn) c (SpinDone (fst (fn (cell_value c)))) (AtomicCell_unlock (c\<lparr>cell_value := snd (fn (cell_value c))\<rparr>))" for fn c
    by (rule alone_next [OF _ wr]) simp
  have free: "\<not> locked (AtomicCell_unlock c)" for c :: "'a AtomicCell"
    by (simp add: AtomicCell_unlock_def)
  show thesis
  proof (cases "pcs u")
    case (CritRead fn)
    then show thesis using that [OF _ free] read by metis
  next
    case (CritWrite fn v)
    then show thesis using that [OF _ free] wr by metis
  next
    case (SpinUnlock out)
    then show thesis using that [OF _ free] unlock by metis
  qed (use assms(1) in simp_all)
qed

lemma spin_can_lock:
  assumes "spin_inv c pcs" and "pcs t = Spin fn"
  shows "\<exists>c' pcs'. (interleave spin_thread)\<^sup>*\<^sup>* (c, pcs) (c', pcs') \<and> pcs' t = CritRead fn"
proof -
  have take: "\<exists>c' pcs'. (interleave spin_thread)\<^sup>*\<^sup>* (c, pcs) (c', pcs') \<and> pcs' t = CritRead fn"
    if "\<not> locked c" "pcs t = Spin fn" for c and pcs :: "nat \<Rightarrow> ('a, 'b) spin_pc"
  proof -
    have "interleave spin_thread (c, pcs) (c\<lparr>locked := True\<rparr>, pcs(t := CritRead fn))"
      by (rule run_thread [where ch = "(fn, False)"]) (simp add: that compare_exchange_def)
    then show ?thesis
      by (metis fun_upd_same r_into_rtranclp)
  qed
  show ?thesis
  proof (cases "locked c")
    case True
    then obtain u where u: "holds_lock (pcs u)"
      using assms(1) by (auto simp: spin_inv_def)
    then have "u \<noteq> t" using assms(2) by auto
    obtain c' out where "alone spin_thread u (pcs u) c (SpinDone out) c'" and free: "\<not> locked c'"
      by (rule spin_release_alone [OF u assms(1)])
    then have run: "(interleave spin_thread)\<^sup>*\<^sup>* (c, pcs) (c', pcs(u := SpinDone out))"
      by (blast intro: alone_from)
    from take [OF free, of "pcs(u := SpinDone out)"] \<open>u \<noteq> t\<close> assms(2) run show ?thesis
      by (metis (no_types, lifting) fun_upd_apply rtranclp_trans)
  qed (use take assms(2) in blast)
qed

section \<open>AtomicRefCell\<close>

text \<open>
  A guard is held from a successful \<open>borrow_mut\<close> until it is dropped; the value is written and read
  through it. A failed \<open>borrow_mut\<close> leaves the thread without a guard.
\<close>

datatype 'a ref_call = RefWrite 'a | RefDrop

datatype 'a ref_pc = RefIdle | RefGuard 'a

definition ref_thread :: "'a ref_call \<Rightarrow> 'a ref_pc \<Rightarrow> 'a AtomicRefCell \<Rightarrow> ('a ref_pc \<times> 'a AtomicRefCell) run" where
  "ref_thread ch pc c = (case pc of
     RefIdle \<Rightarrow> (case RefCell_borrow_mut c of (Ok v, c) \<Rightarrow> Return (RefGuard v, c) | (Err e, c) \<Rightarrow> Return (RefIdle, c))
   | RefGuard v \<Rightarrow> (case ch of
       RefWrite w \<Rightarrow> Return (RefGuard w, c\<lparr>ref_data := w\<rparr>)
     | RefDrop \<Rightarrow> bindR (drop_borrow (ref_state c)) (\<lambda>st. Return (RefIdle, c\<lparr>ref_state := st\<rparr>))))"

definition ref_inv :: "'a AtomicRefCell \<Rightarrow> (nat \<Rightarrow> 'a ref_pc) \<Rightarrow> bool" where
  "ref_inv c pcs \<longleftrightarrow>
     (ref_state c = FREE \<and> (\<forall>t. pcs t = RefIdle))
   \<or> (ref_state c = BORROWED \<and> (\<exists>t. pcs t = RefGuard (ref_data c) \<and> (\<forall>u. u \<noteq> t \<longrightarrow> pcs u = RefIdle)))"

lemma ref_inv_cases:
  assumes "ref_inv c pcs"
  obtains "ref_state c = FREE" "\<And>t. pcs t = RefIdle"
  | t where "ref_state c = BORROWED" "pcs t = RefGuard (ref_data c)" "\<And>u. u \<noteq> t \<Longrightarrow> pcs u = RefIdle"
  using assms that unfolding ref_inv_def by metis

interpretation refs: threads ref_thread ref_inv
proof
  fix c :: "'a AtomicRefCell" and pcs ch t pc' c'
  assume inv: "ref_inv c pcs" and step: "ref_thread ch (pcs t) c = Return (pc', c')"
  from inv show "ref_inv c' (pcs(t := pc'))"
  proof (cases rule: ref_inv_cases)
    case 1
    then show ?thesis
      using step by (auto simp: ref_thread_def ref_inv_def refcell_defs)
  next
    case (2 u)
    then show ?thesis
      using step
      by (cases "t = u"; cases ch) (auto simp: ref_thread_def ref_inv_def refcell_defs fun_upd_idem split: if_splits)
  qed
next
  fix c :: "'a AtomicRefCell" and pcs ch t
  assume "ref_inv c pcs"
  then show "\<exists>r. ref_thread ch (pcs t) c = Return r"
  proof (cases rule: ref_inv_cases)
    case 1
    then show ?thesis
      by (simp add: ref_thread_def refcell_defs)
  next
    case (2 u)
    then show ?thesis
      by (cases "t = u"; cases ch) (auto simp: ref_thread_def refcell_defs)
  qed
qed

lemma ref_inv_new: "ref_inv (AtomicRefCell_new v) (\<lambda>_. RefIdle)"
  by (simp add: ref_inv_def refcell_defs)

section \<open>The loop of \<open>fetch_update\<close>\<close>

text \<open>
  The operations on the entries of the retype table use \<open>fetch_update\<close>: a load, and then a weak
  compare-and-exchange that is tried again with the value it has seen. It returns the value it
  has replaced, or the value that the closure has rejected.
\<close>

datatype 'v fetch_pc =
    FetchIdle
  | FetchLoad "'v \<Rightarrow> 'v option"
  | FetchCas "'v \<Rightarrow> 'v option" 'v 'v
  | FetchDone "('v, 'v) result"

definition fetch_try :: "('v \<Rightarrow> 'v option) \<Rightarrow> 'v \<Rightarrow> 'v fetch_pc" where
  "fetch_try fn prev = (case fn prev of None \<Rightarrow> FetchDone (Err prev) | Some v \<Rightarrow> FetchCas fn prev v)"

primrec fetch_thread :: "('v \<Rightarrow> 'v option) \<times> bool \<Rightarrow> 'v fetch_pc \<Rightarrow> 'v \<Rightarrow> ('v fetch_pc \<times> 'v) run" where
  "fetch_thread ch FetchIdle x = Return (FetchLoad (fst ch), x)"
| "fetch_thread ch (FetchLoad fn) x = Return (fetch_try fn x, x)"
| "fetch_thread ch (FetchCas fn prev v) x = (case if snd ch then (Err x, x) else compare_exchange prev v x of
     (Ok old, y) \<Rightarrow> Return (FetchDone (Ok old), y)
   | (Err old, y) \<Rightarrow> Return (fetch_try fn old, y))"
| "fetch_thread ch (FetchDone r) x = Return (FetchLoad (fst ch), x)"

datatype 'v update_pc = UpdateIdle | UpdateCall "'v \<Rightarrow> 'v option" | UpdateDone "('v, 'v) result"

primrec update_thread :: "('v \<Rightarrow> 'v option) \<Rightarrow> 'v update_pc \<Rightarrow> 'v \<Rightarrow> ('v update_pc \<times> 'v) run" where
  "update_thread ch UpdateIdle x = Return (UpdateCall ch, x)"
| "update_thread ch (UpdateCall fn) x = bindR (fetch_update (\<lambda>v. Return (fn v)) x) (\<lambda>(r, y). Return (UpdateDone r, y))"
| "update_thread ch (UpdateDone r) x = Return (UpdateCall ch, x)"

primrec update_pc_of :: "'v fetch_pc \<Rightarrow> 'v update_pc" where
  "update_pc_of FetchIdle = UpdateIdle"
| "update_pc_of (FetchLoad fn) = UpdateCall fn"
| "update_pc_of (FetchCas fn prev v) = UpdateCall fn"
| "update_pc_of (FetchDone r) = UpdateDone r"

definition fetch_inv :: "'v \<Rightarrow> (nat \<Rightarrow> 'v fetch_pc) \<Rightarrow> bool" where
  "fetch_inv x pcs \<longleftrightarrow> (\<forall>t fn prev v. pcs t = FetchCas fn prev v \<longrightarrow> fn prev = Some v)"

lemma fetch_try_cas: "fetch_try fn x = FetchCas fn' prev v \<Longrightarrow> fn' prev = Some v"
  by (auto simp: fetch_try_def split: option.splits)

interpretation fetch: threads fetch_thread fetch_inv
proof
  fix x and pcs :: "nat \<Rightarrow> 'a fetch_pc" and ch t pc' x'
  assume inv: "fetch_inv x pcs" and step: "fetch_thread ch (pcs t) x = Return (pc', x')"
  have "fn prev = Some v" if "pc' = FetchCas fn prev v" for fn prev v
    using step that
    by (cases "pcs t"; cases "snd ch") (auto simp: compare_exchange_def dest: fetch_try_cas split: if_splits)
  with inv show "fetch_inv x' (pcs(t := pc'))"
    by (auto simp: fetch_inv_def)
next
  fix x and pcs :: "nat \<Rightarrow> 'a fetch_pc" and ch t
  show "\<exists>r. fetch_thread ch (pcs t) x = Return r"
    by (cases "pcs t") (auto simp: compare_exchange_def)
qed

lemma fetch_simulated:
  assumes inv: "fetch_inv x pcs" and step: "fetch_thread ch (pcs t) x = Return (pc', x')"
  shows "(interleave update_thread)\<^sup>*\<^sup>* (x, update_pc_of \<circ> pcs) (x', (update_pc_of \<circ> pcs)(t := update_pc_of pc'))"
proof -
  let ?ps = "update_pc_of \<circ> pcs"
  have stutter: "?ps(t := update_pc_of pc') = ?ps" if "update_pc_of pc' = update_pc_of (pcs t)"
    using that by auto
  have atomic: "(interleave update_thread)\<^sup>*\<^sup>* (x, ?ps) (y, ?ps(t := pc))"
    if "update_thread (fst ch) (?ps t) x = Return (pc, y)" for pc y
    using that by (blast intro: run_thread)
  have retry: "(interleave update_thread)\<^sup>*\<^sup>* (x, ?ps) (x, ?ps(t := update_pc_of (fetch_try fn x)))" if "?ps t = UpdateCall fn" for fn
  proof (cases "fn x")
    case None
    then show ?thesis
      using atomic that by (simp add: fetch_try_def fetch_update_def)
  next
    case (Some v)
    then have "?ps(t := update_pc_of (fetch_try fn x)) = ?ps"
      using that by (auto simp: fetch_try_def)
    then show ?thesis by simp
  qed
  show ?thesis
  proof (cases "pcs t")
    case (FetchCas fn prev v)
    then have "fn prev = Some v"
      using inv by (auto simp: fetch_inv_def)
    then show ?thesis
      using step FetchCas retry atomic
      by (cases "snd ch"; cases "x = prev") (auto simp: compare_exchange_def fetch_update_def)
  qed (use step retry atomic in auto)
qed

interpretation fetch: simulation fetch_thread fetch_inv update_thread "\<lambda>x. x" update_pc_of
  by unfold_locales (rule fetch_simulated)

lemma idle_pcs:
  "serial_pc_of \<circ> (\<lambda>_. SpinIdle) = (\<lambda>_. SerialIdle)" "update_pc_of \<circ> (\<lambda>_. FetchIdle) = (\<lambda>_. UpdateIdle)"
  by (simp_all add: comp_def)

section \<open>Properties\<close>

text \<open>
  C12. A once cell is written once, whatever the threads do that set and read it: a thread that is
  about to write the value is the only one that touches it, no access panics or reads an
  uninitialised value, and a value that a thread has read stays the value of the cell.
\<close>

theorem once_cell_is_written_once:
  assumes "(interleave once_thread)\<^sup>*\<^sup>* (OnceCell_new, \<lambda>_. OnceIdle) (c, pcs)"
  shows "(pcs t = SetWrite v \<and> u \<noteq> t \<longrightarrow> pcs u \<noteq> SetWrite w \<and> pcs u \<noteq> SetStore \<and> pcs u \<noteq> GetRead)
    \<and> (\<exists>r. once_thread ch (pcs t) c = Return r)
    \<and> (pcs t = GetDone (Some v) \<and> (interleave once_thread)\<^sup>*\<^sup>* (c, pcs) (c', pcs') \<longrightarrow> OnceCell_get c' = Return (Some v))"
proof (intro conjI impI)
  have inv: "once_inv c pcs"
    by (rule once.reachable [OF assms once_inv_new])
  show "\<exists>r. once_thread ch (pcs t) c = Return r"
    by (rule once.no_panic [OF inv])
  show "pcs u \<noteq> SetWrite w" "pcs u \<noteq> SetStore" "pcs u \<noteq> GetRead" if "pcs t = SetWrite v \<and> u \<noteq> t"
    using once_owner_step(2,4) [OF inv, of t u] that by auto
  assume got: "pcs t = GetDone (Some v) \<and> (interleave once_thread)\<^sup>*\<^sup>* (c, pcs) (c', pcs')"
  then have "once_init c = 2 \<and> once_value c = Some v"
    using inv by (auto simp: once_inv_def)
  with once_value_stable [OF conjunct2 [OF got] inv] show "OnceCell_get c' = Return (Some v)"
    by (simp add: OnceCell_get_def OnceCell_get_unchecked_def)
qed

lemma once_sample_run:
  "(interleave once_thread)\<^sup>*\<^sup>* (OnceCell_new, \<lambda>_. OnceIdle)
     (\<lparr>once_value = Some 7, once_init = 2\<rparr>, (\<lambda>_. OnceIdle)(0 := SetDone (Ok ()), 1 := GetDone (Some 7 :: nat option)))"
proof -
  let ?c = "\<lparr>once_value = Some 7, once_init = 2\<rparr> :: nat AtomicOnceCell"
  have "alone once_thread 0 (SetCas 7) OnceCell_new (SetDone (Ok ())) ?c"
    by (rule once_set_alone) (simp_all add: OnceCell_set_eq, simp add: OnceCell_new_def)
  then have "alone once_thread 0 OnceIdle OnceCell_new (SetDone (Ok ())) ?c"
    by (rule alone_next [where ch = "CallSet 7", rotated]) simp
  then have set: "(interleave once_thread)\<^sup>*\<^sup>* (OnceCell_new, \<lambda>_. OnceIdle) (?c, (\<lambda>_. OnceIdle)(0 := SetDone (Ok ())))"
    by (rule aloneD) simp
  have "alone once_thread 1 GetRead ?c (GetDone (Some 7)) ?c"
    by (rule alone_step) (simp add: OnceCell_get_unchecked_def)
  then have "alone once_thread 1 GetLoad ?c (GetDone (Some 7)) ?c"
    by (rule alone_next [rotated]) simp
  then have "alone once_thread 1 OnceIdle ?c (GetDone (Some 7)) ?c"
    by (rule alone_next [where ch = CallGet, rotated]) simp
  then have "(interleave once_thread)\<^sup>*\<^sup>* (?c, (\<lambda>_. OnceIdle)(0 := SetDone (Ok ())))
      (?c, (\<lambda>_. OnceIdle)(0 := SetDone (Ok ()), 1 := GetDone (Some 7)))"
    by (rule aloneD) simp
  with set show ?thesis
    by (rule rtranclp_trans)
qed

theorem once_cell_is_written_once_witness:
  "OnceCell_get \<lparr>once_value = Some (7 :: nat), once_init = 2\<rparr> = Return (Some 7)"
  using once_cell_is_written_once [OF once_sample_run, where t = 1 and v = 7 and c' = "\<lparr>once_value = Some 7, once_init = 2\<rparr>"
      and pcs' = "(\<lambda>_. OnceIdle)(0 := SetDone (Ok ()), 1 := GetDone (Some 7))"] by simp

text \<open>
  C13. A lazy cell computes its value once and every thread that calls \<open>get\<close> can have it: whatever
  the threads do, no access panics, each value returned is the one that the closure returns, and
  from every state each thread can still finish.
\<close>

theorem lazy_cell_computes_once:
  assumes "f () = Return v" and "(interleave lazy_thread)\<^sup>*\<^sup>* (LazyCell_new f, \<lambda>_. LazyIdle) (c, pcs)"
  shows "(\<exists>r. lazy_thread ch (pcs t) c = Return r) \<and> (pcs t = LazyGot w \<longrightarrow> w = v)
    \<and> (\<exists>c' pcs'. (interleave lazy_thread)\<^sup>*\<^sup>* (c, pcs) (c', pcs') \<and> pcs' t = LazyGot v)"
proof -
  have inv: "lazy_inv f v c pcs"
    using lazy.reachable [OF assms(2), of f v] assms(1) by (simp add: lazy_inv_new)
  then show ?thesis
    using lazy.no_panic [of f v c pcs ch t] lazy_inv_pc(3) [OF inv, of t w] lazy_can_finish [OF inv assms(1), of t] assms(1) by blast
qed

theorem lazy_cell_computes_once_witness:
  "\<exists>c' pcs'. (interleave lazy_thread)\<^sup>*\<^sup>* (LazyCell_new (\<lambda>_. Return (7 :: nat)), \<lambda>_. LazyIdle) (c', pcs') \<and> pcs' 3 = LazyGot 7"
  using lazy_cell_computes_once [of "\<lambda>_. Return 7" "7 :: nat", OF refl rtranclp.rtrancl_refl, of "()" 3] by blast

text \<open>
  C11. The spin lock of an atomic cell serialises the closures that the threads pass to it: at most
  one thread is between \<open>lock\<close> and \<open>unlock\<close>, every interleaving has the results and the value of
  a run in which each call is executed alone, and a thread that waits for the lock can still get it.
\<close>

theorem spin_lock_serialises:
  assumes "(interleave spin_thread)\<^sup>*\<^sup>* (AtomicCell_new v, \<lambda>_. SpinIdle) (c, pcs)"
  shows "(interleave serial_thread)\<^sup>*\<^sup>* (AtomicCell_new v, \<lambda>_. SerialIdle) (AtomicCell_new (cell_value c), serial_pc_of \<circ> pcs)
    \<and> (holds_lock (pcs t) \<and> holds_lock (pcs u) \<longrightarrow> t = u)
    \<and> (pcs t = Spin fn \<longrightarrow> (\<exists>c' pcs'. (interleave spin_thread)\<^sup>*\<^sup>* (c, pcs) (c', pcs') \<and> pcs' t = CritRead fn))"
proof -
  have inv: "spin_inv c pcs"
    by (rule spin.reachable [OF assms spin_inv_new])
  from spin.refines [OF assms spin_inv_new] show ?thesis
    using spin_holder(2) [OF inv, of t u] spin_can_lock [OF inv, of t fn] by (auto simp: AtomicCell_new_def idle_pcs)
qed

theorem spin_lock_serialises_witness:
  "\<exists>c' pcs'. (interleave spin_thread)\<^sup>*\<^sup>* (AtomicCell_new (5 :: nat), (\<lambda>_. SpinIdle)(1 := Spin (\<lambda>v. (v, Suc v)))) (c', pcs')
     \<and> pcs' 1 = CritRead (\<lambda>v. (v, Suc v))"
proof -
  have "(interleave spin_thread)\<^sup>*\<^sup>* (AtomicCell_new (5 :: nat), \<lambda>_. SpinIdle) (AtomicCell_new 5, (\<lambda>_. SpinIdle)(1 := Spin (\<lambda>v. (v, Suc v))))"
    by (rule r_into_rtranclp, rule run_thread [where ch = "(\<lambda>v. (v, Suc v), False)"]) simp
  from spin_lock_serialises [OF this, of 1 1] show ?thesis by simp
qed



text \<open>
  The loop of \<open>fetch_update\<close>, with which the retype table changes its entries, is one atomic
  update: every interleaving of such loops has the results and the value of a run in which each
  of them happens at once.
\<close>

lemma fetch_update_is_atomic:
  assumes "(interleave fetch_thread)\<^sup>*\<^sup>* (x, \<lambda>_. FetchIdle) (y, pcs)"
  shows "(interleave update_thread)\<^sup>*\<^sup>* (x, \<lambda>_. UpdateIdle) (y, update_pc_of \<circ> pcs)"
  using fetch.refines [OF assms] by (simp add: fetch_inv_def idle_pcs)

end
