(* ===== verification/Platform.thy ===== *)
theory Platform
  imports Prelude Paging Cells Exec
begin

text \<open>
  The processor tables and the timer (\<open>arch/x86_64.rs\<close>, \<open>gdt.rs\<close>, \<open>interrupts.rs\<close>, the exception
  handlers of \<open>interrupts/handlers.rs\<close>, \<open>timer.rs\<close>, \<open>registers.rs\<close>).

  Descriptor tables, gates and the task state segment belong to the crate \<open>x86_64\<close>. Its functions are
  the fields of the record \<open>x86\<close>, an argument of the definitions, and \<open>x86_spec\<close> states what its
  documentation promises of them. The interrupt controllers (\<open>pic8259\<close>) and the ports are outputs: the
  machine records what is written to them.
\<close>

unbundle bit_operations_syntax

section \<open>The crate\<close>

datatype exception =
    BreakpointEx | GeneralProtectionFault | OverflowEx | DivideError | NonMaskableInterrupt | BoundRangeExceeded | DebugEx
  | InvalidOpcode | DeviceNotAvailable | InvalidTss | SegmentNotPresent | StackSegmentFault | X87FloatingPoint
  | AlignmentCheck | MachineCheck | SimdFloatingPoint | Virtualization | VmmCommunicationException | SecurityException
  | DoubleFault | PageFault

datatype handler = ExceptionHandler exception | SyscallHandler | TimerHandler | KeyboardHandler

datatype PrivilegeLevel = Ring0 | Ring3

record TaskStateSegment =
  privilege_stack_table :: "u64 list"
  interrupt_stack_table :: "u64 list"

datatype Descriptor = KernelCode | KernelData | UserCode | UserData | TssSegment TaskStateSegment

record ('g, 'd) x86 =
  gate_missing :: 'g
  set_handler_fn :: "u16 \<Rightarrow> handler \<Rightarrow> 'g \<Rightarrow> 'g"
  set_stack_index :: "u16 \<Rightarrow> 'g \<Rightarrow> 'g"
  set_privilege_level :: "PrivilegeLevel \<Rightarrow> 'g \<Rightarrow> 'g"
  gate_handler :: "'g \<Rightarrow> handler option"
  gate_stack :: "'g \<Rightarrow> u16 option"
  gate_selector :: "'g \<Rightarrow> u16"
  gate_level :: "'g \<Rightarrow> PrivilegeLevel"
  exception_vector :: "exception \<Rightarrow> u8"
  tss_new :: TaskStateSegment
  gdt_new :: 'd
  gdt_append :: "Descriptor \<Rightarrow> 'd \<Rightarrow> (u16 \<times> 'd) run"
  gdt_used :: "'d \<Rightarrow> nat"
  virt_add :: "u64 \<Rightarrow> u64 \<Rightarrow> u64 run"
  virt_try_new :: "u64 \<Rightarrow> (u64, unit) result"

text \<open>
  What the documentation of the crate says: a gate starts missing, with level 0. \<open>set_handler_fn\<close> makes a
  gate for the active code segment (its first argument here), of level 0, on the current stack; the
  other setters change one field. The exceptions have different vectors below 32. A new task state
  segment has all stacks zero. The first entry of a descriptor table is the null descriptor; a
  table has 8 entries, a segment takes one and the task state segment two, and a selector is the
  index of the entry with the privilege level of the descriptor in its low bits. Adding to an address
  of the upper half gives the sum when it stays in it.
\<close>

definition gates_spec :: "('g, 'd) x86 \<Rightarrow> bool" where
  "gates_spec X \<longleftrightarrow>
     gate_handler X (gate_missing X) = None \<and> gate_level X (gate_missing X) = Ring0
   \<and> (\<forall>cs h g. gate_handler X (set_handler_fn X cs h g) = Some h \<and> gate_level X (set_handler_fn X cs h g) = Ring0
        \<and> gate_stack X (set_handler_fn X cs h g) = None \<and> gate_selector X (set_handler_fn X cs h g) = cs)
   \<and> (\<forall>i g. gate_handler X (set_stack_index X i g) = gate_handler X g \<and> gate_level X (set_stack_index X i g) = gate_level X g
        \<and> gate_stack X (set_stack_index X i g) = Some i \<and> gate_selector X (set_stack_index X i g) = gate_selector X g)
   \<and> (\<forall>l g. gate_handler X (set_privilege_level X l g) = gate_handler X g \<and> gate_level X (set_privilege_level X l g) = l
        \<and> gate_stack X (set_privilege_level X l g) = gate_stack X g
        \<and> gate_selector X (set_privilege_level X l g) = gate_selector X g)
   \<and> inj (exception_vector X) \<and> (\<forall>e. exception_vector X e < 32)"

definition descriptor_entries :: "Descriptor \<Rightarrow> nat" where
  "descriptor_entries d = (case d of TssSegment _ \<Rightarrow> 2 | _ \<Rightarrow> 1)"

definition descriptor_level :: "Descriptor \<Rightarrow> u16" where
  "descriptor_level d = (if d = UserCode \<or> d = UserData then 3 else 0)"

definition tables_spec :: "('g, 'd) x86 \<Rightarrow> bool" where
  "tables_spec X \<longleftrightarrow>
     tss_new X = \<lparr>privilege_stack_table = replicate 3 0, interrupt_stack_table = replicate 7 0\<rparr>
   \<and> gdt_used X (gdt_new X) = 1
   \<and> (\<forall>d t. gdt_used X t + descriptor_entries d \<le> 8 \<longrightarrow>
        (\<exists>t'. gdt_append X d t = Return (of_nat (8 * gdt_used X t) OR descriptor_level d, t')
           \<and> gdt_used X t' = gdt_used X t + descriptor_entries d))
   \<and> (\<forall>a b. 0xFFFF800000000000 \<le> a \<and> unat a + unat b < 2 ^ 64 \<longrightarrow> virt_add X a b = Return (a + b))"

definition x86_spec :: "('g, 'd) x86 \<Rightarrow> bool" where
  "x86_spec X \<longleftrightarrow> gates_spec X \<and> tables_spec X"

section \<open>The machine\<close>

datatype io = PortWrite u16 u8 | PicInitialize u8 u8 | PicMasks u8 u8 | PicEndOfInterrupt u8

datatype segment_register = CodeSegment | StackSegment | DataSegment segment

record ('g, 'd) machine =
  m_gdt :: "'d option"
  m_segments :: "segment_register \<Rightarrow> u16"
  m_tss :: "(u16 \<times> TaskStateSegment) option"
  m_idt :: "(u8 \<Rightarrow> 'g) option"
  m_msr :: "u32 \<Rightarrow> u64"
  m_rflags :: u64
  m_io :: "io list"

definition emit :: "io \<Rightarrow> ('g, 'd) machine \<Rightarrow> ('g, 'd) machine" where
  "emit x m = m\<lparr>m_io := m_io m @ [x]\<rparr>"

section \<open>Descriptor tables\<close>

definition DOUBLE_FAULT_IST_INDEX :: u16 where "DOUBLE_FAULT_IST_INDEX = 0"
definition PAGE_FAULT_IST_INDEX :: u16 where "PAGE_FAULT_IST_INDEX = 1"

record Selectors =
  sel_code :: u16
  sel_data :: u16
  sel_user_code :: u16
  sel_user_data :: u16
  sel_tss :: u16

text \<open>The addresses of the static stacks are arguments.\<close>

definition interrupt_stack_end :: "('g, 'd) x86 \<Rightarrow> u64 \<Rightarrow> u64 run" where
  "interrupt_stack_end X interrupt_stack = virt_add X interrupt_stack PAGE_SIZE"

definition TSS_init :: "('g, 'd) x86 \<Rightarrow> u64 \<Rightarrow> u64 \<Rightarrow> TaskStateSegment run" where
  "TSS_init X stack interrupt_stack =
     (let tss = tss_new X in
     bindR (virt_add X stack PAGE_SIZE) (\<lambda>stack_end.
     let tss = tss\<lparr>interrupt_stack_table := (interrupt_stack_table tss)[unat DOUBLE_FAULT_IST_INDEX := stack_end]\<rparr> in
     bindR (interrupt_stack_end X interrupt_stack) (\<lambda>ie.
     Return (tss\<lparr>privilege_stack_table := (privilege_stack_table tss)[0 := ie]\<rparr>))))"

definition GDT_init :: "('g, 'd) x86 \<Rightarrow> TaskStateSegment \<Rightarrow> ('d \<times> Selectors) run" where
  "GDT_init X tss =
     (let gdt = gdt_new X in
     bindR (gdt_append X KernelCode gdt) (\<lambda>(code_selector, gdt).
     bindR (gdt_append X KernelData gdt) (\<lambda>(data_selector, gdt).
     bindR (gdt_append X UserCode gdt) (\<lambda>(user_code_selector, gdt).
     bindR (gdt_append X UserData gdt) (\<lambda>(user_data_selector, gdt).
     bindR (gdt_append X (TssSegment tss) gdt) (\<lambda>(tss_selector, gdt).
     Return (gdt, \<lparr>sel_code = code_selector, sel_data = data_selector, sel_user_code = user_code_selector,
       sel_user_data = user_data_selector, sel_tss = tss_selector\<rparr>)))))))"

text \<open>The first use of \<open>GDT\<close> fills it, and with it \<open>TSS\<close>.\<close>

definition gdt_init :: "('g, 'd) x86 \<Rightarrow> u64 \<Rightarrow> u64 \<Rightarrow> ('g, 'd) machine \<Rightarrow> ('g, 'd) machine run" where
  "gdt_init X stack interrupt_stack m =
     bindR (TSS_init X stack interrupt_stack) (\<lambda>tss.
     bindR (GDT_init X tss) (\<lambda>(gdt, sel).
     Return (m\<lparr>m_gdt := Some gdt,
       m_segments := (m_segments m)(CodeSegment := sel_code sel, DataSegment DS := sel_data sel, DataSegment ES := sel_data sel,
         DataSegment FS := sel_data sel, DataSegment GS := sel_data sel, StackSegment := sel_data sel),
       m_tss := Some (sel_tss sel, tss)\<rparr>)))"

section \<open>Interrupts\<close>

definition PIC1_OFFSET :: u8 where "PIC1_OFFSET = 32"
definition PIC2_OFFSET :: u8 where "PIC2_OFFSET = PIC1_OFFSET + 8"
definition TIMER_INT :: u8 where "TIMER_INT = PIC1_OFFSET"
definition KEYBOARD_INT :: u8 where "KEYBOARD_INT = PIC1_OFFSET + 1"
definition SYSCALL_INT :: u8 where "SYSCALL_INT = 0x80"

definition interrupts_disable :: "('g, 'd) machine \<Rightarrow> ('g, 'd) machine" where
  "interrupts_disable m = m\<lparr>m_rflags := m_rflags m AND NOT (push_bit 9 1)\<rparr>"

definition interrupts_enable :: "('g, 'd) machine \<Rightarrow> ('g, 'd) machine" where
  "interrupts_enable m = m\<lparr>m_rflags := m_rflags m OR push_bit 9 1\<rparr>"

definition read_rflags :: "('g, 'd) machine \<Rightarrow> u64" where
  "read_rflags m = m_rflags m"

definition are_enabled :: "('g, 'd) machine \<Rightarrow> bool" where
  "are_enabled m \<longleftrightarrow> (read_rflags m AND push_bit 9 1) > 0"

text \<open>The gates of the exceptions, in the order of the code, each with the handler it gets.\<close>

definition exception_gates :: "(exception \<times> exception) list" where
  "exception_gates =
     [(BreakpointEx, BreakpointEx), (GeneralProtectionFault, GeneralProtectionFault), (OverflowEx, OverflowEx),
      (DivideError, DivideError), (NonMaskableInterrupt, NonMaskableInterrupt), (BoundRangeExceeded, BoundRangeExceeded),
      (BoundRangeExceeded, BoundRangeExceeded), (DebugEx, DebugEx), (InvalidOpcode, InvalidOpcode),
      (DeviceNotAvailable, DeviceNotAvailable), (InvalidTss, InvalidTss), (SegmentNotPresent, SegmentNotPresent),
      (StackSegmentFault, StackSegmentFault), (X87FloatingPoint, X87FloatingPoint), (AlignmentCheck, AlignmentCheck),
      (MachineCheck, MachineCheck), (SimdFloatingPoint, SimdFloatingPoint), (Virtualization, Virtualization),
      (VmmCommunicationException, VmmCommunicationException), (SecurityException, SecurityException)]"

definition set_gate :: "('g, 'd) x86 \<Rightarrow> u16 \<Rightarrow> u8 \<Rightarrow> handler \<Rightarrow> ('g \<Rightarrow> 'g) \<Rightarrow> (u8 \<Rightarrow> 'g) \<Rightarrow> (u8 \<Rightarrow> 'g)" where
  "set_gate X cs v h options idt = idt(v := options (set_handler_fn X cs h (idt v)))"

definition init_idt :: "('g, 'd) x86 \<Rightarrow> u16 \<Rightarrow> u8 \<Rightarrow> 'g" where
  "init_idt X cs =
     (let idt = (\<lambda>_. gate_missing X);
          idt = fold (\<lambda>(e, h). set_gate X cs (exception_vector X e) (ExceptionHandler h) id) exception_gates idt;
          idt = set_gate X cs (exception_vector X DoubleFault) (ExceptionHandler DoubleFault)
            (set_stack_index X DOUBLE_FAULT_IST_INDEX) idt;
          idt = set_gate X cs (exception_vector X PageFault) (ExceptionHandler PageFault)
            (set_stack_index X PAGE_FAULT_IST_INDEX) idt;
          idt = set_gate X cs SYSCALL_INT SyscallHandler (set_privilege_level X Ring3) idt;
          idt = set_gate X cs TIMER_INT TimerHandler id idt in
      set_gate X cs KEYBOARD_INT KeyboardHandler id idt)"

definition interrupts_init :: "('g, 'd) x86 \<Rightarrow> ('g, 'd) machine \<Rightarrow> ('g, 'd) machine" where
  "interrupts_init X m =
     (let m = m\<lparr>m_idt := Some (init_idt X (m_segments m CodeSegment))\<rparr>;
          m = emit (PicInitialize PIC1_OFFSET PIC2_OFFSET) m in
      emit (PicMasks 0xFC 0xFF) m)"

text \<open>
  The bodies of the handlers. All but the one for breakpoints panic after formatting the interrupted
  frame; the one for page faults first reads \<open>cr2\<close>. The system call handler is in theory \<open>Component\<close>, and
  the register saving around the two interrupt handlers is \<open>interrupt_stub\<close> of theory \<open>Exec\<close>.
\<close>

definition exception_handler :: "('g, 'd) x86 \<Rightarrow> u64 \<Rightarrow> exception \<Rightarrow> ('g, 'd) machine \<Rightarrow> ('g, 'd) machine run" where
  "exception_handler X cr2 e m = (case e of
     BreakpointEx \<Rightarrow> Return m
   | PageFault \<Rightarrow> bindR (unwrap_ok (virt_try_new X cr2)) (\<lambda>_. Panic ExplicitPanic)
   | _ \<Rightarrow> Panic ExplicitPanic)"

definition timer_interrupt :: "('g, 'd) machine \<Rightarrow> ('g, 'd) machine" where
  "timer_interrupt m = emit (PicEndOfInterrupt TIMER_INT) m"

definition keyboard_interrupt :: "('g, 'd) machine \<Rightarrow> ('g, 'd) machine" where
  "keyboard_interrupt m = emit (PicEndOfInterrupt KEYBOARD_INT) m"

section \<open>The timer\<close>

record PitTimer =
  pit_reset_value :: u16
  pit_mode_port :: u16
  pit_ch0_port :: u16

definition PitTimer_reset :: "PitTimer \<Rightarrow> u16 \<Rightarrow> ('g, 'd) machine \<Rightarrow> ('g, 'd) machine run" where
  "PitTimer_reset self reset_value m =
     bindR (assert (reset_value mod 2 = 0)) (\<lambda>_.
     bindR (assert (reset_value \<noteq> 0)) (\<lambda>_.
     let m = emit (PortWrite (pit_ch0_port self) (ucast (reset_value AND 0xFF))) m in
     Return (emit (PortWrite (pit_ch0_port self) (ucast (drop_bit 8 reset_value AND 0xFF))) m)))"

definition PitTimer_new :: "u16 \<Rightarrow> u16 \<Rightarrow> u16 \<Rightarrow> ('g, 'd) machine \<Rightarrow> (PitTimer \<times> ('g, 'd) machine) run" where
  "PitTimer_new reset_value mode_port ch0_port m =
     (let this = \<lparr>pit_reset_value = reset_value, pit_mode_port = mode_port, pit_ch0_port = ch0_port\<rparr>;
          m = emit (PortWrite mode_port 0b00110110) m in
      bindR (PitTimer_reset this reset_value m) (\<lambda>m. Return (this, m)))"

definition into_timer :: "u16 \<Rightarrow> ('g, 'd) machine \<Rightarrow> (PitTimer \<times> ('g, 'd) machine) run" where
  "into_timer reset_value m = PitTimer_new reset_value 0x43 0x40 m"

text \<open>\<open>first\<close> and \<open>second\<close> are the two bytes read from the port.\<close>

definition read_count :: "PitTimer \<Rightarrow> u8 \<Rightarrow> u8 \<Rightarrow> ('g, 'd) machine \<Rightarrow> u16 \<times> ('g, 'd) machine" where
  "read_count self first second m =
     (let m = emit (PortWrite (pit_mode_port self) 0b00000000) m; count = (ucast first :: u16) in
      (count OR push_bit 8 (ucast second), m))"

section \<open>System call extension and initialisation\<close>

text \<open>\<open>wrmsr\<close> writes \<open>edx:eax\<close>. The registers are undefined when \<open>sce_enable\<close> starts and are its arguments.\<close>

definition edx_eax :: "u32 \<Rightarrow> u32 \<Rightarrow> u64" where
  "edx_eax edx eax = push_bit 32 (ucast edx) OR ucast eax"

definition sce_enable :: "u32 \<Rightarrow> u32 \<Rightarrow> ('g, 'd) machine \<Rightarrow> ('g, 'd) machine" where
  "sce_enable edx eax m =
     (let msr = m_msr m;
          msr = msr(0xc0000082 := edx_eax edx eax);
          efer = msr 0xc0000080;
          eax = ucast efer OR 1;
          msr = msr(0xc0000080 := edx_eax (ucast (drop_bit 32 efer)) eax);
          star = msr 0xc0000081;
          msr = msr(0xc0000081 := edx_eax 0x00180008 (ucast star)) in
      m\<lparr>m_msr := msr\<rparr>)"

definition arch_init :: "('g, 'd) x86 \<Rightarrow> u64 \<Rightarrow> u64 \<Rightarrow> u32 \<Rightarrow> u32 \<Rightarrow> ('g, 'd) machine \<Rightarrow> ('g, 'd) machine run" where
  "arch_init X stack interrupt_stack edx eax m =
     bindR (gdt_init X stack interrupt_stack m) (\<lambda>m.
     let m = interrupts_init X m in
     bindR (into_timer 5966 m) (\<lambda>(timer, m).
     Return (sce_enable edx eax m)))"

section \<open>Lemmas\<close>

lemma gdt_append_eq:
  assumes "tables_spec X" and "gdt_used X t = k" and "k + descriptor_entries d \<le> 8"
  shows "\<exists>t'. gdt_append X d t = Return (of_nat (8 * k) OR descriptor_level d, t') \<and> gdt_used X t' = k + descriptor_entries d"
  using assms unfolding tables_spec_def by metis

text \<open>The selectors, in the order of the table.\<close>

lemma GDT_init_eq:
  assumes X: "tables_spec X"
  obtains gdt where "GDT_init X tss = Return (gdt, \<lparr>sel_code = 0x08, sel_data = 0x10, sel_user_code = 0x1B, sel_user_data = 0x23, sel_tss = 0x28\<rparr>)"
proof -
  have u0: "gdt_used X (gdt_new X) = 1"
    using X by (simp add: tables_spec_def)
  note n = descriptor_entries_def descriptor_level_def
  obtain t1 where 1: "gdt_append X KernelCode (gdt_new X) = Return (8, t1)" "gdt_used X t1 = 2"
    using gdt_append_eq [OF X u0, of KernelCode] by (auto simp: n)
  obtain t2 where 2: "gdt_append X KernelData t1 = Return (0x10, t2)" "gdt_used X t2 = 3"
    using gdt_append_eq [OF X 1(2), of KernelData] by (auto simp: n)
  obtain t3 where 3: "gdt_append X UserCode t2 = Return (0x1B, t3)" "gdt_used X t3 = 4"
    using gdt_append_eq [OF X 2(2), of UserCode] by (auto simp: n)
  obtain t4 where 4: "gdt_append X UserData t3 = Return (0x23, t4)" "gdt_used X t4 = 5"
    using gdt_append_eq [OF X 3(2), of UserData] by (auto simp: n)
  obtain t5 where 5: "gdt_append X (TssSegment tss) t4 = Return (0x28, t5)" "gdt_used X t5 = 7"
    using gdt_append_eq [OF X 4(2), of "TssSegment tss"] by (auto simp: n)
  show thesis
    using that [of t5] 1(1) 2(1) 3(1) 4(1) 5(1) by (simp add: GDT_init_def)
qed

definition kernel_stack :: "u64 \<Rightarrow> bool" where
  "kernel_stack a \<longleftrightarrow> 0xFFFF800000000000 \<le> a \<and> unat a + 4096 < 2 ^ 64"

lemma TSS_init_eq:
  assumes "tables_spec X" and "kernel_stack stack" and "kernel_stack interrupt_stack"
  shows "TSS_init X stack interrupt_stack = Return \<lparr>privilege_stack_table = [interrupt_stack + 4096, 0, 0],
    interrupt_stack_table = [stack + 4096, 0, 0, 0, 0, 0, 0]\<rparr>"
proof -
  have "replicate 3 x = [x, x, x]" "replicate 7 x = [x, x, x, x, x, x, x]" for x :: u64
    by (simp_all add: eval_nat_numeral)
  then have "tss_new X = \<lparr>privilege_stack_table = [0, 0, 0], interrupt_stack_table = [0, 0, 0, 0, 0, 0, 0]\<rparr>"
    using assms(1) by (simp add: tables_spec_def)
  moreover have "virt_add X stack PAGE_SIZE = Return (stack + 4096)" "virt_add X interrupt_stack PAGE_SIZE = Return (interrupt_stack + 4096)"
    using assms by (simp_all add: tables_spec_def kernel_stack_def PAGE_SIZE_def)
  ultimately show ?thesis
    by (simp add: TSS_init_def interrupt_stack_end_def DOUBLE_FAULT_IST_INDEX_def)
qed

lemma set_gate_apply: "set_gate X cs v h options idt u = (if u = v then options (set_handler_fn X cs h (idt v)) else idt u)"
  by (simp add: set_gate_def)

lemma exception_gates_all: "fst ` set exception_gates = UNIV - {DoubleFault, PageFault}" "\<forall>(e, h) \<in> set exception_gates. h = e"
proof -
  have "e \<in> fst ` set exception_gates" if "e \<noteq> DoubleFault" "e \<noteq> PageFault" for e
    using that by (cases e) (simp_all add: exception_gates_def)
  then show "fst ` set exception_gates = UNIV - {DoubleFault, PageFault}"
    by (auto simp: exception_gates_def)
qed (simp add: exception_gates_def)

lemma fold_gates:
  assumes "gates_spec X" and "\<forall>(e, h) \<in> set es. h = e"
  shows "let g = fold (\<lambda>(e, h). set_gate X cs (exception_vector X e) (ExceptionHandler h) id) es idt (exception_vector X e) in
      if e \<in> fst ` set es
      then gate_handler X g = Some (ExceptionHandler e) \<and> gate_level X g = Ring0 \<and> gate_stack X g = None \<and> gate_selector X g = cs
      else g = idt (exception_vector X e)"
  using assms(2)
proof (induction es arbitrary: idt)
  case (Cons p es)
  obtain d where p: "p = (d, d)"
    using Cons.prems by (cases p) auto
  have inj: "exception_vector X e = exception_vector X d \<longleftrightarrow> e = d"
    using assms(1) by (auto simp: gates_spec_def inj_def)
  define idt' where "idt' = set_gate X cs (exception_vector X d) (ExceptionHandler d) id idt"
  have at: "idt' (exception_vector X e) = (if e = d then set_handler_fn X cs (ExceptionHandler d) (idt (exception_vector X e))
      else idt (exception_vector X e))"
    by (simp add: idt'_def set_gate_apply inj)
  have "fold (\<lambda>(e, h). set_gate X cs (exception_vector X e) (ExceptionHandler h) id) (p # es) idt
      = fold (\<lambda>(e, h). set_gate X cs (exception_vector X e) (ExceptionHandler h) id) es idt'"
    by (simp add: p idt'_def)
  with Cons.IH [of idt'] Cons.prems assms(1) show ?case
    by (cases "e \<in> fst ` set es") (simp_all only: Let_def, auto simp: p at gates_spec_def)
qed simp

lemma fold_gates_other:
  assumes "v \<notin> range (exception_vector X)"
  shows "fold (\<lambda>(e, h). set_gate X cs (exception_vector X e) (ExceptionHandler h) id) es idt v = idt v"
  using assms by (induction es arbitrary: idt) (auto simp: set_gate_apply split: prod.splits)

lemma init_idt_exception:
  assumes X: "gates_spec X"
  shows "gate_handler X (init_idt X cs (exception_vector X e)) = Some (ExceptionHandler e)"
    and "gate_level X (init_idt X cs (exception_vector X e)) = Ring0"
    and "gate_selector X (init_idt X cs (exception_vector X e)) = cs"
    and "gate_stack X (init_idt X cs (exception_vector X e)) =
      (if e = DoubleFault then Some 0 else if e = PageFault then Some 1 else None)"
proof -
  have inj: "exception_vector X e = exception_vector X d \<longleftrightarrow> e = d" for d
    using X by (auto simp: gates_spec_def inj_def)
  have "exception_vector X e < 32"
    using X by (simp add: gates_spec_def)
  then have ne: "exception_vector X e \<noteq> 0x80" "exception_vector X e \<noteq> 32" "exception_vector X e \<noteq> 33"
    by (auto simp: word_less_nat_alt)
  note simps = init_idt_def Let_def set_gate_apply inj ne SYSCALL_INT_def TIMER_INT_def KEYBOARD_INT_def PIC1_OFFSET_def
    DOUBLE_FAULT_IST_INDEX_def PAGE_FAULT_IST_INDEX_def
  note all = fold_gates [OF X exception_gates_all(2), of cs "\<lambda>_. gate_missing X" e, unfolded Let_def exception_gates_all(1)]
  show "gate_handler X (init_idt X cs (exception_vector X e)) = Some (ExceptionHandler e)"
    "gate_level X (init_idt X cs (exception_vector X e)) = Ring0"
    "gate_selector X (init_idt X cs (exception_vector X e)) = cs"
    "gate_stack X (init_idt X cs (exception_vector X e)) =
      (if e = DoubleFault then Some 0 else if e = PageFault then Some 1 else None)"
    using all X by (auto simp: simps gates_spec_def)
qed

lemma init_idt_other:
  assumes X: "gates_spec X" and "v \<notin> range (exception_vector X)"
  shows "gate_handler X (init_idt X cs v) = (if v = 0x80 then Some SyscallHandler else if v = 32 then Some TimerHandler
      else if v = 33 then Some KeyboardHandler else None)"
    and "gate_level X (init_idt X cs v) = (if v = 0x80 then Ring3 else Ring0)"
    and "v \<in> {32, 33, 0x80} \<Longrightarrow> gate_selector X (init_idt X cs v) = cs \<and> gate_stack X (init_idt X cs v) = None"
  using assms fold_gates_other [OF assms(2), of cs exception_gates "\<lambda>_. gate_missing X"]
  by (auto simp: init_idt_def Let_def set_gate_apply SYSCALL_INT_def TIMER_INT_def KEYBOARD_INT_def PIC1_OFFSET_def gates_spec_def)

lemma low_byte: "ucast (w AND 0xFF) = (ucast w :: u8)" for w :: u16
proof -
  have "w AND 0xFF = take_bit 8 w"
    by (simp add: take_bit_eq_mask mask_eq_exp_minus_1)
  then show ?thesis
    by (simp only:) (rule bit_word_eqI, simp add: bit_simps)
qed

lemma mov_ax: "ucast ((a AND NOT 0xFFFF) OR ucast v) = (v :: u16)" for a :: u64
proof -
  have "a AND NOT 0xFFFF = a AND NOT (mask 16)"
    by (simp add: mask_eq_exp_minus_1)
  then show ?thesis
    by (simp only:) (rule bit_word_eqI, auto simp only: bit_simps possible_bit_word, simp_all)
qed

lemma dispatch_segments: "seg (steps dispatch_code c) r = 0x23"
  using mov_ax [of _ "0x23"] by (cases r) (simp_all add: dispatch_code_def push_word_def)

lemma PitTimer_reset_eq:
  "PitTimer_reset self v m =
    (if v mod 2 = 0 \<and> v \<noteq> 0
     then Return (m\<lparr>m_io := m_io m @ [PortWrite (pit_ch0_port self) (ucast v), PortWrite (pit_ch0_port self) (ucast (drop_bit 8 v))]\<rparr>)
     else Panic AssertFailed)"
  by (simp add: PitTimer_reset_def emit_def Let_def assert_def low_byte)

lemma PIT_at_boot:
  "into_timer 5966 m = Return (\<lparr>pit_reset_value = 5966, pit_mode_port = 0x43, pit_ch0_port = 0x40\<rparr>,
     m\<lparr>m_io := m_io m @ [PortWrite 0x43 0x36, PortWrite 0x40 0x4E, PortWrite 0x40 0x17]\<rparr>)"
  by (simp add: into_timer_def PitTimer_new_def PitTimer_reset_eq emit_def Let_def)

lemma arch_init_eq:
  assumes "x86_spec X" and "kernel_stack stack" and "kernel_stack interrupt_stack"
  obtains gdt where "arch_init X stack interrupt_stack edx eax m = Return (sce_enable edx eax (m\<lparr>m_gdt := Some gdt,
    m_segments := (m_segments m)(CodeSegment := 0x08, DataSegment DS := 0x10, DataSegment ES := 0x10, DataSegment FS := 0x10,
      DataSegment GS := 0x10, StackSegment := 0x10),
    m_tss := Some (0x28, \<lparr>privilege_stack_table = [interrupt_stack + 4096, 0, 0], interrupt_stack_table = [stack + 4096, 0, 0, 0, 0, 0, 0]\<rparr>),
    m_idt := Some (init_idt X 0x08),
    m_io := m_io m @ [PicInitialize 32 40, PicMasks 0xFC 0xFF, PortWrite 0x43 0x36, PortWrite 0x40 0x4E, PortWrite 0x40 0x17]\<rparr>))"
proof -
  have X: "tables_spec X"
    using assms(1) by (simp add: x86_spec_def)
  obtain gdt where "GDT_init X \<lparr>privilege_stack_table = [interrupt_stack + 4096, 0, 0], interrupt_stack_table = [stack + 4096, 0, 0, 0, 0, 0, 0]\<rparr>
      = Return (gdt, \<lparr>sel_code = 0x08, sel_data = 0x10, sel_user_code = 0x1B, sel_user_data = 0x23, sel_tss = 0x28\<rparr>)"
    by (rule GDT_init_eq [OF X])
  then show thesis
    by (intro that) (simp add: arch_init_def gdt_init_def TSS_init_eq [OF X assms(2,3)] interrupts_init_def emit_def PIT_at_boot Let_def
        PIC1_OFFSET_def PIC2_OFFSET_def)
qed

section \<open>An instance of the crate\<close>

record gate =
  g_handler :: "handler option"
  g_stack :: "u16 option"
  g_level :: PrivilegeLevel
  g_selector :: u16

primrec vector_of :: "exception \<Rightarrow> u8" where
  "vector_of DivideError = 0"
| "vector_of DebugEx = 1"
| "vector_of NonMaskableInterrupt = 2"
| "vector_of BreakpointEx = 3"
| "vector_of OverflowEx = 4"
| "vector_of BoundRangeExceeded = 5"
| "vector_of InvalidOpcode = 6"
| "vector_of DeviceNotAvailable = 7"
| "vector_of DoubleFault = 8"
| "vector_of InvalidTss = 10"
| "vector_of SegmentNotPresent = 11"
| "vector_of StackSegmentFault = 12"
| "vector_of GeneralProtectionFault = 13"
| "vector_of PageFault = 14"
| "vector_of X87FloatingPoint = 16"
| "vector_of AlignmentCheck = 17"
| "vector_of MachineCheck = 18"
| "vector_of SimdFloatingPoint = 19"
| "vector_of Virtualization = 20"
| "vector_of VmmCommunicationException = 29"
| "vector_of SecurityException = 30"

definition some_x86 :: "(gate, nat) x86" where
  "some_x86 = \<lparr>gate_missing = \<lparr>g_handler = None, g_stack = None, g_level = Ring0, g_selector = 0\<rparr>,
     set_handler_fn = (\<lambda>cs h _. \<lparr>g_handler = Some h, g_stack = None, g_level = Ring0, g_selector = cs\<rparr>),
     set_stack_index = (\<lambda>i g. g\<lparr>g_stack := Some i\<rparr>), set_privilege_level = (\<lambda>l g. g\<lparr>g_level := l\<rparr>),
     gate_handler = g_handler, gate_stack = g_stack, gate_selector = g_selector, gate_level = g_level,
     exception_vector = vector_of,
     tss_new = \<lparr>privilege_stack_table = replicate 3 0, interrupt_stack_table = replicate 7 0\<rparr>,
     gdt_new = 1,
     gdt_append = (\<lambda>d n. if n + descriptor_entries d \<le> 8
       then Return (of_nat (8 * n) OR descriptor_level d, n + descriptor_entries d) else Panic ExplicitPanic),
     gdt_used = id, virt_add = add_chk, virt_try_new = Ok\<rparr>"

lemma some_x86_spec: "x86_spec some_x86"
proof -
  have "inj vector_of"
  proof (rule injI)
    fix e d assume "vector_of e = vector_of d"
    then show "e = d" by (cases e; cases d) simp_all
  qed
  moreover have "vector_of e < 32" for e
    by (cases e) simp_all
  ultimately show ?thesis
    by (simp add: x86_spec_def gates_spec_def tables_spec_def some_x86_def add_chk_def)
qed

section \<open>Properties\<close>

text \<open>
  C23. The initialisation of the processor does not panic. It loads the kernel's code segment and its data
  segment into the segment registers and the task state segment with the stack for interrupts
  from user code, installs the gates for the kernel's code segment, remaps the interrupt
  controllers to the vectors 32 to 47 with only the timer and the keyboard unmasked, then
  programs the timer with the period 5966, and leaves the interrupt flag as it is.
\<close>

theorem arch_init_sets_up_the_processor:
  assumes "x86_spec X" and "kernel_stack stack" and "kernel_stack interrupt_stack"
  shows "\<exists>m' tss. arch_init X stack interrupt_stack edx eax m = Return m'
    \<and> m_segments m' CodeSegment = 0x08 \<and> m_segments m' StackSegment = 0x10 \<and> (\<forall>r. m_segments m' (DataSegment r) = 0x10)
    \<and> m_tss m' = Some (0x28, tss) \<and> privilege_stack_table tss ! 0 = interrupt_stack + 4096
    \<and> m_idt m' = Some (init_idt X 0x08)
    \<and> m_io m' = m_io m @ [PicInitialize 32 40, PicMasks 0xFC 0xFF, PortWrite 0x43 0x36, PortWrite 0x40 0x4E, PortWrite 0x40 0x17]
    \<and> (are_enabled m' \<longleftrightarrow> are_enabled m)"
  by (rule arch_init_eq [OF assms, of edx eax m]) (simp add: sce_enable_def are_enabled_def read_rflags_def Let_def, metis segment.exhaust)

theorem arch_init_sets_up_the_processor_witness:
  "\<exists>m'. arch_init some_x86 0xFFFFFFFF80010000 0xFFFFFFFF80020000 0 0
      \<lparr>m_gdt = None, m_segments = (\<lambda>_. 0), m_tss = None, m_idt = None, m_msr = (\<lambda>_. 0), m_rflags = 2, m_io = []\<rparr> = Return m'
    \<and> m_segments m' CodeSegment = 0x08"
  using arch_init_sets_up_the_processor [OF some_x86_spec, of "0xFFFFFFFF80010000" "0xFFFFFFFF80020000"]
  by (fastforce simp: kernel_stack_def)

text \<open>
  C14. Of all gates only the one of vector \<open>0x80\<close> can be entered by an instruction of user code, and it leads to
  the system call handler. Every exception has its own handler, the vectors 32 and 33 have those of
  the timer and the keyboard, every other vector has none, and all gates enter the kernel's
  code segment.
\<close>

theorem only_system_calls_enter_the_kernel:
  assumes "x86_spec X"
  shows "(gate_level X (init_idt X cs v) = Ring3 \<longleftrightarrow> v = 0x80)
    \<and> (v \<notin> range (exception_vector X) \<longrightarrow>
        gate_handler X (init_idt X cs v) = (if v = 0x80 then Some SyscallHandler else if v = 32 then Some TimerHandler
          else if v = 33 then Some KeyboardHandler else None))
    \<and> (\<forall>e. gate_handler X (init_idt X cs (exception_vector X e)) = Some (ExceptionHandler e))
    \<and> (gate_handler X (init_idt X cs v) \<noteq> None \<longrightarrow> gate_selector X (init_idt X cs v) = cs)"
proof (cases "v \<in> range (exception_vector X)")
  case True
  then obtain e where v: "v = exception_vector X e" by auto
  have X: "gates_spec X" and "exception_vector X e < 32"
    using assms by (auto simp: x86_spec_def gates_spec_def)
  then have "v \<noteq> 0x80"
    by (auto simp: v word_less_nat_alt)
  then show ?thesis
    by (simp add: v init_idt_exception [OF X])
next
  case False
  have X: "gates_spec X"
    using assms by (simp add: x86_spec_def)
  show ?thesis
    using init_idt_other [OF X False, of cs] init_idt_exception [OF X, of cs] False by auto
qed

theorem only_system_calls_enter_the_kernel_witness:
  "gate_level some_x86 (init_idt some_x86 0x08 0x80) = Ring3 \<and> gate_level some_x86 (init_idt some_x86 0x08 14) = Ring0"
  using only_system_calls_enter_the_kernel [OF some_x86_spec, of "0x08" "0x80"]
    only_system_calls_enter_the_kernel [OF some_x86_spec, of "0x08" 14]
  by (cases "gate_level some_x86 (init_idt some_x86 0x08 14)") simp_all

text \<open>
  C40. The stack of page faults is missing: the gate of page faults asks for an entry of the interrupt stack table
  that stays zero, while the gate of double faults asks for one that is filled.
\<close>

theorem page_fault_stack_is_null:
  assumes "x86_spec X" and "kernel_stack stack" and "kernel_stack interrupt_stack"
    and "TSS_init X stack interrupt_stack = Return tss"
  shows "\<exists>i j. gate_stack X (init_idt X cs (exception_vector X PageFault)) = Some i \<and> interrupt_stack_table tss ! unat i = 0
    \<and> gate_stack X (init_idt X cs (exception_vector X DoubleFault)) = Some j \<and> interrupt_stack_table tss ! unat j = stack + 4096"
  using assms TSS_init_eq [of X stack interrupt_stack] init_idt_exception(4) [of X cs]
  by (auto simp: x86_spec_def)

theorem page_fault_stack_is_null_witness:
  "\<exists>tss i. TSS_init some_x86 0xFFFFFFFF80010000 0xFFFFFFFF80020000 = Return tss
     \<and> gate_stack some_x86 (init_idt some_x86 0x08 14) = Some i \<and> interrupt_stack_table tss ! unat i = 0"
proof -
  have k: "kernel_stack 0xFFFFFFFF80010000" "kernel_stack 0xFFFFFFFF80020000" and t: "tables_spec some_x86"
    using some_x86_spec by (simp_all add: kernel_stack_def x86_spec_def)
  have "exception_vector some_x86 PageFault = 14"
    by (simp add: some_x86_def)
  with page_fault_stack_is_null [OF some_x86_spec k TSS_init_eq [OF t k]] TSS_init_eq [OF t k] show ?thesis
    by metis
qed

text \<open>
  C24. The segments a thread is resumed with are those of the descriptor table: the code that resumes a context
  returns to the selectors of the user code and user data segments, whatever the context is.
\<close>

theorem threads_resume_in_user_segments:
  assumes "x86_spec X" and "GDT_init X tss = Return (gdt, sel)"
  shows "u_cs (iretq (steps dispatch_code c)) = ucast (sel_user_code sel)
    \<and> u_ss (iretq (steps dispatch_code c)) = ucast (sel_user_data sel)
    \<and> (\<forall>r. seg (steps dispatch_code c) r = sel_user_data sel)"
proof -
  have "tables_spec X"
    using assms(1) by (simp add: x86_spec_def)
  then obtain gdt' where "GDT_init X tss = Return (gdt', \<lparr>sel_code = 0x08, sel_data = 0x10, sel_user_code = 0x1B, sel_user_data = 0x23, sel_tss = 0x28\<rparr>)"
    by (rule GDT_init_eq)
  then have "sel_user_code sel = 0x1B" "sel_user_data sel = 0x23"
    using assms(2) by auto
  then show ?thesis
    by (simp add: dispatch_segments) (simp add: dispatch_code_def iretq_def push_word_def Let_def)
qed

theorem threads_resume_in_user_segments_witness:
  "u_cs (iretq (steps dispatch_code sample_cpu)) = 0x1B \<and> u_ss (iretq (steps dispatch_code sample_cpu)) = 0x23"
proof -
  have "GDT_init some_x86 (tss_new some_x86) = Return (7, \<lparr>sel_code = 0x08, sel_data = 0x10, sel_user_code = 0x1B, sel_user_data = 0x23, sel_tss = 0x28\<rparr>)"
    by (simp add: GDT_init_def some_x86_def descriptor_entries_def descriptor_level_def)
  from threads_resume_in_user_segments [OF some_x86_spec this] show ?thesis
    by simp
qed

text \<open>
  Programming the timer: \<open>reset\<close> panics exactly for odd values and zero, otherwise it writes two bytes to
  the counter's port, and \<open>read_count\<close> on these two bytes gives the value back.
\<close>

lemma timer_count_roundtrip:
  "if v mod 2 = 0 \<and> v \<noteq> 0
   then \<exists>lo hi. PitTimer_reset self v m = Return (m\<lparr>m_io := m_io m @ [PortWrite (pit_ch0_port self) lo, PortWrite (pit_ch0_port self) hi]\<rparr>)
     \<and> fst (read_count self lo hi m) = v
   else PitTimer_reset self v m = Panic AssertFailed"
proof -
  have "ucast (ucast v :: u8) OR push_bit 8 (ucast (ucast (drop_bit 8 v) :: u8)) = v"
    by (rule bit_word_eqI) (auto simp: bit_simps)
  then show ?thesis
    by (auto simp: PitTimer_reset_eq read_count_def Let_def)
qed

end
