(* ===== verification/Startup.thy ===== *)
theory Startup
  imports Prelude Paging Cells Retyping Retype_Spec Memory_Map Bump Exec Kernel_State Kptr Addrspace Component Boot First_Process Loading Platform
begin

text \<open>
  The entry of the kernel (\<open>main.rs\<close>) and its logger (\<open>serial.rs\<close>). \<open>init\<close> composes the initialisers of
  the other parts in the order of the code, on the answers of the boot loader. The main lemma
  shows that it leaves the state from which theory \<open>First_Process\<close> starts the first program.
\<close>

section \<open>The logger\<close>

text \<open>
  The levels of the crate \<open>log\<close> in its order. The level is an environment variable of the build. The
  output on the serial port is a list of lines.
\<close>

datatype LevelFilter = LevelOff | LevelError | LevelWarn | LevelInfo | LevelDebug | LevelTrace

primrec level_rank :: "LevelFilter \<Rightarrow> nat" where
  "level_rank LevelOff = 0"
| "level_rank LevelError = 1"
| "level_rank LevelWarn = 2"
| "level_rank LevelInfo = 3"
| "level_rank LevelDebug = 4"
| "level_rank LevelTrace = 5"

lemma level_rank_inj: "level_rank a = level_rank b \<longleftrightarrow> a = b"
  by (cases a; cases b) simp_all

instantiation LevelFilter :: linorder
begin

definition less_eq_LevelFilter :: "LevelFilter \<Rightarrow> LevelFilter \<Rightarrow> bool" where
  "less_eq_LevelFilter a b \<longleftrightarrow> level_rank a \<le> level_rank b"

definition less_LevelFilter :: "LevelFilter \<Rightarrow> LevelFilter \<Rightarrow> bool" where
  "less_LevelFilter a b \<longleftrightarrow> level_rank a < level_rank b"

instance
  by standard (auto simp: less_eq_LevelFilter_def less_LevelFilter_def level_rank_inj)

end

definition LOG_LEVEL :: "string option \<Rightarrow> LevelFilter run" where
  "LOG_LEVEL KERNEL_LOG_LEVEL =
     (let level = (case KERNEL_LOG_LEVEL of Some l \<Rightarrow> l | None \<Rightarrow> ''info'') in
      if level = ''trace'' then Return LevelTrace
      else if level = ''debug'' then Return LevelDebug
      else if level = ''info'' then Return LevelInfo
      else if level = ''warn'' then Return LevelWarn
      else if level = ''error'' then Return LevelError
      else Panic ExplicitPanic)"

definition Logger_enabled :: "string option \<Rightarrow> LevelFilter \<Rightarrow> bool run" where
  "Logger_enabled env metadata = bindR (LOG_LEVEL env) (\<lambda>l. Return (metadata \<le> l))"

definition Logger_log :: "string option \<Rightarrow> LevelFilter \<Rightarrow> string \<Rightarrow> (LevelFilter \<times> string) list \<Rightarrow> (LevelFilter \<times> string) list run" where
  "Logger_log env metadata args serial =
     bindR (Logger_enabled env metadata) (\<lambda>enabled.
     Return (if enabled then serial @ [(metadata, args)] else serial))"

text \<open>\<open>set_logger\<close> is the answer of the crate; the result is the maximal level that is set.\<close>

definition serial_init :: "(unit, unit) result \<Rightarrow> string option \<Rightarrow> LevelFilter run" where
  "serial_init set_logger env =
     bindR (case set_logger of Ok _ \<Rightarrow> bindR (LOG_LEVEL env) (\<lambda>l. Return (Ok l)) | Err e \<Rightarrow> Return (Err e)) unwrap_ok"

section \<open>Initialisation\<close>

text \<open>The answers of the boot loader.\<close>

record limine =
  base_revision_supported :: bool
  stack_size_response :: "unit option"
  hhdm_offset :: "u64 option"
  memory_map_response :: "Entry list option"

text \<open>
  \<open>PMO\<close> is a lazy cell; the line that logs it is the first that needs it. The log lines are left out.
\<close>

definition init ::
    "('g, 'd) x86 \<Rightarrow> limine \<Rightarrow> (unit, unit) result \<Rightarrow> string option \<Rightarrow> u64 \<Rightarrow> u64 \<Rightarrow> u32 \<Rightarrow> u32 \<Rightarrow> ('g, 'd) machine \<Rightarrow> kstate
       \<Rightarrow> (('g, 'd) machine \<times> kstate) run" where
  "init X L set_logger env stack interrupt_stack edx eax m s =
     (let m = interrupts_disable m in
     bindR (serial_init set_logger env) (\<lambda>_.
     bindR (assert (base_revision_supported L)) (\<lambda>_.
     bindR (arch_init X stack interrupt_stack edx eax m) (\<lambda>m.
     bindR (unwrap (stack_size_response L)) (\<lambda>_.
     bindR (unwrap (hhdm_offset L)) (\<lambda>offset.
     bindR (PMO_init offset) (\<lambda>pmo.
     let s = s\<lparr>k_pmo := pmo\<rparr> in
     bindR (unwrap (memory_map_response L)) (\<lambda>memory_map.
     bindR (RetypeTable_new pmo memory_map) (\<lambda>t.
     bindR (unwrap t) (\<lambda>t.
     bindR (RetypeTable_init (k_cr3 s) t (k_rt s)) (\<lambda>(r, g).
     bindR (unwrap_ok r) (\<lambda>_.
     bindR (component_init (s\<lparr>k_rt := g\<rparr>)) (\<lambda>s.
     Return (m, s))))))))))))))"

text \<open>The whole of \<open>kmain\<close>: the initialisation, then its part in theory \<open>Boot\<close>.\<close>

definition kernel_main ::
    "goblin \<Rightarrow> 'f ptf \<Rightarrow> program \<Rightarrow> ('g, 'd) x86 \<Rightarrow> limine \<Rightarrow> (unit, unit) result \<Rightarrow> string option \<Rightarrow> u64 \<Rightarrow> u64 \<Rightarrow> u32 \<Rightarrow> u32
       \<Rightarrow> ('g, 'd) machine \<Rightarrow> kstate \<Rightarrow> ('a flow \<times> kstate) run" where
  "kernel_main G F proc X L set_logger env stack interrupt_stack edx eax m s =
     bindR (init X L set_logger env stack interrupt_stack edx eax m s) (\<lambda>(m, s). kmain G F proc s)"

section \<open>What the boot loader hands over\<close>

text \<open>
  \<open>limine_ok\<close>: the loader supports what the kernel asks for, the direct map lies in the upper half and
  covers physical memory, the memory map is sorted, and some usable region can hold the retype table.
  \<open>loader_state\<close>: nothing of the kernel is initialised, and the active page table lies in memory
  the loader has reserved for itself or the kernel.
\<close>

definition limine_ok :: "limine \<Rightarrow> u64 \<Rightarrow> Entry list \<Rightarrow> bool" where
  "limine_ok L offset mm \<longleftrightarrow> base_revision_supported L \<and> stack_size_response L = Some ()
     \<and> hhdm_offset L = Some offset \<and> memory_map_response L = Some mm
     \<and> 0xFFFF800000000000 \<le> offset \<and> offset mod 4096 = 0 \<and> mm_ok mm \<and> mm \<noteq> [] \<and> unat offset + 4096 * end_frame (last mm) < 2 ^ 64
     \<and> (\<exists>e \<in> set mm. e_type e = USABLE \<and> 2 * end_frame (last mm) \<le> 4096 * (end_frame e - first_frame e))"

definition loader_state :: "u64 \<Rightarrow> Entry list \<Rightarrow> kstate \<Rightarrow> bool" where
  "loader_state offset mm s \<longleftrightarrow> k_rt s = OnceCell_new \<and> k_active s = OnceCell_new
     \<and> k_cr3 s mod 4096 = 0 \<and> unat (k_cr3 s) < 2 ^ 52
     \<and> (\<exists>e \<in> set mm. (e_type e = BOOTLOADER_RECLAIMABLE \<or> e_type e = KERNEL_AND_MODULES) \<and> covers e (unat (k_cr3 s) div 4096))
     \<and> (\<exists>t. k_heap s (offset + k_cr3 s) = Some (OPageTable t) \<and> length t = 512)"

section \<open>Lemmas\<close>

lemma new_table_entry:
  assumes mm: "mm_ok mm" and new: "RetypeTable_new pmo mm = Return (Some t)" and e: "e \<in> set mm" "e_type e \<noteq> USABLE" "covers e i"
  shows "i < length (retype_map t) \<and> retype_map t ! i = type_value (e_type e)"
proof -
  from new_table_types [OF mm new] obtain r n where len: "length (retype_map t) = end_frame (last mm)"
    and r: "r \<in> set mm" "e_type r = USABLE" "first_frame r + n \<le> end_frame r"
    and i: "i < length (retype_map t) \<Longrightarrow> if first_frame r \<le> i \<and> i < first_frame r + n
        then retype_map t ! i = mk_entry Unavailable 0
        else (\<forall>e \<in> set mm. covers e i \<longrightarrow> retype_map t ! i = type_value (e_type e))
          \<and> ((\<forall>e \<in> set mm. \<not> covers e i) \<longrightarrow> retype_map t ! i = mk_entry Unavailable 0)" by blast
  obtain j k where jk: "j < length mm" "mm ! j = e" "k < length mm" "mm ! k = r"
    using e(1) r(1) by (meson in_set_conv_nth)
  have "\<not> covers r i"
    using covers_unique [OF mm jk(1,3), of i] e(2,3) r(2) jk by auto
  moreover have "i < end_frame (last mm)"
    using end_frame_le_last [OF mm jk(1)] e(3) jk(2) by (auto simp: covers_def)
  ultimately show ?thesis
    using i len e(1,3) r(3) by (auto simp: covers_def split: if_splits)
qed

lemma new_table_untyped_unused:
  assumes mm: "mm_ok mm" and new: "RetypeTable_new pmo mm = Return (Some t)" and x: "x \<in> set (retype_map t)" "state_of x = Untyped"
  shows "count_of x = 0"
proof -
  obtain i where i: "i < length (retype_map t)" "x = retype_map t ! i"
    using x(1) by (metis in_set_conv_nth)
  have "x = mk_entry Unavailable 0 \<or> (\<exists>y. x = type_value y)"
  proof -
    from new_table_types [OF mm new] obtain r n where "i < length (retype_map t) \<Longrightarrow> if first_frame r \<le> i \<and> i < first_frame r + n
        then retype_map t ! i = mk_entry Unavailable 0
        else (\<forall>e \<in> set mm. covers e i \<longrightarrow> retype_map t ! i = type_value (e_type e))
          \<and> ((\<forall>e \<in> set mm. \<not> covers e i) \<longrightarrow> retype_map t ! i = mk_entry Unavailable 0)" by blast
    from this [OF i(1)] show ?thesis
      by (cases "\<exists>e \<in> set mm. covers e i") (auto simp: i(2) split: if_splits)
  qed
  moreover have "state_of (type_value y) = Untyped \<Longrightarrow> count_of (type_value y) = 0" for y
    by (cases y) simp_all
  ultimately show ?thesis
    using x(2) by auto
qed

text \<open>The kernel state after the retype table and the threads are initialised.\<close>

lemma init_state_bootable:
  assumes L: "limine_ok L offset mm" and s: "loader_state offset mm s" and new: "RetypeTable_new (VirtAddr offset) mm = Return (Some t)"
  shows "bootable (s\<lparr>k_pmo := VirtAddr offset, k_rt := \<lparr>once_value = Some t, once_init = 2\<rparr>,
    k_active := \<lparr>once_value = Some (CoreLocal_new_with (\<lambda>_. RefCell_new None)), once_init = 2\<rparr>\<rparr>)" (is "bootable ?s")
proof -
  have mm: "mm_ok mm" "mm \<noteq> []" and off: "0xFFFF800000000000 \<le> offset" "offset mod 4096 = 0" "unat offset + 4096 * end_frame (last mm) < 2 ^ 64"
    using L by (simp_all add: limine_ok_def)
  have len: "length (retype_map t) = end_frame (last mm)"
    using new_table_types [OF mm(1) new] by blast
  have small: "end_frame (last mm) < 2 ^ 40"
    using mm entry_ok_unat(4) by (auto simp: mm_ok_def)
  have mapped: "direct_mapped ?s (frame_no i)" if "i < end_frame (last mm)" for i
    using off that small unat_frame_no [of i]
    by (simp add: direct_mapped_def pmo_ok_def frame_ok_def frame_no_def FRAME_SIZE_def word_mod_4096_iff)
  obtain e tab where cr3: "k_cr3 s mod 4096 = 0" "unat (k_cr3 s) < 2 ^ 52"
    and e: "e \<in> set mm" "e_type e = BOOTLOADER_RECLAIMABLE \<or> e_type e = KERNEL_AND_MODULES" "covers e (unat (k_cr3 s) div 4096)"
    and tab: "k_heap s (offset + k_cr3 s) = Some (OPageTable tab)" "length tab = 512"
    using s by (auto simp: loader_state_def)
  let ?i = "unat (k_cr3 s) div 4096"
  have i: "?i < end_frame (last mm)" "retype_map t ! ?i = mk_entry Kernel 1"
    using new_table_entry [OF mm(1) new e(1) _ e(3)] e(2) len by auto
  have base: "frame_no ?i = RawFrame (PhysAddr (k_cr3 s))"
  proof -
    have "4096 * ?i = unat (k_cr3 s)"
      using cr3(1) unfolding word_mod_4096_iff by (rule mod_0_imp_dvd [THEN dvd_mult_div_cancel])
    then show ?thesis
      unfolding frame_no_def by simp
  qed
  have dm: "direct_mapped ?s (frame_no ?i)"
    using i(1) by (rule mapped)
  have cur: "current_raw (k_cr3 ?s) = Return (frame_no ?i)"
    using cr3 by (simp add: base current_raw_def PhysAddr_new_eq addr_simps)
  have ready: "alloc_ready ?s BumpAllocator_new"
    using small mapped by (simp add: alloc_ready_def rt_ok_def entries_def len BumpAllocator_new_def)
  have unused: "untyped_unused ?s"
    using new_table_untyped_unused [OF mm(1) new] by (auto simp: untyped_unused_def entries_def)
  have idle: "active_cell ?s = Return (RefCell_new None)"
    by (simp add: active_cell_def OnceCell_get_def OnceCell_get_unchecked_def CoreLocal_get_def CoreLocal_new_with_def NUM_CORES_def)
  have ent: "entry (k_rt ?s) (frame_no ?i) = Some (mk_entry Kernel 1)"
    using i small len by (simp add: entry_def entries_def)
  have heap: "k_heap ?s (kptr_inner (kptr_to ?s (frame_no ?i))) = Some (OPageTable tab)"
    using tab(1) by (simp add: kptr_to_def base)
  show ?thesis
    unfolding bootable_def using ready unused idle cur dm ent heap tab(2)
    by (intro conjI exI [of _ "frame_no ?i"] exI [of _ 1] exI [of _ tab]) simp_all
qed

lemma interrupts_disabled: "\<not> are_enabled (interrupts_disable m)"
proof -
  have "(m_rflags m AND NOT (push_bit 9 1)) AND push_bit 9 1 = (0 :: u64)"
    by (rule bit_word_eqI) (auto simp: bit_simps)
  then show ?thesis
    by (simp add: are_enabled_def read_rflags_def interrupts_disable_def)
qed

lemma init_bootable:
  assumes "x86_spec X" and "kernel_stack stack" and "kernel_stack interrupt_stack"
    and L: "limine_ok L offset mm" and s: "loader_state offset mm s" and env: "LOG_LEVEL env = Return lev"
  shows "\<exists>m' s' t. init X L (Ok ()) env stack interrupt_stack edx eax m s = Return (m', s') \<and> bootable s'
    \<and> RetypeTable_new (VirtAddr offset) mm = Return (Some t) \<and> entries (k_rt s') = retype_map t
    \<and> k_pmo s' = VirtAddr offset \<and> k_heap s' = k_heap s \<and> \<not> are_enabled m'"
proof -
  have mm: "mm_ok mm" "mm \<noteq> []" and off: "0xFFFF800000000000 \<le> offset" "unat offset + 4096 * end_frame (last mm) < 2 ^ 64"
    and resp: "base_revision_supported L" "stack_size_response L = Some ()" "hhdm_offset L = Some offset" "memory_map_response L = Some mm"
    and fit: "\<exists>e \<in> set mm. e_type e = USABLE \<and> 2 * end_frame (last mm) \<le> 4096 * (end_frame e - first_frame e)"
    using L by (simp_all add: limine_ok_def)
  obtain e where cr3: "k_cr3 s mod 4096 = 0" "unat (k_cr3 s) < 2 ^ 52" and e: "e \<in> set mm"
    "e_type e = BOOTLOADER_RECLAIMABLE \<or> e_type e = KERNEL_AND_MODULES" "covers e (unat (k_cr3 s) div 4096)"
    and fresh: "k_rt s = OnceCell_new" "k_active s = OnceCell_new"
    using s by (auto simp: loader_state_def)
  have pos: "0 < end_frame (last mm)"
    using e(1,3) end_frame_le_last [OF mm(1)] by (fastforce simp: covers_def in_set_conv_nth)
  have pmo: "pmo_ok (VirtAddr offset)" "unat (as_usize (VirtAddr offset)) + 4096 * end_frame (last mm) < 2 ^ 64"
    using off by (simp_all add: pmo_ok_def)
  obtain t where new: "RetypeTable_new (VirtAddr offset) mm = Return (Some t)"
    using new_table_exists [OF mm pos pmo] fit by auto
  let ?i = "unat (k_cr3 s) div 4096"
  have i: "?i < length (retype_map t)" "retype_map t ! ?i = mk_entry Kernel 1"
    using new_table_entry [OF mm(1) new e(1) _ e(3)] e(2) by auto
  have table: "RetypeTable_init (k_cr3 s) t OnceCell_new = Return (Ok (), \<lparr>once_value = Some t, once_init = 2\<rparr>)"
    using init_installs_the_table [OF cr3(2,1) refl, of t] i by simp
  have threads: "OnceCell_set v OnceCell_new = Return (Ok (), \<lparr>once_value = Some v, once_init = 2\<rparr>)" for v :: "KPtr option RefCell CoreLocal"
    by (simp add: OnceCell_set_eq) (simp add: OnceCell_new_def)
  obtain m' where arch: "arch_init X stack interrupt_stack edx eax (interrupts_disable m) = Return m'"
    and flags: "m_rflags m' = m_rflags (interrupts_disable m)"
    by (rule arch_init_eq [OF assms(1-3), of edx eax "interrupts_disable m"]) (simp add: sce_enable_def Let_def)
  have off_flags: "\<not> are_enabled m'"
    using interrupts_disabled [of m] by (simp add: are_enabled_def read_rflags_def flags)
  show ?thesis
    using init_state_bootable [OF L s new] off_flags
    by (simp add: init_def serial_init_def env resp arch PMO_init_eq off(1) new fresh table component_init_def threads Let_def)
       (simp add: entries_def)
qed

text \<open>From the boot loader to the first instruction of the program, when loading it does not panic.\<close>

lemma kernel_main_starts_the_program:
  assumes "x86_spec X" and "kernel_stack stack" and "kernel_stack interrupt_stack" and "limine_ok L offset mm"
    and "loader_state offset mm s" and "LOG_LEVEL env = Return lev" and "ptf_spec F"
    and run: "kernel_main G F prog X L (Ok ()) env stack interrupt_stack edx eax m s = Return (r, s')"
  obtains ctx where "r = Resumed ctx" "rip (control (ctx_regs ctx)) = e_entry (header_from_bytes G (take (SIZEOF_EHDR G) (prog_bytes prog)))"
    "process_memory G F prog 10 UNTYPED_MEMORY_OFFSET (of_nat (4096 * end_frame (last mm))) (kptr_inner (kptr_to s' (ctx_l4_frame ctx))) s'"
proof -
  from init_bootable [OF assms(1-6)] obtain m1 s1 t where 1: "init X L (Ok ()) env stack interrupt_stack edx eax m s = Return (m1, s1)"
    "bootable s1" "RetypeTable_new (VirtAddr offset) mm = Return (Some t)" "entries (k_rt s1) = retype_map t" by blast
  have "mm_ok mm"
    using assms(4) by (simp add: limine_ok_def)
  then have "length (entries (k_rt s1)) = end_frame (last mm)"
    using new_table_types [OF _ 1(3)] 1(4) by auto
  moreover have "kmain G F prog s1 = Return (r, s')"
    using run by (simp add: kernel_main_def 1(1))
  ultimately show thesis
    using kmain_starts_the_program [OF assms(7) 1(2), of G prog r s'] that by auto
qed

text \<open>With memory for the program, the whole of \<open>kmain\<close> starts it.\<close>

lemma kernel_main_returns:
  assumes "x86_spec X" and "kernel_stack stack" and "kernel_stack interrupt_stack" and "limine_ok L offset mm"
    and "loader_state offset mm s" and "LOG_LEVEL env = Return lev" and "ptf_spec F" and "loadable G prog"
    and t: "RetypeTable_new (VirtAddr offset) mm = Return (Some t)" and n: "n = end_frame (last mm)"
    and "unat UNTYPED_MEMORY_OFFSET + 4096 * n \<le> 2 ^ 47"
    and "distinct (process_pages G prog 10 UNTYPED_MEMORY_OFFSET (of_nat (4096 * n)))"
    and frames: "frames_needed G prog 10 UNTYPED_MEMORY_OFFSET (of_nat (4096 * n)) + 2 \<le> length (filter free_entry (retype_map t))"
  shows "\<exists>ctx s'. kernel_main G F prog X L (Ok ()) env stack interrupt_stack edx eax m s = Return (Resumed ctx :: 'a flow, s')"
proof -
  from init_bootable [OF assms(1-6)] obtain m1 s1 where 1: "init X L (Ok ()) env stack interrupt_stack edx eax m s = Return (m1, s1)"
    "bootable s1" "entries (k_rt s1) = retype_map t"
    using t by fastforce
  have "mm_ok mm"
    using assms(4) by (simp add: limine_ok_def)
  then have "n = length (entries (k_rt s1))"
    using new_table_types [OF _ t] 1(3) n by auto
  moreover have "free_count s1 BumpAllocator_new = length (filter free_entry (retype_map t))"
    by (simp add: free_count_def BumpAllocator_new_def 1(3))
  ultimately have "\<exists>ctx s'. kmain G F prog s1 = Return (Resumed ctx :: 'a flow, s')"
    using frames by (intro kmain_returns [OF assms(7) 1(2) assms(8) _ assms(11,12)]) simp_all
  then show ?thesis
    by (simp add: kernel_main_def 1(1))
qed

section \<open>Properties\<close>


definition loader_answers :: limine where
  "loader_answers = \<lparr>base_revision_supported = True, stack_size_response = Some (), hhdm_offset = Some 0xFFFF800000000000,
     memory_map_response = Some sample_map\<rparr>"

definition loader_kstate :: kstate where
  "loader_kstate = \<lparr>k_rt = OnceCell_new, k_heap = [0xFFFF800000004000 \<mapsto> OPageTable AnyPageTable_new], k_active = OnceCell_new,
     k_pmo = VirtAddr 0, k_cr3 = 0x4000\<rparr>"


end
