(* ===== verification/Kernel_Run.thy ===== *)
theory Kernel_Run
  imports Prelude Cells Retyping Bump Trie Kapi Exec Kernel_State Kptr Caps Addrspace Component Boot First_Process
begin

text \<open>
  The kernel as a system that answers system calls one after the other. \<open>syscall_step\<close> is one system
  call that returns to user space, with any arguments; its closure are the states a running kernel can
  reach. The lemmas follow two facts along such runs: which capabilities exist, and how many
  references the running thread has left.
\<close>

section \<open>Steps\<close>

inductive syscall_step :: "'f ptf \<Rightarrow> num_enum \<Rightarrow> kstate \<Rightarrow> kstate \<Rightarrow> bool" for F N where
  syscall_step: "syscall_handle F N m a b c d e f s = Return (r, s') \<Longrightarrow> syscall_step F N s s'"

inductive_cases syscall_stepE: "syscall_step F N s s'"

section \<open>States without capabilities\<close>

definition no_authority :: "kstate \<Rightarrow> bool" where
  "no_authority s \<longleftrightarrow> (\<forall>a t. k_heap s a = Some (OCapTable t) \<longrightarrow> (\<forall>c \<in> set t. slot_resource (cell_value c) = ResEmpty))"

lemma no_authority_same: "same_objects s s' \<Longrightarrow> no_authority s' = no_authority s"
  by (simp add: no_authority_def same_objects_def)

lemma no_authority_holds:
  assumes "no_authority s" and "holds s th r"
  shows "r = ResEmpty"
proof -
  from assms(2) obtain q d sl where "slot_of s (q, of_nat d) = Some sl" and r: "slot_resource sl = r"
    by (auto simp: holds_def)
  then obtain t where "k_heap s (kptr_inner q) = Some (OCapTable t)" "sl \<in> cell_value ` set t"
    by (auto simp: slot_of_def split: option.splits kobj.splits if_splits)
  then show ?thesis
    using assms(1) r by (auto simp: no_authority_def)
qed

lemma exercise_nothing:
  assumes "no_authority s" and "exercise_cap F N m th cap args s = Return (r, s')"
  shows "r = Done (Err NotFound) \<and> same_objects s s'"
proof -
  from assms(2) obtain q s1 r1 s2 where c: "KPtr_clone (thread_resources th) s = Return (q, s1)"
    and f: "find_slot q cap s1 = Return (r1, s2)"
    by (auto simp: exercise_cap_def bindR_eq_Return)
  have s1: "same_objects s s1" and q: "q = thread_resources th"
    using KPtr_clone_same [OF c] by simp_all
  show ?thesis
  proof (cases r1)
    case (Err e)
    with assms(2) c f have "r = Done (Err e)" "s' = s2"
      by (simp_all add: exercise_cap_def)
    with find_slot_eq [OF f] s1 Err show ?thesis
      by (auto intro: same_objects_trans split: option.splits)
  next
    case (Ok sr)
    with assms(2) c f obtain sl s3 s4 where g: "slot_get sr s2 = Return (sl, s3)"
      and d: "KPtr_drop TCapTable (fst sr) s3 = Return s4"
      by (auto simp: exercise_cap_def bindR_eq_Return Let_def)
    have h: "same_objects s1 s3" "holds s1 th (slot_resource sl)"
      using found_slot_holds [OF f [unfolded Ok q] g] by auto
    have "slot_resource sl = ResEmpty"
      using no_authority_holds [OF _ h(2)] assms(1) no_authority_same [OF s1] by simp
    with assms(2) c f g d Ok obtain rest where "leave rest (Err NotFound) s4 = Return (r, s')"
      by (auto simp: exercise_cap_def Let_def)
    with leave_same s1 h(1) KPtr_drop_same [OF d] show ?thesis
      by (metis same_objects_trans)
  qed
qed

lemma syscall_nothing:
  assumes "no_authority s" and "syscall_handle F N m a b c d e f s = Return (r, s')"
  shows "(r = Done (to_errno NotFound) \<or> r = Done (to_errno InvalidArgument)) \<and> same_objects s s'"
proof -
  from assms(2) obtain p s1 where cur: "Thread_current s = Return (Some p, s1)"
    by (auto simp: syscall_handle_def bindR_eq_Return unwrap_eq_Return)
  have s1: "same_objects s s1" "no_authority s1"
    using Thread_current_same [OF cur] assms(1) no_authority_same by auto
  show ?thesis
  proof (cases "u32_try_from a")
    case (Ok cap)
    with assms(2) cur obtain th r2 s2 where x: "exercise_cap F N m th (CapId cap) (SyscallArgs_new b c d e f) s1 = Return (r2, s2)"
      and k: "(case r2 of Resumed ctx \<Rightarrow> Return (Resumed ctx, s2) | Done (Err err) \<Rightarrow> leave [(TThread, p)] (to_errno err) s2
         | Done (Ok res) \<Rightarrow> bindR (if unat res < 2 ^ 63 then Return res else Panic UnwrapErr) (\<lambda>v. leave [(TThread, p)] v s2)) = Return (r, s')"
      by (auto simp: syscall_handle_def bindR_eq_Return)
    from exercise_nothing [OF s1(2) x] have none: "r2 = Done (Err NotFound)" "same_objects s1 s2"
      by simp_all
    with k have "leave [(TThread, p)] (to_errno NotFound) s2 = Return (r, s')"
      by simp
    from leave_same [OF this] none(2) s1(1) show ?thesis
      by (blast intro: same_objects_trans)
  next
    case (Err x)
    with assms(2) cur have "leave [(TThread, p)] (to_errno InvalidArgument) s1 = Return (r, s')"
      by (simp add: syscall_handle_def)
    from leave_same [OF this] s1(1) show ?thesis
      by (blast intro: same_objects_trans)
  qed
qed

lemma reachable_no_authority:
  assumes "(syscall_step F N)\<^sup>*\<^sup>* s s'" and "no_authority s"
  shows "no_authority s' \<and> same_objects s s'"
  using assms
proof (induction rule: rtranclp_induct)
  case (step s1 s2)
  then show ?case
    using syscall_nothing [of s1 F N _ _ _ _ _ _ _ _ s2] no_authority_same [of s1 s2] same_objects_trans [of s s1 s2]
    by (auto elim!: syscall_stepE)
qed simp

text \<open>Booting creates one capability table, and it is empty.\<close>

lemma no_authority_simps [simp]:
  "no_authority (s\<lparr>k_rt := g\<rparr>) = no_authority s" "no_authority (set_active c s) = no_authority s"
  by (simp_all add: no_authority_def)

lemma no_authority_write:
  assumes "no_authority s" and "\<And>t. obj = OCapTable t \<Longrightarrow> t = RawCapEntry_default"
  shows "no_authority (write_obj p obj s)"
  using assms by (auto simp: no_authority_def write_obj_def RawCapEntry_default_def TrieEntry_default_def
      AtomicCapSlot_default_def CapSlot_default_def AtomicCell_new_def)

lemma no_authority_writes [simp]:
  assumes "no_authority s"
  shows "no_authority (write_obj p (OPageTable t) s)" "no_authority (write_obj p (OBytes b) s)" "no_authority (write_obj p (OThread th) s)"
    "no_authority (write_obj p (OCapTable RawCapEntry_default) s)"
  using assms by (auto intro: no_authority_write)

lemma map_loop_no_authority:
  assumes "map_loop F page frame flags parent_flags lv table fa s = Return (r, fa', s')" and "no_authority s"
  shows "no_authority s'"
  using assms
proof (induction "case lv of None \<Rightarrow> 0 | Some l \<Rightarrow> Suc (unat (PageTableLevel.level l))" arbitrary: lv table fa s rule: less_induct)
  case less
  show ?case
  proof (cases lv)
    case (Some cl)
    with less.prems(1) obtain lv' off t e where l: "lower cl = Return lv'"
      and t: "page_table_index (page_base page) cl = Return off" "deref_page_table table s = Return t" "PageTableEntry_get F (AnyPageTable_get t off) = Return e"
      by (auto simp: map_loop.simps(2) bindR_eq_Return)
    have rec: "no_authority s'" if "map_loop F page frame flags parent_flags lv' tab fa1 s1 = Return (r, fa', s')" "no_authority s1" for tab fa1 s1
      using less.hyps [OF _ that] lower_less l Some by (auto split: option.splits)
    note run = less.prems(1) [unfolded Some map_loop.simps(2), simplified l t bindR.simps]
    show ?thesis
    proof (cases e)
      case None
      show ?thesis
      proof (cases "is_bottom cl")
        case True
        with run None show ?thesis
          using less.prems(2) by (auto simp: bindR_eq_Return elim!: rec)
      next
        case False
        with run None show ?thesis
          using less.prems(2) by (auto simp: bindR_eq_Return Let_def split: option.splits elim!: rec)
      qed
    next
      case (Some fe)
      with run show ?thesis
        using less.prems(2) by (cases fe) (auto simp: bindR_eq_Return split: if_splits elim!: rec)
    qed
  qed (use less.prems in simp)
qed

lemma map_to_no_authority: "map_to F table page frame flags pf fa s = Return (r, fa', s') \<Longrightarrow> no_authority s \<Longrightarrow> no_authority s'"
  unfolding map_to_def by (rule map_loop_no_authority)

lemma segment_loop_no_authority:
  assumes "segment_loop G F prog header table vend fend vcurrent fcurrent fa s = Return (fa', s')" and "no_authority s"
  shows "no_authority s'"
  using assms
proof (induction "unat vend - unat vcurrent" arbitrary: vcurrent fcurrent fa s rule: less_induct)
  case less
  show ?case
  proof (cases "vcurrent < vend")
    case True
    with less.prems(1) obtain u fa1 g v page fa2 s2 w left room v' f' where
      m: "map_to F table page (UserFrame_into_raw u) (segment_flags G F (p_flags header)) (flag_union F (WRITABLE F) (USER_ACCESSIBLE F)) fa1
        (s\<lparr>k_rt := g\<rparr>) = Return (Ok (), fa2, s2)"
      and room: "sub_chk PAGE_SIZE (vcurrent mod PAGE_SIZE) = Return room" "add_chk vcurrent room = Return v'"
      and rest: "segment_loop G F prog header table vend fend v' f' fa2 (write_obj (KPtr (as_usize w))
        (OBytes (page_bytes (prog_bytes prog) (unat fcurrent) (unat (vcurrent mod PAGE_SIZE)) (unat (min left room)))) s2) = Return (fa', s')"
      by (subst (asm) segment_loop.simps) (auto simp: bindR_eq_Return Let_def)
    have "unat vend - unat v' < unat vend - unat vcurrent"
      using True room_pos(2) [OF room(1)] room(2) by (simp add: add_chk_eq_Return word_less_nat_alt)
    from less.hyps [OF this rest] map_to_no_authority [OF m] less.prems(2) show ?thesis
      by simp
  qed (use less.prems in \<open>simp add: segment_loop.simps\<close>)
qed

lemma load_segments_no_authority:
  "load_segments G F prog table phs fa s = Return (fa', s') \<Longrightarrow> no_authority s \<Longrightarrow> no_authority s'"
proof (induction phs arbitrary: fa s)
  case (Cons ph phs)
  then show ?case
    by (auto simp: bindR_eq_Return Segment_load_def split: if_splits dest: segment_loop_no_authority)
qed simp

lemma map_stack_no_authority:
  "map_stack F table off is fa s = Return (fa', s') \<Longrightarrow> no_authority s \<Longrightarrow> no_authority s'"
proof (induction "is" arbitrary: fa s)
  case (Cons i "is")
  then show ?case
    by (auto simp: bindR_eq_Return Let_def dest!: map_to_no_authority)
qed simp

lemma map_untyped_no_authority:
  "map_untyped F table off is fa s = Return (fa', s') \<Longrightarrow> no_authority s \<Longrightarrow> no_authority s'"
proof (induction "is" arbitrary: fa s)
  case (Cons i "is")
  then show ?case
    by (auto simp: bindR_eq_Return Let_def dest!: map_to_no_authority)
qed simp

lemma KPtr_new_no_authority:
  assumes "KPtr_new f obj s = Return (r, s')" and "no_authority s" and "\<And>t. obj = OCapTable t \<Longrightarrow> t = RawCapEntry_default"
  shows "no_authority s'"
proof -
  from assms(1) obtain r1 g where l: "lift_rt (try_into_kernel f) s = Return (r1, s\<lparr>k_rt := g\<rparr>)"
    by (auto simp: KPtr_new_def lift_rt_def bindR_eq_Return)
  show ?thesis
  proof (cases r1)
    case (Ok k)
    with assms(1) l obtain p where "s' = write_obj p obj (s\<lparr>k_rt := g\<rparr>)"
      by (auto simp: KPtr_new_def KPtr_new_unchecked_def bindR_eq_Return)
    with assms(2,3) show ?thesis
      by (simp add: no_authority_write)
  next
    case (Err e)
    with assms(1) l have "drop_all (owned obj) (s\<lparr>k_rt := g\<rparr>) = Return s'"
      by (auto simp: KPtr_new_def drop_value_def bindR_eq_Return)
    from drop_all_same [OF this] assms(2) show ?thesis
      by (simp add: no_authority_same)
  qed
qed

lemma new_l4_no_authority: "new_l4 F f s = Return (r, s') \<Longrightarrow> no_authority s \<Longrightarrow> no_authority s'"
  by (auto simp: new_l4_def clone_kernel_def AnyPageTable_current_def lift_rt_def bindR_eq_Return no_authority_same
      dest!: KPtr_drop_same KPtr_new_no_authority)

lemma Process_load_no_authority:
  "Process_load G F prog pages off len s = Return (proc, s') \<Longrightarrow> no_authority s \<Longrightarrow> no_authority s'"
  by (auto simp: Process_load_def bindR_eq_Return Let_def
      dest!: new_l4_no_authority load_segments_no_authority map_stack_no_authority map_untyped_no_authority)

lemma start_thread_no_authority:
  assumes "start_thread booter s = Return (r, s')" and "no_authority s"
  shows "no_authority s'"
proof -
  from assms(1) obtain f1 g1 p1 s1 f2 g2 p2 s2 where
    1: "KPtr_new f1 (OCapTable RawCapEntry_default) (s\<lparr>k_rt := g1\<rparr>) = Return (Ok p1, s1)"
    and 2: "KPtr_new f2 (OThread (Thread_new_with_ctx booter p1)) (s1\<lparr>k_rt := g2\<rparr>) = Return (Ok p2, s2)"
    and d: "Thread_dispatch p2 NoopSaver_save_state s2 = Return (r, s')"
    by (auto simp: start_thread_def bindR_eq_Return Let_def)
  have "no_authority s2"
    using KPtr_new_no_authority [OF 1] KPtr_new_no_authority [OF 2] assms(2) by simp
  with Thread_dispatch_eq [OF d] show ?thesis
    by (auto simp: no_authority_def split: option.splits if_splits)
qed

section \<open>How long a thread can run\<close>

text \<open>A running thread whose capability table is empty.\<close>

definition fresh_running :: "kstate \<Rightarrow> RawFrame \<Rightarrow> RawFrame \<Rightarrow> nat \<Rightarrow> nat \<Rightarrow> Thread \<Rightarrow> bool" where
  "fresh_running s ft fr nt nr th \<longleftrightarrow> (\<forall>i < 128. running s ft fr nt nr th i)"

lemma exercise_fresh:
  assumes "fresh_running s ft fr nt nr th"
  shows "exercise_cap F N m th (CapId cap) args s = (if nr = 0 then Panic UnwrapErr
    else Return (Done (Err NotFound),
      s\<lparr>k_rt := set_entry (set_entry (k_rt s) fr (mk_entry Kernel (Suc nr))) fr (mk_entry Kernel (nr - 1))\<rparr>))"
proof (cases "unat cap < 128")
  case True
  then show ?thesis
    using exercise_empty_slot [of s ft fr nt nr th "unat cap" F N m args] assms by (simp add: fresh_running_def)
next
  case False
  let ?s1 = "s\<lparr>k_rt := set_entry (k_rt s) fr (mk_entry Kernel (Suc nr))\<rparr>"
  define i :: usize where "i = ucast cap"
  have i: "unat i = unat cap"
    by (simp add: i_def unsigned_ucast_eq take_bit_eq_mod less_trans [OF unat_lt [of cap]])
  have run: "running s ft fr nt nr th (unat (i mod 128))"
    using assms by (simp add: fresh_running_def unat_mod)
  note r = run [unfolded running_def]
  have clone: "KPtr_clone (thread_resources th) s = Return (kptr_to s fr, ?s1)"
    using r by (simp add: KPtr_clone_count)
  have "slot_get (kptr_to s fr, i mod 128) ?s1 = Return (CapSlot_default, ?s1)"
    using r by (auto simp: CapSlot_clone_def CapSlot_default_def slot_get_eq)
  then have child: "slot_child_of (kptr_to s fr, i mod 128) ?s1 = Return (Ok None, ?s1)"
    by (simp add: slot_child_of_def CapSlot_default_def)
  have drop: "KPtr_drop TCapTable (kptr_to s fr) ?s1 = (if nr = 0 then Panic UnwrapErr
      else Return (?s1\<lparr>k_rt := set_entry (k_rt ?s1) fr (mk_entry Kernel (nr - 1))\<rparr>))"
    using r KPtr_drop_count [of ?s1 fr "Suc nr" TCapTable] by (simp add: rt.look_put_same Suc_less_eq2)
  have "i div 128 \<noteq> 0"
    using False i by (auto simp: word_unat_eq_iff unat_div)
  then have "find_slot (kptr_to s fr) (CapId cap) ?s1 = (if nr = 0 then Panic UnwrapErr
      else Return (Err NotFound, ?s1\<lparr>k_rt := set_entry (k_rt ?s1) fr (mk_entry Kernel (nr - 1))\<rparr>))"
    using child drop by (simp add: find_slot_def TrieEntry_get_usize get_usize_unfold NUM_SLOTS_eq flip: i_def)
  with clone show ?thesis
    by (simp add: exercise_cap_def)
qed

text \<open>
  Every call takes a reference of the thread; one that reaches the capability table takes a
  reference of the table as well.
\<close>

lemma syscall_fresh:
  assumes run: "fresh_running s ft fr nt nr th" and nt: "nt < 16382"
  shows "if nt = 0 \<or> unat a < 2 ^ 32 \<and> nr = 0 then syscall_handle F N m a b c d e f s = Panic UnwrapErr
    else \<exists>s'. same_objects s s' \<and> syscall_handle F N m a b c d e f s
        = Return (Done (to_errno (if unat a < 2 ^ 32 then NotFound else InvalidArgument)), s')
      \<and> fresh_running s' ft fr (nt - 1) (if unat a < 2 ^ 32 then nr - 1 else nr) th"
proof -
  have run0: "running s ft fr nt nr th 0"
    using run by (simp add: fresh_running_def)
  note r = run0 [unfolded running_def]
  let ?g1 = "set_entry (k_rt s) ft (mk_entry Kernel (Suc nt))"
  have e: "entry ?g1 ft = Some (mk_entry Kernel (Suc nt))" "entry ?g1 fr = Some (mk_entry Kernel nr)"
    using r by (simp_all add: rt.look_put)
  have cur: "Thread_current s = Return (Some (kptr_to s ft), s\<lparr>k_rt := ?g1\<rparr>)"
    using r by (auto simp: Thread_current_def borrow_def KPtr_clone_count)
  have drop: "drop_all [(TThread, kptr_to s ft)] (s\<lparr>k_rt := g\<rparr>) = (if nt = 0 then Panic UnwrapErr
      else Return (s\<lparr>k_rt := set_entry g ft (mk_entry Kernel (nt - 1))\<rparr>))"
    if "rt_ok g" "entry g ft = Some (mk_entry Kernel (Suc nt))" for g
    using r that nt KPtr_drop_count [of "s\<lparr>k_rt := g\<rparr>" ft "Suc nt" TThread] by (simp add: KPtr_drop_def)
  have fresh: "fresh_running (s\<lparr>k_rt := g\<rparr>) ft fr nt' nr' th" if "rt_ok g" "entry g ft = Some (mk_entry Kernel nt')"
    "entry g fr = Some (mk_entry Kernel nr')" "nt' < 16383" "nr' < 16383" for g nt' nr'
    using run that by (auto simp: fresh_running_def intro: running_rt)
  show ?thesis
  proof (cases "unat a < 2 ^ 32")
    case False
    then have "syscall_handle F N m a b c d e f s = (if nt = 0 then Panic UnwrapErr
        else Return (Done (to_errno InvalidArgument), s\<lparr>k_rt := set_entry ?g1 ft (mk_entry Kernel (nt - 1))\<rparr>))"
      using cur drop [of ?g1] e r by (cases "nt = 0") (simp_all add: syscall_handle_def leave_def u32_try_from_def)
    moreover have "fresh_running (s\<lparr>k_rt := set_entry ?g1 ft (mk_entry Kernel (nt - 1))\<rparr>) ft fr (nt - 1) nr th"
      using r e nt by (intro fresh) (simp_all add: rt.look_put)
    ultimately show ?thesis
      using False by (auto simp: same_objects_def)
  next
    case True
    let ?g2 = "set_entry (set_entry ?g1 fr (mk_entry Kernel (Suc nr))) fr (mk_entry Kernel (nr - 1))"
    have s1: "fresh_running (s\<lparr>k_rt := ?g1\<rparr>) ft fr (Suc nt) nr th"
      using r e nt by (intro fresh) simp_all
    have e2: "rt_ok ?g2" "entry ?g2 ft = Some (mk_entry Kernel (Suc nt))" "entry ?g2 fr = Some (mk_entry Kernel (nr - 1))"
      using r e by (simp_all add: rt.look_put)
    have "syscall_handle F N m a b c d e f s = (if nr = 0 \<or> nt = 0 then Panic UnwrapErr
        else Return (Done (to_errno NotFound), s\<lparr>k_rt := set_entry ?g2 ft (mk_entry Kernel (nt - 1))\<rparr>))"
      using cur drop [OF e2(1,2)] exercise_fresh [OF s1, of F N m "ucast a" "SyscallArgs_new b c d e f"] r True
      by (cases "nt = 0"; cases "nr = 0") (simp_all add: syscall_handle_def leave_def u32_try_from_def deref_eqs)
    moreover have "fresh_running (s\<lparr>k_rt := set_entry ?g2 ft (mk_entry Kernel (nt - 1))\<rparr>) ft fr (nt - 1) (nr - 1) th"
      using r e2 nt by (intro fresh) (simp_all add: rt.look_put less_imp_diff_less)
    ultimately show ?thesis
      using True by (auto simp: same_objects_def)
  qed
qed

lemma runs_fresh:
  assumes "(syscall_step F N ^^ n) s s'" and "fresh_running s ft fr nt nr th" and "nt < 16382"
  shows "n \<le> nt \<and> (\<exists>nr'. fresh_running s' ft fr (nt - n) nr' th)"
  using assms(1)
proof (induction n arbitrary: s')
  case 0
  then show ?case using assms(2) by auto
next
  case (Suc n)
  then obtain s1 where "(syscall_step F N ^^ n) s s1" and step: "syscall_step F N s1 s'" by auto
  with Suc.IH obtain nr1 where n: "n \<le> nt" "fresh_running s1 ft fr (nt - n) nr1 th" by blast
  from step obtain m a b c d e f r where call: "syscall_handle F N m a b c d e f s1 = Return (r, s')"
    by (rule syscall_stepE)
  have "nt - n < 16382" using assms(3) by simp
  from syscall_fresh [OF n(2) this, of a F N m b c d e f] call n(1) show ?case
    by (auto split: if_splits)
qed

section \<open>Properties\<close>



text \<open>
  C9. The first thread can make exactly two system calls: with two untyped frames left, booting starts it,
  some sequence of two calls returns, and no sequence of more calls does, whatever their arguments.
\<close>

theorem first_thread_has_two_calls:
  assumes "alloc_ready s BumpAllocator_new" and "untyped_unused s" and "active_cell s = Return (RefCell_new None)"
    and "k < l" and "l < length (entries (k_rt s))" and "state_of (entries (k_rt s) ! k) = Untyped" and "state_of (entries (k_rt s) ! l) = Untyped"
  shows "\<exists>s0. start_thread booter s = Return (Resumed booter :: 'a flow, s0) \<and> (\<exists>s2. (syscall_step F N ^^ 2) s0 s2)
    \<and> (\<forall>n s'. (syscall_step F N ^^ n) s0 s' \<longrightarrow> n \<le> 2)"
proof -
  obtain ft fr th s0 where start: "start_thread booter s = Return (Resumed booter :: 'a flow, s0)"
    and "\<And>i. i < 128 \<Longrightarrow> running s0 ft fr 2 1 th i"
    using start_thread_running [OF assms] by metis
  then have run: "fresh_running s0 ft fr 2 1 th"
    by (simp add: fresh_running_def)
  have bad: "\<not> unat (0xFFFFFFFFFFFFFFFF :: usize) < 2 ^ 32"
    by simp
  from syscall_fresh [OF run, of "0xFFFFFFFFFFFFFFFF" F N "\<lambda>_. 0" 0 0 0 0 0] bad obtain s1 where
    1: "syscall_step F N s0 s1" "fresh_running s1 ft fr 1 1 th"
    by (auto intro: syscall_step)
  from syscall_fresh [OF 1(2), of "0xFFFFFFFFFFFFFFFF" F N "\<lambda>_. 0" 0 0 0 0 0] bad obtain s2 where
    "syscall_step F N s1 s2"
    by (auto intro: syscall_step)
  with 1(1) have "(syscall_step F N ^^ 2) s0 s2"
    by (auto simp: eval_nat_numeral)
  with start runs_fresh [OF _ run] show ?thesis
    by auto
qed

theorem first_thread_has_two_calls_witness:
  "\<exists>s0. start_thread sample_ctx boot_kstate = Return (Resumed sample_ctx :: unit flow, s0)
     \<and> (\<exists>s2. (syscall_step word_ptf derived_num_enum ^^ 2) s0 s2) \<and> \<not> (\<exists>s3. (syscall_step word_ptf derived_num_enum ^^ 3) s0 s3)"
proof -
  have "active_cell boot_kstate = Return (RefCell_new None)" "untyped_unused boot_kstate"
    using boot_kstate_bootable by (simp_all add: bootable_def)
  with first_thread_has_two_calls [OF boot_ready, of 1 2 sample_ctx word_ptf derived_num_enum] show ?thesis
    by (fastforce simp: boot_entries free7_def Let_def)
qed

end
