(* ===== verification/User_Space.thy ===== *)
theory User_Space
  imports Prelude Cells Retyping Kapi Exec Kernel_State Kptr Caps Addrspace Component Boot Kernel_Run
begin

text \<open>
  The programs of user space (\<open>userspace/librs\<close>, \<open>userspace/booter\<close>) as sequences of system calls. The
  instruction \<open>int 0x80\<close> of \<open>raw_syscall\<close> enters the system call handler of theory \<open>Component\<close> with the
  argument registers of the caller; the saving of the other registers is in theory \<open>Exec\<close>.
\<close>

section \<open>Definitions\<close>

definition raw_syscall ::
    "'f ptf \<Rightarrow> num_enum \<Rightarrow> (nat \<Rightarrow> u64) \<Rightarrow> usize \<Rightarrow> usize \<Rightarrow> usize \<Rightarrow> usize \<Rightarrow> usize \<Rightarrow> usize \<Rightarrow> kstate \<Rightarrow> (isize flow \<times> kstate) run" where
  "raw_syscall F N m a b c d e f s = syscall_handle F N m a b c d e f s"

text \<open>Writing a string at an address; the result of the call is ignored.\<close>

definition librs_write :: "'f ptf \<Rightarrow> num_enum \<Rightarrow> (nat \<Rightarrow> u64) \<Rightarrow> usize \<Rightarrow> usize \<Rightarrow> kstate \<Rightarrow> (unit flow \<times> kstate) run" where
  "librs_write F N m msg_ptr msg_len s =
     bindR (raw_syscall F N m 0xFFFFFFFFFFFFFFFF 0 msg_ptr msg_len 0 0 s) (\<lambda>(r, s). case r of
       Done _ \<Rightarrow> Return (Done (), s)
     | Resumed ctx \<Rightarrow> Return (Resumed ctx, s))"

definition DebugOut_write_str ::
    "'f ptf \<Rightarrow> num_enum \<Rightarrow> (nat \<Rightarrow> u64) \<Rightarrow> usize \<Rightarrow> usize \<Rightarrow> kstate \<Rightarrow> ((unit, unit) result flow \<times> kstate) run" where
  "DebugOut_write_str F N m s_ptr s_len s =
     bindR (librs_write F N m s_ptr s_len s) (\<lambda>(r, s). case r of
       Done _ \<Rightarrow> Return (Done (Ok ()), s)
     | Resumed ctx \<Rightarrow> Return (Resumed ctx, s))"

text \<open>The system call of the booter, after which it spins.\<close>

definition booter_start :: "'f ptf \<Rightarrow> num_enum \<Rightarrow> (nat \<Rightarrow> u64) \<Rightarrow> kstate \<Rightarrow> (isize flow \<times> kstate) run" where
  "booter_start F N m s = raw_syscall F N m 1 2 3 4 5 6 s"

section \<open>Lemmas\<close>

lemma write_str_fresh:
  assumes "fresh_running s ft fr nt nr th" and "nt < 16382"
  shows "if nt = 0 then DebugOut_write_str F N m p l s = Panic UnwrapErr
    else \<exists>s'. DebugOut_write_str F N m p l s = Return (Done (Ok ()), s') \<and> fresh_running s' ft fr (nt - 1) nr th \<and> k_heap s' = k_heap s"
proof -
  have "\<not> unat (0xFFFFFFFFFFFFFFFF :: usize) < 2 ^ 32"
    by simp
  with syscall_fresh [OF assms, of "0xFFFFFFFFFFFFFFFF" F N m 0 p l 0 0] show ?thesis
    by (cases "nt = 0") (auto simp: DebugOut_write_str_def librs_write_def raw_syscall_def same_objects_def)
qed

text \<open>The booter is told that its table has no such capability.\<close>

lemma booter_gets_not_found:
  assumes "alloc_ready s BumpAllocator_new" and "untyped_unused s" and "active_cell s = Return (RefCell_new None)"
    and "k < n" and "n < length (entries (k_rt s))" and "state_of (entries (k_rt s) ! k) = Untyped" and "state_of (entries (k_rt s) ! n) = Untyped"
  obtains s1 s2 where "start_thread booter s = Return (Resumed booter :: 'a flow, s1)"
    "booter_start F N m s1 = Return (Done (to_errno NotFound), s2)"
proof -
  obtain ft fr th s1 where start: "start_thread booter s = Return (Resumed booter :: 'a flow, s1)" and 1: "running s1 ft fr 2 1 th 1"
    using start_thread_running [OF assms] by (metis one_less_numeral_iff semiring_norm(76))
  from syscall_empty_slot [OF 1, of F N m 2 3 4 5 6] that [OF start] show thesis
    by (auto simp: booter_start_def raw_syscall_def)
qed

section \<open>Properties\<close>

text \<open>
  What a program prints never arrives, and printing stops the kernel: the first thread can
  write two strings, which the library reports as written although the kernel rejects the call
  and no object changes; its third write panics, because every call takes a reference of the
  running thread.
\<close>

lemma user_output_stops_the_kernel:
  assumes "alloc_ready s BumpAllocator_new" and "untyped_unused s" and "active_cell s = Return (RefCell_new None)"
    and "k < n" and "n < length (entries (k_rt s))" and "state_of (entries (k_rt s) ! k) = Untyped" and "state_of (entries (k_rt s) ! n) = Untyped"
  shows "\<exists>s1 s2 s3. start_thread booter s = Return (Resumed booter :: 'a flow, s1)
    \<and> DebugOut_write_str F N m p l s1 = Return (Done (Ok ()), s2) \<and> k_heap s2 = k_heap s1
    \<and> DebugOut_write_str F N m p l s2 = Return (Done (Ok ()), s3) \<and> k_heap s3 = k_heap s1
    \<and> DebugOut_write_str F N m p l s3 = Panic UnwrapErr"
proof -
  obtain ft fr th s1 where start: "start_thread booter s = Return (Resumed booter :: 'a flow, s1)" and 1: "fresh_running s1 ft fr 2 1 th"
    using start_thread_running [OF assms] unfolding fresh_running_def by metis
  from write_str_fresh [OF 1, of F N m p l] obtain s2 where 2: "DebugOut_write_str F N m p l s1 = Return (Done (Ok ()), s2)"
    "fresh_running s2 ft fr 1 1 th" "k_heap s2 = k_heap s1" by auto
  from write_str_fresh [OF 2(2), of F N m p l] obtain s3 where 3: "DebugOut_write_str F N m p l s2 = Return (Done (Ok ()), s3)"
    "fresh_running s3 ft fr 0 1 th" "k_heap s3 = k_heap s2" by auto
  from write_str_fresh [OF 3(2), of F N m p l] start 2 3 show ?thesis
    by auto
qed

end
