(* ===== verification/Unit_Tests.thy ===== *)
theory Unit_Tests
  imports Prelude Paging Memory_Map Trie Exec Kernel_State Kptr Component Platform Startup
begin

text \<open>
  The unit tests of the repository, run on the model: the tests of the boot allocator, of the
  interrupt flag and of the trie, and the kernel that runs the first ones (\<open>testing.rs\<close>). A test is
  a computation that panics when an assertion fails. The slots of the tests of the trie are a second instance of the
  parameters of theory \<open>Trie\<close>, with shared nodes in a store. The tests of the cells start threads; what
  they assert is proved for every order of steps in theory \<open>Interleaving\<close>.
\<close>

unbundle bit_operations_syntax

section \<open>The test kernel\<close>

datatype QemuExitCode = Success | Failed

primrec exit_code :: "QemuExitCode \<Rightarrow> u32" where
  "exit_code Success = 0x10"
| "exit_code Failed = 0x11"

text \<open>The write to a port that ends the emulator.\<close>

definition exit_qemu :: "QemuExitCode \<Rightarrow> u16 \<times> u32" where
  "exit_qemu code = (0xF4, exit_code code)"

text \<open>The tests run in order; what they print is left out.\<close>

primrec runner :: "unit run list \<Rightarrow> unit run" where
  "runner [] = Return ()"
| "runner (test # tests) = bindR test (\<lambda>_. runner tests)"

definition trivial_assertion :: "unit run" where
  "trivial_assertion = assert (2 + 2 = (4 :: int))"

text \<open>The write that the emulator gets: from the end of \<open>kmain\<close>, or from the panic handler.\<close>

definition test_kmain ::
    "('g, 'd) x86 \<Rightarrow> limine \<Rightarrow> (unit, unit) result \<Rightarrow> string option \<Rightarrow> u64 \<Rightarrow> u64 \<Rightarrow> u32 \<Rightarrow> u32 \<Rightarrow> ('g, 'd) machine \<Rightarrow> kstate
       \<Rightarrow> (('g, 'd) machine \<Rightarrow> unit run list) \<Rightarrow> u16 \<times> u32" where
  "test_kmain X L set_logger env stack interrupt_stack edx eax m s tests =
     (case bindR (init X L set_logger env stack interrupt_stack edx eax m s) (\<lambda>(m, s). runner (tests m)) of
       Return _ \<Rightarrow> exit_qemu Success
     | Panic _ \<Rightarrow> exit_qemu Failed)"

section \<open>The boot allocator\<close>

text \<open>The type of reserved memory is 1 in the protocol of the boot loader.\<close>

definition test_entry :: "u64 \<Rightarrow> u64 \<Rightarrow> EntryType \<Rightarrow> Entry" where
  "test_entry base frames entry_type = \<lparr>e_base = base * FRAME_SIZE, e_length = frames * FRAME_SIZE, e_type = entry_type\<rparr>"

primrec expect_frames :: "u64 list \<Rightarrow> BootAllocator \<Rightarrow> BootAllocator run" where
  "expect_frames [] allocator = Return allocator"
| "expect_frames (expected_frame # rest) allocator =
     bindR (PhysAddr_new expected_frame) (\<lambda>p.
     bindR (RawFrame_from_start_address p) (\<lambda>expected_frame.
     bindR (alloc_frame allocator) (\<lambda>(f, allocator).
     bindR (unwrap f) (\<lambda>frame.
     bindR (assert (frame = expected_frame)) (\<lambda>_.
     expect_frames rest allocator)))))"

definition expect_none :: "BootAllocator \<Rightarrow> unit run" where
  "expect_none allocator = bindR (alloc_frame allocator) (\<lambda>(f, _). assert (f = None))"

definition allocation_test :: "unit run" where
  "allocation_test =
     (let allocator = BootAllocator_new [test_entry 0 2 USABLE, test_entry 4 1 USABLE, test_entry 5 1 (OtherEntryType 1), test_entry 6 1 USABLE] in
     bindR (expect_frames [0, FRAME_SIZE, FRAME_SIZE * 4, FRAME_SIZE * 6] allocator) expect_none)"

primrec expect_starts :: "u64 list \<Rightarrow> BootAllocator \<Rightarrow> BootAllocator run" where
  "expect_starts [] allocator = Return allocator"
| "expect_starts (expected_start # rest) allocator =
     bindR (PhysAddr_new expected_start) (\<lambda>expected_start.
     bindR (alloc_frames 2 allocator) (\<lambda>(r, allocator).
     bindR (unwrap r) (\<lambda>start.
     bindR (assert (start = expected_start)) (\<lambda>_.
     bindR (assert (as_u64 start mod FRAME_SIZE = 0)) (\<lambda>_.
     expect_starts rest allocator)))))"

definition multi_allocation_test :: "unit run" where
  "multi_allocation_test =
     (let allocator = BootAllocator_new [test_entry 0 2 USABLE, test_entry 4 1 USABLE, test_entry 5 1 (OtherEntryType 1), test_entry 6 2 USABLE] in
     bindR (expect_starts [0, FRAME_SIZE * 6] allocator) expect_none)"

lemma allocation_tests_pass: "allocation_test = Return ()" "multi_allocation_test = Return ()"
  by (simp_all add: allocation_test_def multi_allocation_test_def BootAllocator_new_def test_entry_def FRAME_SIZE_def expect_none_def
      alloc_frames_def alloc_frame.simps alloc_bytes.simps assert_def add_chk_def sub_chk_def mul_chk_def PhysAddr_new_eq
      RawFrame_from_start_address_def RawFrame_try_from_start_address_def Let_def)

section \<open>The interrupt flag\<close>

definition interrupts_test :: "('g, 'd) machine \<Rightarrow> ('g, 'd) machine run" where
  "interrupts_test m =
     (let enabled = are_enabled m; m = interrupts_enable m in
     bindR (assert (are_enabled m)) (\<lambda>_.
     let m = interrupts_disable m in
     bindR (assert (\<not> are_enabled m)) (\<lambda>_.
     Return (if enabled then interrupts_enable m else interrupts_disable m))))"

lemma interrupts_enabled: "are_enabled (interrupts_enable m)"
proof -
  have "bit ((m_rflags m OR push_bit 9 1) AND push_bit 9 (1 :: u64)) 9"
    by (simp add: bit_simps)
  then have "(m_rflags m OR push_bit 9 1) AND push_bit 9 (1 :: u64) \<noteq> 0"
    by auto
  then show ?thesis
    by (simp add: are_enabled_def read_rflags_def interrupts_enable_def)
qed

lemma interrupts_test_passes: "\<exists>m'. interrupts_test m = Return m' \<and> are_enabled m' = are_enabled m"
  using interrupts_enabled interrupts_disabled by (auto simp: interrupts_test_def assert_def Let_def)

text \<open>The kernel that runs the tests of the kernel crate reports success.\<close>

definition kernel_tests :: "('g, 'd) machine \<Rightarrow> unit run list" where
  "kernel_tests m = [trivial_assertion, allocation_test, multi_allocation_test, bindR (interrupts_test m) (\<lambda>_. Return ())]"

lemma test_kernel_succeeds:
  assumes "x86_spec X" and "kernel_stack stack" and "kernel_stack interrupt_stack"
    and "limine_ok L offset mm" and "loader_state offset mm s" and "LOG_LEVEL env = Return lev"
  shows "test_kmain X L (Ok ()) env stack interrupt_stack edx eax m s kernel_tests = (0xF4, 0x10)"
proof -
  from init_bootable [OF assms] obtain m1 s1 where "init X L (Ok ()) env stack interrupt_stack edx eax m s = Return (m1, s1)"
    by blast
  moreover obtain m2 where "interrupts_test m1 = Return m2"
    using interrupts_test_passes by blast
  ultimately show ?thesis
    by (simp add: test_kmain_def kernel_tests_def trivial_assertion_def assert_def allocation_tests_pass exit_qemu_def)
qed

section \<open>The trie\<close>

text \<open>
  The nodes of the tests are shared through \<open>Rc\<close> and have slots with interior mutability: they are in a
  store, by their addresses. The tests hold a reference to every node until they end, so dropping
  a clone frees nothing.
\<close>

record MySlot =
  my_child :: "nat option"
  my_payload :: u32

definition MySlot_default :: MySlot where
  "MySlot_default = \<lparr>my_child = None, my_payload = 0\<rparr>"

type_synonym rc_store = "nat \<rightharpoonup> MySlot list"

definition MySlot_at :: "nat slot_ref \<Rightarrow> rc_store \<Rightarrow> MySlot run" where
  "MySlot_at r s = (case s (fst r) of
     None \<Rightarrow> Panic BadDeref
   | Some slots \<Rightarrow> if unat (snd r) < length slots then Return (slots ! unat (snd r)) else Panic IndexOutOfBounds)"

definition MySlot_put :: "nat slot_ref \<Rightarrow> MySlot \<Rightarrow> rc_store \<Rightarrow> rc_store" where
  "MySlot_put r v s = (case s (fst r) of None \<Rightarrow> s | Some slots \<Rightarrow> s(fst r \<mapsto> slots[unat (snd r) := v]))"

definition MySlot_child :: "nat slot_ref \<Rightarrow> rc_store \<Rightarrow> ((nat option, unit) result \<times> rc_store) run" where
  "MySlot_child r s = bindR (MySlot_at r s) (\<lambda>slot. Return (Ok (my_child slot), s))"

definition MySlot_set_child :: "nat slot_ref \<Rightarrow> nat option \<Rightarrow> rc_store \<Rightarrow> (nat option \<times> rc_store) run" where
  "MySlot_set_child r child s = bindR (MySlot_at r s) (\<lambda>slot. Return (my_child slot, MySlot_put r (slot\<lparr>my_child := child\<rparr>) s))"

definition rc_drop :: "nat \<Rightarrow> rc_store \<Rightarrow> rc_store run" where
  "rc_drop p s = Return s"

definition MyTrie_get :: "usize \<Rightarrow> nat \<Rightarrow> u32 \<Rightarrow> rc_store \<Rightarrow> (nat slot_ref option \<times> rc_store) run" where
  "MyTrie_get COUNT trie i s = bindR (TrieEntry_get COUNT MySlot_child rc_drop trie i s) (\<lambda>(r, s). bindR (unwrap_ok r) (\<lambda>r. Return (r, s)))"

definition smoke :: "unit run" where
  "smoke =
     (let s = [0 \<mapsto> TrieEntry_default 16 MySlot_default] in
     bindR (MyTrie_get 16 0 0 s) (\<lambda>(r, s).
     bindR (unwrap r) (\<lambda>slot.
     bindR (MySlot_at slot s) (\<lambda>v.
     assert (my_payload v = 0)))))"

primrec set_payloads :: "u32 list \<Rightarrow> rc_store \<Rightarrow> rc_store run" where
  "set_payloads [] s = Return s"
| "set_payloads (i # is) s =
     bindR (MyTrie_get 64 0 i s) (\<lambda>(r, s).
     bindR (unwrap r) (\<lambda>slot.
     bindR (MySlot_at slot s) (\<lambda>v.
     set_payloads is (MySlot_put slot (v\<lparr>my_payload := i\<rparr>) s))))"

primrec check_payloads :: "u32 list \<Rightarrow> rc_store \<Rightarrow> unit run" where
  "check_payloads [] s = Return ()"
| "check_payloads (i # is) s =
     bindR (MyTrie_get 64 0 i s) (\<lambda>(r, s).
     bindR (unwrap r) (\<lambda>slot.
     bindR (MySlot_at slot s) (\<lambda>v.
     bindR (assert (my_payload v = i)) (\<lambda>_.
     check_payloads is s))))"

definition slots_can_be_set_and_get :: "unit run" where
  "slots_can_be_set_and_get =
     bindR (set_payloads (List.map of_nat [0..<64]) [0 \<mapsto> TrieEntry_default 64 MySlot_default]) (\<lambda>s.
     check_payloads (List.map of_nat [0..<64]) s)"

definition connections :: "unit run" where
  "connections =
     (let s = [0 \<mapsto> TrieEntry_default 64 MySlot_default] in
     bindR (MyTrie_get 64 0 64 s) (\<lambda>(r, s).
     bindR (assert (r = None)) (\<lambda>_.
     bindR (MyTrie_get 64 0 0 s) (\<lambda>(r, s).
     bindR (unwrap r) (\<lambda>slot.
     let s = s(1 \<mapsto> TrieEntry_default 64 MySlot_default) in
     bindR (MySlot_set_child slot (Some 1) s) (\<lambda>(old, s).
     bindR (assert (old = None)) (\<lambda>_.
     bindR (MyTrie_get 64 0 64 s) (\<lambda>(r, s).
     bindR (unwrap r) (\<lambda>slot.
     bindR (MySlot_at slot s) (\<lambda>v.
     assert (my_payload v = 0)))))))))))"

interpretation rc_trie: trie_view MySlot_child rc_drop
  "\<lambda>s p d. case s p of Some slots \<Rightarrow> if d < length slots then my_child (slots ! d) else None | None \<Rightarrow> None"
  by unfold_locales (auto simp: MySlot_child_def MySlot_at_def rc_drop_def bindR_eq_Return split: option.splits if_splits)

lemma MyTrie_get_low:
  assumes "2 \<le> COUNT" and "unat i < unat COUNT"
  shows "MyTrie_get COUNT p i s = Return (Some (p, ucast i), s)"
proof -
  have i: "unat (ucast i :: usize) = unat i"
    by (simp add: unsigned_ucast_eq take_bit_eq_mod less_trans [OF unat_lt [of i]])
  then have "ucast i div COUNT = 0" and "(ucast i :: usize) mod COUNT = ucast i"
    using assms(2) by (simp_all add: word_unat_eq_iff unat_div unat_mod)
  then show ?thesis
    by (simp add: MyTrie_get_def TrieEntry_get_usize get_usize_unfold [OF assms(1)])
qed

lemma trie_tests_pass: "smoke = Return ()" "connections = Return ()"
proof -
  have root: "MyTrie_get 16 0 0 s = Return (Some (0, 0), s)" "MyTrie_get 64 0 0 s = Return (Some (0, 0), s)" for s
    by (subst MyTrie_get_low; simp)+
  have "(2 :: usize) \<le> 64" and one: "(1 :: usize) div 64 = 0" "(1 :: usize) mod 64 = 1"
    by simp_all
  note step = get_usize_unfold [OF this(1)]
  have deep: "MyTrie_get 64 0 64 s = bindR (MySlot_at (0, 0) s) (\<lambda>v. Return (case my_child v of None \<Rightarrow> None | Some c \<Rightarrow> Some (c, 1), s))" for s
    unfolding MyTrie_get_def TrieEntry_get_usize
    by (subst step, simp add: MySlot_child_def rc_drop_def, cases "MySlot_at (0, 0) s")
       (auto simp: step one split: option.splits)
  show "smoke = Return ()"
    by (simp add: smoke_def root MySlot_at_def TrieEntry_default_def MySlot_default_def assert_def)
  show "connections = Return ()"
    by (simp add: connections_def root deep MySlot_at_def MySlot_put_def MySlot_set_child_def TrieEntry_default_def MySlot_default_def assert_def)
qed

definition with_payload :: "u32 \<Rightarrow> MySlot list \<Rightarrow> MySlot list" where
  "with_payload i slots = slots[unat i := (slots ! unat i)\<lparr>my_payload := i\<rparr>]"

lemma nth_with_payload:
  "unat j < length xs \<Longrightarrow> my_payload (with_payload j xs ! unat i) = (if i = j then j else my_payload (xs ! unat i))"
  by (auto simp: with_payload_def nth_list_update word_unat_eq_iff)

lemma payloads_set:
  assumes "\<forall>i \<in> set is. unat i < 64" and "length slots = 64"
  shows "set_payloads is [0 \<mapsto> slots] = Return [0 \<mapsto> fold with_payload is slots]"
    and "length (fold with_payload is slots) = 64" and "i \<in> set is \<Longrightarrow> my_payload (fold with_payload is slots ! unat i) = i"
proof -
  have idx: "unat (ucast i :: usize) = unat i" for i :: u32
    by (simp add: unsigned_ucast_eq take_bit_eq_mod less_trans [OF unat_lt [of i]])
  have len: "length (fold with_payload js slots) = length slots" for js slots
    by (induction js arbitrary: slots) (simp_all add: with_payload_def)
  then show "length (fold with_payload is slots) = 64"
    by (simp add: assms(2))
  show "set_payloads is [0 \<mapsto> slots] = Return [0 \<mapsto> fold with_payload is slots]"
    using assms by (induction "is" arbitrary: slots)
      (simp_all add: MyTrie_get_low MySlot_at_def MySlot_put_def with_payload_def idx)
  show "i \<in> set is \<Longrightarrow> my_payload (fold with_payload is slots ! unat i) = i"
    using assms(1)
  proof (induction "is" rule: rev_induct)
    case (snoc j js)
    then show ?case
      by (auto simp: nth_with_payload len assms(2))
  qed simp
qed

lemma payloads_check:
  assumes "\<forall>i \<in> set is. unat i < 64 \<and> my_payload (slots ! unat i) = i" and "length slots = 64"
  shows "check_payloads is [0 \<mapsto> slots] = Return ()"
proof -
  have idx: "unat (ucast i :: usize) = unat i" for i :: u32
    by (simp add: unsigned_ucast_eq take_bit_eq_mod less_trans [OF unat_lt [of i]])
  show ?thesis
    using assms by (induction "is") (simp_all add: MyTrie_get_low MySlot_at_def idx assert_def)
qed

lemma payload_test_passes: "slots_can_be_set_and_get = Return ()"
proof -
  define js :: "u32 list" where "js = List.map of_nat [0..<64]"
  have ids: "\<forall>i \<in> set js. unat i < 64"
    by (auto simp: js_def unat_of_nat)
  have len: "length (TrieEntry_default 64 MySlot_default) = 64"
    by (simp add: TrieEntry_default_def)
  note set = payloads_set [OF ids len]
  have "check_payloads js [0 \<mapsto> fold with_payload js (TrieEntry_default 64 MySlot_default)] = Return ()"
    using ids set(3) by (intro payloads_check [OF _ set(2)]) blast
  then show ?thesis
    by (simp add: slots_can_be_set_and_get_def set(1) flip: js_def)
qed

end
