(* ===== verification/Spec2Isabelle.thy ===== *)
theory Spec2Isabelle
  imports Prelude Paging Cells Retype_Entry Retyping Retype_Spec Memory_Map Bump Trie Kapi Page_Table Exec Kernel_State Kptr Caps Addrspace Component Boot First_Process
    Loading Interleaving Platform Startup Kernel_Run User_Space Unit_Tests
begin

text \<open>
  A verification of the Harmony microkernel (\<open>src/harmony\<close>).

  \<^bold>\<open>The program.\<close> Harmony is a capability microkernel for one x86-64 processor. The boot loader hands
  it a memory map. The kernel types every physical frame in the \<^emph>\<open>retype table\<close> (\<open>kernel/src/retyping.rs\<close>)
  and from then on every use of a frame goes through a handle that the table counts. Kernel objects
  (page tables, threads, capability tables) live in kernel frames and are reached through counted
  pointers (\<open>kptr.rs\<close>). A capability table is a node of a trie (\<open>trie\<close>, \<open>caps.rs\<close>) whose slots hold a
  resource and a child table. A thread (\<open>component.rs\<close>) has saved registers and a capability table; a
  system call (\<open>syscall.rs\<close>) names a capability of the running thread and an operation on it (\<open>kapi\<close>).
  \<open>main.rs\<close> initialises the parts, loads one program (\<open>arch/x86_64/bootup.rs\<close>) and starts its thread.

  \<^bold>\<open>How the code is modelled.\<close> Functions of the source are functions of the same name here, with the type
  as a prefix where Rust has a method (\<open>KPtr_new\<close> for \<open>KPtr::new\<close>). A function that can panic returns
  \<open>'a run\<close>, which is \<open>Return\<close> or \<open>Panic\<close> with the kind of panic; \<open>bindR\<close> sequences such functions. \<open>Result\<close> and
  \<open>Option\<close> stay values. Machine integers are words; arithmetic that Rust checks is \<open>add_chk\<close>,
  \<open>sub_chk\<close>, \<open>mul_chk\<close>, arithmetic that wraps is the arithmetic of words. State is passed explicitly: the retype
  table is \<open>retype_global\<close>, the kernel is the record \<open>kstate\<close> (retype table, a heap from addresses to kernel
  objects, the active thread, the offset of the direct map, \<open>cr3\<close>), the processor tables and ports are the
  record \<open>machine\<close>. Destructors are written out where Rust runs them, in its order. Dispatching a thread does not return: \<open>'a flow\<close>
  distinguishes a result from the context that is resumed.

  \<^bold>\<open>The theories.\<close>

  \<^item> \<open>Prelude\<close>: \<open>run\<close>, \<open>result\<close>, checked arithmetic, and the lemmas on them that all proofs use.
  \<^item> \<open>Paging\<close> (\<open>arch/x86_64/paging\<close> without the tables): physical and virtual addresses, frames, pages,
    table indices, the direct map. Lemmas: when a constructor panics, the direct map is a bijection on its range, the
    four indices of a page determine it.
  \<^item> \<open>Cells\<close> (\<open>sync/src/cell\<close>): once, lazy, atomic and reference cells as one thread sees them.
  \<^item> \<open>Interleaving\<close>: the same cells as threads that run in any order, one step for every access to shared memory.
    The locale \<open>threads\<close> has the reachability argument, \<open>simulation\<close> the refinement argument; both are interpreted
    for every cell and for the loop of \<open>fetch_update\<close>. Memory is sequentially consistent.
  \<^item> \<open>Retype_Entry\<close>, \<open>Retyping\<close> (\<open>retyping.rs\<close>): entries packed into 16 bits, the table, and the
    user and kernel handles. The locale \<open>frame_table\<close> has the laws of reading and writing entries, \<open>frame_handle\<close> the
    laws the two kinds of handle share.
  \<^item> \<open>Retype_Spec\<close>: the protocol of a frame as an abstract machine, that every operation refines it,
    and that a frame with a live handle cannot change its type.
  \<^item> \<open>Memory_Map\<close> (\<open>RetypeTable::new\<close> and the boot allocator): the table built from the memory map.
  \<^item> \<open>Bump\<close> (\<open>bump_allocator.rs\<close>): the frame allocator; the locale \<open>frame_source\<close> is the contract of the operation that its loop tries.
  \<^item> \<open>Trie\<close> (\<open>trie/src/lib.rs\<close>): the lookup over any kind of slot; the locales \<open>trie_view\<close> and \<open>trie_frame\<close> are
    the contract of slots and pointers, interpreted for capability slots in \<open>Caps\<close>.
  \<^item> \<open>Kapi\<close> (\<open>kapi/src\<close>): operations, arguments, errors and their encodings; the locale \<open>syscall_op\<close> is the trait \<open>SyscallOp\<close>.
  \<^item> \<open>Page_Table\<close>, \<open>Addrspace\<close> (\<open>paging/page_table.rs\<close>): entries, tables, \<open>map_to\<close>, \<open>clone_kernel\<close>, \<open>new_l4\<close>.
    \<open>tr\<close> is the translation of the processor; the lemmas follow \<open>map_to\<close> down a tree of tables.
  \<^item> \<open>Exec\<close> (\<open>exec.rs\<close>, the assembly of \<open>interrupts/handlers.rs\<close> and \<open>kapi/src/raw.rs\<close>): contexts, and the assembly as lists of instructions of a small processor.
  \<^item> \<open>Kernel_State\<close>, \<open>Kptr\<close>, \<open>Caps\<close>, \<open>Component\<close> (\<open>core_local.rs\<close>, \<open>kptr.rs\<close>, \<open>caps.rs\<close>,
    \<open>component.rs\<close>, \<open>syscall.rs\<close>): objects, pointers, capability tables, threads and the system call handler with all its branches.
    \<open>authorised\<close> says what a thread may change, \<open>well_typed\<close> is the type invariant.
  \<^item> \<open>Boot\<close>, \<open>First_Process\<close> (\<open>bootup.rs\<close>, \<open>kmain\<close>): loading segments, stack and the window on physical memory, and the first thread.
  \<^item> \<open>Loading\<close>: that loading does not panic when there is memory for it. \<open>provided\<close> counts the free frames against the tables
    that the pages of the process still need; every step of the loops keeps it.
  \<^item> \<open>Platform\<close> (\<open>gdt.rs\<close>, \<open>interrupts.rs\<close>, the handlers, \<open>timer.rs\<close>, \<open>registers.rs\<close>, \<open>x86_64.rs\<close>): descriptor
    tables, gates, interrupt controllers and timer.
  \<^item> \<open>Startup\<close> (\<open>main.rs\<close>, \<open>serial.rs\<close>): the initialisation as a whole, on the answers of the boot loader.
  \<^item> \<open>Kernel_Run\<close>: system calls one after the other, from the state that booting leaves.
  \<^item> \<open>User_Space\<close> (\<open>userspace\<close>): the system calls of the library and the booter.
  \<^item> \<open>Unit_Tests\<close> (\<open>testing.rs\<close> and the test modules): the tests of the repository, run on the model.

  \<^bold>\<open>Parameters.\<close> Code that is not part of the repository is an argument, with its documented behaviour as a
  hypothesis: the conversions derived by \<open>num_enum\<close>, the page table flags (\<open>ptf\<close>, \<open>ptf_spec\<close>) and the tables
  and gates (\<open>x86\<close>, \<open>x86_spec\<close>) of the \<open>x86_64\<close> crate, the ELF parser \<open>goblin\<close>, the answers of the boot
  loader (\<open>limine\<close>, \<open>limine_ok\<close>). Each has an instance, on which the witnesses evaluate.

  \<^bold>\<open>Loops.\<close> All loops are total functions and no fuel is used. The allocators end because addresses are bounded by 52 bits,
  \<open>map_loop\<close> because the level falls, the loop over a segment because the address grows, the
  lookup in a trie because the identifier shrinks (at a node with fewer than two slots it does not
  end, which is the panic \<open>Diverges\<close>). The spinning of locks and lazy cells is modelled in \<open>Interleaving\<close>, where a
  waiting thread takes steps that change nothing; in \<open>Cells\<close> a wait that no other thread can end is \<open>Diverges\<close>.

  \<^bold>\<open>What the proofs show.\<close> A frame with live handles keeps its type; \<open>map_to\<close> maps one page and nothing else;
  a system call stays within the authority of its thread and keeps the kernel well-typed; the retype table
  agrees with the memory map; \<open>init\<close> leaves a state from which the first process starts as its program says, and does start when memory suffices; the gates let
  user code enter the kernel by system calls only; cells are exclusive and initialised once under any
  interleaving; encodings are inverse to each other. They also show where the code does not do what it means to:
  consuming a handle takes two references instead of one, so that dropping pointers loses references,
  the first thread can make two system calls only, and no kernel object is ever destroyed; the
  preserved registers of a thread are read one word off; identifiers cannot name slot 0 of a child table; the
  first process has no capabilities and cannot get any.

  \<^bold>\<open>Not modelled.\<close> The bytes the serial port sends and the text of log lines and panics: they do not
  influence the kernel and are produced by the crates \<open>log\<close> and \<open>uart_16550\<close>. The memory order of
  atomic operations: accesses are sequentially consistent. \<open>hlt\<close> and \<open>nop\<close>, which the kernel does not
  call. The unit tests of the cells, which start threads and are covered by \<open>Interleaving\<close>. The layout of kernel objects in
  memory: the heap holds values, and the assertions on sizes and alignments are checked when the kernel is
  compiled. \<open>Addrspace::get\<close> is \<open>todo!()\<close> in the source and panics here.
\<close>

end
